(* ===== verification/Pullrun_Prelude.thy ===== *)
theory Pullrun_Prelude
  imports Main "HOL-Library.Word" "HOL-Library.AList"
begin

text \<open>
  Shared vocabulary of the pullrun development: machine integers and byte
  strings, the little-endian integer encodings of the Rust standard library,
  the \<^verbatim>\<open>hex\<close> rendering of bytes, and the string functions
  (\<^verbatim>\<open>strip_prefix\<close>, \<^verbatim>\<open>split_once\<close>, \<^verbatim>\<open>split\<close>,
  \<^verbatim>\<open>trim\<close>, \<^verbatim>\<open>lines\<close>, \<^verbatim>\<open>contains\<close>) the sources call,
  with the facts about them that the component theories use.  Files keyed by
  a name are association lists with \<^const>\<open>AList.update\<close> and
  \<^const>\<open>AList.delete\<close>; their order stands for the order in which a
  directory is enumerated.
\<close>

section \<open>Types and rule collections\<close>

type_synonym byte = "8 word"
type_synonym bytes = "byte list"
type_synonym u16 = "16 word"
type_synonym u32 = "32 word"
type_synonym u64 = "64 word"

named_theorems file_simps \<open>lookup in the files of a store after an operation\<close>
named_theorems inv_intros \<open>preservation of a component invariant by its operations\<close>
named_theorems codec_simps \<open>decoding of encoded values\<close>

section \<open>Association lists as file tables\<close>

lemma lookup_update [simp]:
  "map_of (AList.update k v xs) = (map_of xs)(k \<mapsto> v)"
  by (rule AList.update_conv')

lemma lookup_delete [simp]:
  "map_of (AList.delete k xs) = (map_of xs)(k := None)"
  by (rule AList.delete_conv')

lemma keys_delete [simp]:
  "fst ` set (AList.delete k xs) = fst ` set xs - {k}"
  by (auto simp: AList.delete_eq)

lemma distinct_keys_delete [simp]:
  "distinct (map fst xs) \<Longrightarrow> distinct (map fst (AList.delete k xs))"
  by (rule AList.distinct_delete)

lemma distinct_keys_update [simp]:
  "distinct (map fst xs) \<Longrightarrow> distinct (map fst (AList.update k v xs))"
  by (rule AList.distinct_update)

lemma map_fst_delete: "map fst (AList.delete k xs) = filter (\<lambda>x. x \<noteq> k) (map fst xs)"
  by (induction xs) auto

lemma length_delete_less:
  "map_of xs k \<noteq> None \<Longrightarrow> length (AList.delete k xs) < length xs"
proof (induction xs)
  case (Cons p xs)
  then show ?case
    using AList.length_delete_le [of k xs] by (cases p) (auto split: if_splits)
qed simp

lemma map_of_some_key: "map_of xs k \<noteq> None \<longleftrightarrow> k \<in> fst ` set xs"
  by (simp add: map_of_eq_None_iff)

lemma update_fresh: "map_of xs k = None \<Longrightarrow> AList.update k v xs = xs @ [(k, v)]"
  by (induction xs) auto

text \<open>Sum of the sizes recorded in a table, and how one removal changes it.\<close>

definition bytes_sum :: "('k \<times> 'b list) list \<Rightarrow> nat" where
  "bytes_sum xs = sum_list (map (length \<circ> snd) xs)"

lemma bytes_sum_simps [simp]:
  "bytes_sum [] = 0"
  "bytes_sum (p # xs) = length (snd p) + bytes_sum xs"
  "bytes_sum (xs @ ys) = bytes_sum xs + bytes_sum ys"
  by (simp_all add: bytes_sum_def)

lemma delete_absent: "map_of xs k = None \<Longrightarrow> AList.delete k xs = xs"
  by (simp add: AList.delete_idem map_of_eq_None_iff)

lemma bytes_sum_delete:
  assumes "distinct (map fst xs)" "map_of xs k = Some v"
  shows "bytes_sum xs = length v + bytes_sum (AList.delete k xs)"
  using assms
proof (induction xs)
  case (Cons p xs)
  then show ?case
    by (cases p) (auto split: if_splits simp: AList.delete_idem)
qed simp

section \<open>Little-endian integers\<close>

fun to_le :: "nat \<Rightarrow> nat \<Rightarrow> bytes" where
  "to_le 0 n = []"
| "to_le (Suc k) n = word_of_nat (n mod 256) # to_le k (n div 256)"

fun from_le :: "bytes \<Rightarrow> nat" where
  "from_le [] = 0"
| "from_le (b # bs) = unat b + 256 * from_le bs"

lemma length_to_le [simp]: "length (to_le k n) = k"
  by (induction k arbitrary: n) auto

lemma unat_byte_of_nat [simp]: "unat (word_of_nat n :: byte) = n mod 256"
  by (simp add: unat_of_nat)

lemma from_le_to_le [codec_simps]: "from_le (to_le k n) = n mod 256 ^ k"
  by (induction k arbitrary: n) (simp_all add: mod_mult2_eq)

lemma from_le_less: "from_le bs < 256 ^ length bs"
proof (induction bs)
  case (Cons b bs)
  have "unat b < 256" using unsigned_less [of b, where ?'a=nat] by simp
  then show ?case using Cons by simp
qed simp

lemma to_le_from_le [codec_simps]: "to_le (length bs) (from_le bs) = bs"
proof (induction bs)
  case (Cons b bs)
  have "unat b < 256" using unsigned_less [of b, where ?'a=nat] by simp
  then have "word_of_nat (unat b mod 256) = b" by simp
  with Cons \<open>unat b < 256\<close> show ?case by simp
qed simp

lemma unat_u64_less: "unat (w :: u64) < 2 ^ 64"
  using unsigned_less [of w, where ?'a=nat] by simp

lemma unat_u32_less: "unat (w :: u32) < 2 ^ 32"
  using unsigned_less [of w, where ?'a=nat] by simp

lemma unat_word_of_nat_u64: "n < 2 ^ 64 \<Longrightarrow> unat (word_of_nat n :: u64) = n"
  by (simp add: unat_of_nat)

lemma unat_word_of_nat_u32: "n < 2 ^ 32 \<Longrightarrow> unat (word_of_nat n :: u32) = n"
  by (simp add: unat_of_nat)

lemma unat_add_u32: "unat (a :: u32) + unat b < 2 ^ 32 \<Longrightarrow> unat (a + b) = unat a + unat b"
  by (simp add: unat_word_ariths)

lemma unat_mult_u32: "unat (a :: u32) * unat b < 2 ^ 32 \<Longrightarrow> unat (a * b) = unat a * unat b"
  by (simp add: unat_word_ariths)

definition u64_to_le_bytes :: "u64 \<Rightarrow> bytes" where
  "u64_to_le_bytes w = to_le 8 (unat w)"

definition u64_from_le_bytes :: "bytes \<Rightarrow> u64" where
  "u64_from_le_bytes bs = word_of_nat (from_le bs)"

definition u32_to_le_bytes :: "u32 \<Rightarrow> bytes" where
  "u32_to_le_bytes w = to_le 4 (unat w)"

definition u32_from_le_bytes :: "bytes \<Rightarrow> u32" where
  "u32_from_le_bytes bs = word_of_nat (from_le bs)"

lemma u64_le_length [simp]: "length (u64_to_le_bytes w) = 8"
  by (simp add: u64_to_le_bytes_def)

lemma u32_le_length [simp]: "length (u32_to_le_bytes w) = 4"
  by (simp add: u32_to_le_bytes_def)

lemma u64_le_roundtrip [simp, codec_simps]: "u64_from_le_bytes (u64_to_le_bytes w) = w"
  using unsigned_less [of w, where ?'a=nat] by (simp add: u64_from_le_bytes_def u64_to_le_bytes_def from_le_to_le)

lemma u32_le_roundtrip [simp, codec_simps]: "u32_from_le_bytes (u32_to_le_bytes w) = w"
  using unsigned_less [of w, where ?'a=nat] by (simp add: u32_from_le_bytes_def u32_to_le_bytes_def from_le_to_le)

section \<open>Lists\<close>

lemma take_drop_parts:
  assumes "take n xs = take n ys" "drop n xs = drop n ys"
  shows "xs = ys"
  using assms by (metis append_take_drop_id)

lemma filter_notin_all: "set xs \<subseteq> A \<Longrightarrow> filter (\<lambda>x. x \<notin> A) xs = []"
  by (auto simp: filter_empty_conv)

lemma length_filter_partition:
  "length xs = length (filter P xs) + length (filter (\<lambda>x. \<not> P x) xs)"
  by (induction xs) auto

section \<open>Rust string functions\<close>

fun strip_prefix :: "string \<Rightarrow> string \<Rightarrow> string option" where
  "strip_prefix [] s = Some s"
| "strip_prefix (c # p) [] = None"
| "strip_prefix (c # p) (d # s) = (if c = d then strip_prefix p s else None)"

definition starts_with :: "string \<Rightarrow> string \<Rightarrow> bool" where
  "starts_with s p = (strip_prefix p s \<noteq> None)"

definition ends_with :: "string \<Rightarrow> string \<Rightarrow> bool" where
  "ends_with s p = starts_with (rev s) (rev p)"

fun contains_str :: "string \<Rightarrow> string \<Rightarrow> bool" where
  "contains_str [] p = (p = [])"
| "contains_str (c # s) p = (starts_with (c # s) p \<or> contains_str s p)"

fun split_once :: "char \<Rightarrow> string \<Rightarrow> (string \<times> string) option" where
  "split_once c [] = None"
| "split_once c (d # s) =
    (if d = c then Some ([], s)
     else case split_once c s of None \<Rightarrow> None | Some (a, b) \<Rightarrow> Some (d # a, b))"

text \<open>\<^verbatim>\<open>str::split(c)\<close> on one separator (a character, or a byte of a slice): always at least one piece.\<close>

fun split_on :: "'a \<Rightarrow> 'a list \<Rightarrow> 'a list list" where
  "split_on c [] = [[]]"
| "split_on c (d # s) =
    (if d = c then [] # split_on c s
     else case split_on c s of [] \<Rightarrow> [[d]] | p # ps \<Rightarrow> (d # p) # ps)"

text \<open>The ASCII white space of \<^verbatim>\<open>char::is_whitespace\<close>.\<close>

definition is_space :: "char \<Rightarrow> bool" where
  "is_space c \<longleftrightarrow> c \<in> {CHR '' '', CHR 0x09, CHR 0x0A, CHR 0x0B, CHR 0x0C, CHR 0x0D}"

definition trim_start :: "string \<Rightarrow> string" where
  "trim_start s = dropWhile is_space s"

definition trim_end :: "string \<Rightarrow> string" where
  "trim_end s = rev (dropWhile is_space (rev s))"

definition trim :: "string \<Rightarrow> string" where
  "trim s = trim_end (trim_start s)"

text \<open>
  \<^verbatim>\<open>str::lines\<close>: split at line feeds, a final empty piece is dropped and a
  carriage return before the line feed is not part of the line.
\<close>

definition strip_cr :: "string \<Rightarrow> string" where
  "strip_cr s = (if s \<noteq> [] \<and> last s = CHR 0x0D then butlast s else s)"

definition str_lines :: "string \<Rightarrow> string list" where
  "str_lines s =
    (let ps = split_on (CHR 0x0A) s;
         body = map strip_cr (butlast ps)
     in if last ps = [] then body else body @ [last ps])"

lemma strip_prefix_Some: "strip_prefix p s = Some r \<longleftrightarrow> s = p @ r"
  by (induction p s rule: strip_prefix.induct) auto

lemma strip_prefix_append [simp]: "strip_prefix p (p @ r) = Some r"
  by (simp add: strip_prefix_Some)

lemma strip_prefix_None: "strip_prefix p s = None \<longleftrightarrow> (\<forall>r. s \<noteq> p @ r)"
  using strip_prefix_Some [of p s] by (cases "strip_prefix p s") auto

lemma starts_with_iff: "starts_with s p \<longleftrightarrow> (\<exists>r. s = p @ r)"
  by (auto simp: starts_with_def strip_prefix_None)

lemma split_once_append [simp]:
  "c \<notin> set a \<Longrightarrow> split_once c (a @ c # b) = Some (a, b)"
  by (induction a) auto

lemma split_once_SomeD:
  "split_once c s = Some (a, b) \<Longrightarrow> s = a @ c # b \<and> c \<notin> set a"
  by (induction s arbitrary: a) (auto split: if_splits option.splits)

lemma split_once_Some:
  "split_once c s = Some (a, b) \<longleftrightarrow> s = a @ c # b \<and> c \<notin> set a"
  using split_once_SomeD by auto

lemma split_once_None: "split_once c s = None \<longleftrightarrow> c \<notin> set s"
  by (induction s) (auto split: option.splits)

lemma split_on_nonempty [simp]: "split_on c s \<noteq> []"
  by (induction s) (auto split: list.splits)

lemma split_on_no_sep: "c \<notin> set s \<Longrightarrow> split_on c s = [s]"
  by (induction s) auto

lemma split_on_append:
  "c \<notin> set a \<Longrightarrow> split_on c (a @ c # b) = a # split_on c b"
  by (induction a) auto

lemma split_on_pieces: "p \<in> set (split_on c s) \<Longrightarrow> c \<notin> set p"
  by (induction s arbitrary: p) (auto split: list.splits if_splits)

end
