(* ===== verification/Digest.thy ===== *)
theory Digest
  imports Pullrun_Prelude
begin

text \<open>
  Content digests and DAG nodes: \<^verbatim>\<open>pullrun-store/src/lib.rs\<close> and
  \<^verbatim>\<open>pullrun-store/src/node.rs\<close>.  The crates the store calls (\<^verbatim>\<open>sha2\<close>,
  \<^verbatim>\<open>hex\<close>, \<^verbatim>\<open>rkyv\<close>) are the fields of the parameter record
  \<open>ext\<close>; \<open>hex_ok\<close>, \<open>sha_ok\<close> and \<open>rkyv_ok\<close> name what their
  documentation promises and the lemmas rely on.
\<close>

section \<open>Nodes and digests\<close>

datatype digest = Digest (digest_bytes: bytes)

datatype node_kind =
  Blob | Tree | Layer | Manifest | ManifestList | Whiteout | OpaqueDir

record dag_node =
  kind :: node_kind
  edges :: "digest list"
  inline_data :: bytes

definition new_node :: "node_kind \<Rightarrow> digest list \<Rightarrow> bytes \<Rightarrow> dag_node" where
  "new_node k es data = \<lparr>kind = k, edges = es, inline_data = data\<rparr>"

definition blob_node :: "bytes \<Rightarrow> dag_node" where
  "blob_node data = \<lparr>kind = Blob, edges = [], inline_data = data\<rparr>"

definition tree_node :: "digest list \<Rightarrow> bytes \<Rightarrow> dag_node" where
  "tree_node es data = \<lparr>kind = Tree, edges = es, inline_data = data\<rparr>"

definition layer_node :: "digest list \<Rightarrow> bytes \<Rightarrow> dag_node" where
  "layer_node es data = \<lparr>kind = Layer, edges = es, inline_data = data\<rparr>"

definition manifest_node :: "digest list \<Rightarrow> bytes \<Rightarrow> dag_node" where
  "manifest_node es data = \<lparr>kind = Manifest, edges = es, inline_data = data\<rparr>"

definition manifest_list_node :: "digest list \<Rightarrow> bytes \<Rightarrow> dag_node" where
  "manifest_list_node es data = \<lparr>kind = ManifestList, edges = es, inline_data = data\<rparr>"

definition whiteout_node :: "bytes \<Rightarrow> dag_node" where
  "whiteout_node target_path = \<lparr>kind = Whiteout, edges = [], inline_data = target_path\<rparr>"

definition opaque_dir_node :: "bytes \<Rightarrow> dag_node" where
  "opaque_dir_node dir_path = \<lparr>kind = OpaqueDir, edges = [], inline_data = dir_path\<rparr>"

definition is_blob :: "dag_node \<Rightarrow> bool" where "is_blob n \<longleftrightarrow> kind n = Blob"
definition is_tree :: "dag_node \<Rightarrow> bool" where "is_tree n \<longleftrightarrow> kind n = Tree"
definition is_layer :: "dag_node \<Rightarrow> bool" where "is_layer n \<longleftrightarrow> kind n = Layer"
definition is_manifest :: "dag_node \<Rightarrow> bool" where "is_manifest n \<longleftrightarrow> kind n = Manifest"
definition is_manifest_list :: "dag_node \<Rightarrow> bool" where
  "is_manifest_list n \<longleftrightarrow> kind n = ManifestList"
definition is_whiteout :: "dag_node \<Rightarrow> bool" where "is_whiteout n \<longleftrightarrow> kind n = Whiteout"
definition is_opaque_dir :: "dag_node \<Rightarrow> bool" where "is_opaque_dir n \<longleftrightarrow> kind n = OpaqueDir"

text \<open>The type \<^verbatim>\<open>[u8; 32]\<close> of the source, as a predicate on byte lists.\<close>

definition wf_digest :: "digest \<Rightarrow> bool" where
  "wf_digest d \<longleftrightarrow> length (digest_bytes d) = 32"

definition wf_node :: "dag_node \<Rightarrow> bool" where
  "wf_node n \<longleftrightarrow> list_all wf_digest (edges n)"

section \<open>External crates\<close>

record ext =
  sha256 :: "bytes \<Rightarrow> bytes"
  sha512 :: "bytes \<Rightarrow> bytes"
  hex_encode :: "bytes \<Rightarrow> string"
  hex_decode :: "string \<Rightarrow> string + bytes"
  rkyv_to_bytes :: "dag_node \<Rightarrow> string + bytes"
  rkyv_check :: "bytes \<Rightarrow> string + dag_node"

definition lower_hex :: "char set" where
  "lower_hex = set ''0123456789abcdef''"

text \<open>\<^verbatim>\<open>hex\<close>: two lower-case hex digits per byte, and decoding inverts encoding.\<close>

definition hex_ok :: "ext \<Rightarrow> bool" where
  "hex_ok E \<longleftrightarrow> (\<forall>bs. hex_decode E (hex_encode E bs) = Inr bs
      \<and> length (hex_encode E bs) = 2 * length bs
      \<and> set (hex_encode E bs) \<subseteq> lower_hex)"

text \<open>\<^verbatim>\<open>sha2::Sha256\<close>: the output has 32 bytes.\<close>

definition sha_ok :: "ext \<Rightarrow> bool" where
  "sha_ok E \<longleftrightarrow> (\<forall>bs. length (sha256 E bs) = 32)"

text \<open>\<^verbatim>\<open>rkyv\<close>: a node serializes, and its archive validates to that node.\<close>

definition rkyv_ok :: "ext \<Rightarrow> bool" where
  "rkyv_ok E \<longleftrightarrow> (\<forall>n. wf_node n \<longrightarrow>
      (\<exists>bs. rkyv_to_bytes E n = Inr bs \<and> rkyv_check E bs = Inr n))"

section \<open>Digest operations\<close>

definition ZERO :: digest where
  "ZERO = Digest (replicate 32 0)"

datatype digest_error =
    InvalidHex string
  | BadLength nat
  | MissingAlgorithm string
  | UnsupportedAlgorithm string
  | Mismatch string string

definition from_hex :: "ext \<Rightarrow> string \<Rightarrow> digest_error + digest" where
  "from_hex E s0 =
    (let s = (case strip_prefix ''sha256:'' s0 of Some r \<Rightarrow> r | None \<Rightarrow> s0)
     in case hex_decode E s of
          Inl e \<Rightarrow> Inl (InvalidHex e)
        | Inr bs \<Rightarrow> if length bs \<noteq> 32 then Inl (BadLength (length bs)) else Inr (Digest bs))"

definition as_hex :: "ext \<Rightarrow> digest \<Rightarrow> string" where
  "as_hex E d = hex_encode E (digest_bytes d)"

definition compute :: "ext \<Rightarrow> bytes \<Rightarrow> digest" where
  "compute E data = Digest (sha256 E data)"

definition from_oci :: "ext \<Rightarrow> string \<Rightarrow> digest_error + digest" where
  "from_oci E s =
    (case split_once (CHR '':'') s of
       None \<Rightarrow> Inl (MissingAlgorithm s)
     | Some (algo, encoded) \<Rightarrow>
         if algo = ''sha256'' then from_hex E encoded else Inl (UnsupportedAlgorithm algo))"

definition verify_oci :: "ext \<Rightarrow> bytes \<Rightarrow> string \<Rightarrow> digest_error + unit" where
  "verify_oci E data claimed =
    (case split_once (CHR '':'') claimed of
       None \<Rightarrow> Inl (MissingAlgorithm claimed)
     | Some (algo, encoded) \<Rightarrow>
         if algo = ''sha256'' then
           (let computed = hex_encode E (sha256 E data)
            in if computed \<noteq> encoded then Inl (Mismatch computed encoded) else Inr ())
         else if algo = ''sha512'' then
           (let computed = hex_encode E (sha512 E data)
            in if computed \<noteq> encoded then Inl (Mismatch computed encoded) else Inr ())
         else Inr ())"

definition SMALL_FILE_THRESHOLD :: u64 where
  "SMALL_FILE_THRESHOLD = 4096"

section \<open>Facts\<close>

lemma hex_roundtrip: "hex_ok E \<Longrightarrow> hex_decode E (hex_encode E bs) = Inr bs"
  by (simp add: hex_ok_def)

lemma hex_length: "hex_ok E \<Longrightarrow> length (hex_encode E bs) = 2 * length bs"
  by (simp add: hex_ok_def)

lemma hex_alphabet: "hex_ok E \<Longrightarrow> set (hex_encode E bs) \<subseteq> lower_hex"
  by (simp add: hex_ok_def)

lemma as_hex_inject: "hex_ok E \<Longrightarrow> as_hex E d = as_hex E d' \<longleftrightarrow> d = d'"
  by (metis as_hex_def digest.expand hex_roundtrip sum.inject(2))

lemma hex_no_prefix: 
  assumes "hex_ok E"
  shows "strip_prefix ''sha256:'' (hex_encode E bs) = None"
proof -
  have "CHR ''s'' \<notin> set (hex_encode E bs)"
    using hex_alphabet [OF assms, of bs] by (auto simp: lower_hex_def)
  then show ?thesis by (auto simp: strip_prefix_None)
qed

lemma from_hex_as_hex [codec_simps]:
  "hex_ok E \<Longrightarrow> wf_digest d \<Longrightarrow> from_hex E (as_hex E d) = Inr d"
  by (simp add: from_hex_def as_hex_def hex_no_prefix hex_roundtrip wf_digest_def)

lemma from_hex_wf: "from_hex E s = Inr d \<Longrightarrow> wf_digest d"
  by (auto simp: from_hex_def wf_digest_def Let_def split: sum.splits if_splits option.splits)

lemma compute_wf: "sha_ok E \<Longrightarrow> wf_digest (compute E data)"
  by (simp add: compute_def sha_ok_def wf_digest_def)

lemma from_oci_as_hex [codec_simps]:
  assumes "hex_ok E" "wf_digest d"
  shows "from_oci E (''sha256:'' @ as_hex E d) = Inr d"
  using split_once_append [of "CHR '':''" "''sha256''" "as_hex E d"] assms
  by (simp add: from_oci_def from_hex_as_hex)

lemma from_oci_wf: "from_oci E s = Inr d \<Longrightarrow> wf_digest d"
  by (auto simp: from_oci_def dest: from_hex_wf split: option.splits prod.splits if_splits)

lemma verify_then_from_oci:
  assumes "hex_ok E" "verify_oci E data s = Inr ()" "from_oci E s = Inr d"
  shows "d = compute E data"
  using assms
  by (auto simp: verify_oci_def from_oci_def from_hex_def compute_def Let_def hex_no_prefix
      hex_roundtrip split: option.splits prod.splits if_splits)

end
