(* ===== verification/Lru_Cache.thy ===== *)
theory Lru_Cache
  imports Digest
begin

text \<open>
  The byte-bounded LRU cache of memory maps that \<^verbatim>\<open>MmapStore\<close> keeps twice,
  once for nodes and once for blobs (\<^verbatim>\<open>pullrun-store/src/store.rs\<close>): a table of
  entries (\<^verbatim>\<open>DashMap\<close>), a recency queue (\<^verbatim>\<open>VecDeque\<close>, oldest first) and
  a running byte total (\<^verbatim>\<open>AtomicU64\<close>, so its arithmetic wraps).  The invariant
  says that the three agree; every operation keeps it, and eviction brings the
  total within the bound.
\<close>

record mmap_cache =
  entries :: "(digest \<times> bytes) list"
  lru :: "digest list"
  total :: u64
  max_bytes :: "u64 option"

definition empty_cache :: "u64 option \<Rightarrow> mmap_cache" where
  "empty_cache m = \<lparr>entries = [], lru = [], total = 0, max_bytes = m\<rparr>"

text \<open>The eviction loop: pop the front of the queue while the total exceeds the bound.\<close>

fun evict_loop :: "u64 \<Rightarrow> digest list \<Rightarrow> (digest \<times> bytes) list \<Rightarrow> u64 \<Rightarrow>
    digest list \<times> (digest \<times> bytes) list \<times> u64" where
  "evict_loop m [] es t = ([], es, t)"
| "evict_loop m (oldest # q) es t =
    (if t > m then
       (case map_of es oldest of
          Some evicted \<Rightarrow>
            evict_loop m q (AList.delete oldest es) (t - word_of_nat (length evicted))
        | None \<Rightarrow> evict_loop m q es t)
     else (oldest # q, es, t))"

definition evict_lru :: "mmap_cache \<Rightarrow> mmap_cache" where
  "evict_lru c =
    (case max_bytes c of
       Some m \<Rightarrow>
         if m > 0 then
           (case evict_loop m (lru c) (entries c) (total c) of
              (q, es, t) \<Rightarrow> c\<lparr>lru := q, entries := es, total := t\<rparr>)
         else c
     | None \<Rightarrow> c)"

text \<open>A hit moves the entry to the back of the queue and then evicts.\<close>

definition cache_touch :: "digest \<Rightarrow> mmap_cache \<Rightarrow> mmap_cache" where
  "cache_touch d c = evict_lru (c\<lparr>lru := remove1 d (lru c) @ [d]\<rparr>)"

text \<open>A miss evicts first and then adds the freshly mapped file.\<close>

definition cache_load :: "digest \<Rightarrow> bytes \<Rightarrow> mmap_cache \<Rightarrow> mmap_cache" where
  "cache_load d b c =
    (let c1 = evict_lru c;
         c2 = c1\<lparr>lru := lru c1 @ [d]\<rparr>;
         c3 = c2\<lparr>total := total c2 + word_of_nat (length b)\<rparr>
     in c3\<lparr>entries := AList.update d b (entries c3)\<rparr>)"

definition cache_remove :: "digest \<Rightarrow> mmap_cache \<Rightarrow> mmap_cache" where
  "cache_remove d c =
    (case map_of (entries c) d of
       Some evicted \<Rightarrow>
         c\<lparr>entries := AList.delete d (entries c),
           total := total c - word_of_nat (length evicted),
           lru := filter (\<lambda>x. x \<noteq> d) (lru c)\<rparr>
     | None \<Rightarrow> c)"

section \<open>Invariant\<close>

definition cache_parts :: "digest list \<Rightarrow> (digest \<times> bytes) list \<Rightarrow> u64 \<Rightarrow> bool" where
  "cache_parts q es t \<longleftrightarrow>
     distinct (map fst es) \<and> distinct q \<and> set q = fst ` set es
     \<and> t = word_of_nat (bytes_sum es)"

definition cache_inv :: "mmap_cache \<Rightarrow> bool" where
  "cache_inv c \<longleftrightarrow> cache_parts (lru c) (entries c) (total c)"

lemma empty_cache_inv [inv_intros]: "cache_inv (empty_cache m)"
  by (simp add: cache_inv_def cache_parts_def empty_cache_def)

lemma word_of_nat_bytes_sum_delete:
  assumes "distinct (map fst es)" "map_of es d = Some b"
  shows "(word_of_nat (bytes_sum es) :: u64) - word_of_nat (length b)
         = word_of_nat (bytes_sum (AList.delete d es))"
  using bytes_sum_delete [OF assms] by simp

lemma cache_parts_hit:
  assumes "cache_parts (oldest # q) es t"
  obtains b where "map_of es oldest = Some b"
proof -
  have "oldest \<in> fst ` set es" using assms by (auto simp: cache_parts_def)
  then show ?thesis using that by (metis map_of_some_key not_None_eq)
qed

lemma cache_parts_pop:
  assumes "cache_parts (oldest # q) es t" and b: "map_of es oldest = Some b"
  shows "cache_parts q (AList.delete oldest es) (t - word_of_nat (length b))"
  using assms(1) word_of_nat_bytes_sum_delete [OF _ b]
  by (simp add: cache_parts_def) blast

lemma evict_loop_step:
  "t > m \<Longrightarrow> map_of es oldest = Some b \<Longrightarrow>
     evict_loop m (oldest # q) es t =
       evict_loop m q (AList.delete oldest es) (t - word_of_nat (length b))"
  "\<not> t > m \<Longrightarrow> evict_loop m (oldest # q) es t = (oldest # q, es, t)"
  by simp_all

lemma evict_loop_parts:
  "cache_parts q es t \<Longrightarrow> evict_loop m q es t = (q', es', t') \<Longrightarrow>
     cache_parts q' es' t' \<and> t' \<le> m"
proof (induction q arbitrary: es t)
  case Nil
  then show ?case by (auto simp: cache_parts_def)
next
  case (Cons oldest q)
  obtain b where b: "map_of es oldest = Some b" using Cons.prems(1) by (rule cache_parts_hit)
  show ?case
  proof (cases "t > m")
    case True
    with Cons.prems(2) b
    have "evict_loop m q (AList.delete oldest es) (t - word_of_nat (length b)) = (q', es', t')"
      by (simp only: evict_loop_step)
    then show ?thesis by (rule Cons.IH [OF cache_parts_pop [OF Cons.prems(1) b]])
  next
    case False
    with Cons.prems show ?thesis by (simp add: evict_loop_step(2) [OF False] del: evict_loop.simps)
  qed
qed

lemma map_le_drop: "m(k := None) \<subseteq>\<^sub>m m"
  by (simp add: map_le_def)

lemma evict_loop_sub:
  "evict_loop m q es t = (q', es', t') \<Longrightarrow> map_of es' \<subseteq>\<^sub>m map_of es"
proof (induction q arbitrary: es t)
  case (Cons oldest q)
  show ?case
  proof (cases "t > m \<and> map_of es oldest \<noteq> None")
    case True
    then obtain b where "map_of es oldest = Some b" by auto
    with True Cons.prems have "map_of es' \<subseteq>\<^sub>m map_of (AList.delete oldest es)"
      by (auto simp only: evict_loop_step intro: Cons.IH)
    moreover have "map_of (AList.delete oldest es) \<subseteq>\<^sub>m map_of es"
      by (simp only: lookup_delete map_le_drop)
    ultimately show ?thesis by (rule map_le_trans)
  next
    case False
    then show ?thesis using Cons.prems Cons.IH by (auto split: if_splits)
  qed
qed auto

lemma evict_lru_inv [inv_intros]: "cache_inv c \<Longrightarrow> cache_inv (evict_lru c)"
  by (auto simp: evict_lru_def cache_inv_def dest: evict_loop_parts split: option.splits prod.splits)

lemma evict_lru_max [simp]: "max_bytes (evict_lru c) = max_bytes c"
  by (simp add: evict_lru_def split: option.splits prod.splits)

lemma evict_lru_sub: "map_of (entries (evict_lru c)) \<subseteq>\<^sub>m map_of (entries c)"
  by (auto simp: evict_lru_def dest: evict_loop_sub split: option.splits prod.splits)

lemma evict_lru_bound:
  "cache_inv c \<Longrightarrow> max_bytes c = Some m \<Longrightarrow> 0 < m \<Longrightarrow> total (evict_lru c) \<le> m"
  by (auto simp: evict_lru_def cache_inv_def dest: evict_loop_parts split: prod.splits)

lemma evict_lru_idle:
  "max_bytes c = Some m \<Longrightarrow> total c \<le> m \<Longrightarrow> evict_lru c = c"
  by (cases "lru c") (auto simp: evict_lru_def split: prod.splits)

lemma cache_touch_inv [inv_intros]:
  assumes "cache_inv c" "map_of (entries c) d \<noteq> None"
  shows "cache_inv (cache_touch d c)"
proof -
  have "d \<in> fst ` set (entries c)" using assms(2) by (metis map_of_some_key)
  then have "cache_inv (c\<lparr>lru := remove1 d (lru c) @ [d]\<rparr>)"
    using assms(1) by (auto simp: cache_inv_def cache_parts_def)
  then show ?thesis unfolding cache_touch_def by (rule evict_lru_inv)
qed

lemma cache_touch_sub: "map_of (entries (cache_touch d c)) \<subseteq>\<^sub>m map_of (entries c)"
  using evict_lru_sub [of "c\<lparr>lru := remove1 d (lru c) @ [d]\<rparr>"] by (simp add: cache_touch_def)

lemma cache_touch_max [simp]: "max_bytes (cache_touch d c) = max_bytes c"
  by (simp add: cache_touch_def)

lemma cache_load_max [simp]: "max_bytes (cache_load d b c) = max_bytes c"
  by (simp add: cache_load_def Let_def)

lemma cache_load_inv [inv_intros]:
  assumes "cache_inv c" "map_of (entries c) d = None"
  shows "cache_inv (cache_load d b c)"
proof -
  let ?c = "evict_lru c"
  have inv: "cache_inv ?c" using assms(1) by (rule evict_lru_inv)
  have fresh: "map_of (entries ?c) d = None"
    using evict_lru_sub [of c] assms(2) by (metis domIff map_le_implies_dom_le subsetD)
  then have "d \<notin> fst ` set (entries ?c)" by (simp add: map_of_eq_None_iff)
  with inv show ?thesis
    by (auto simp: cache_load_def Let_def cache_inv_def cache_parts_def update_fresh [OF fresh])
qed

lemma cache_load_lookup:
  "map_of (entries (cache_load d b c)) = (map_of (entries (evict_lru c)))(d \<mapsto> b)"
  by (simp add: cache_load_def Let_def)

lemma cache_load_total:
  "total (cache_load d b c) = total (evict_lru c) + word_of_nat (length b)"
  by (simp add: cache_load_def Let_def)

lemma cache_load_newest: "last (lru (cache_load d b c)) = d"
  by (simp add: cache_load_def Let_def)

lemma cache_remove_inv [inv_intros]: "cache_inv c \<Longrightarrow> cache_inv (cache_remove d c)"
  by (auto simp: cache_remove_def cache_inv_def cache_parts_def word_of_nat_bytes_sum_delete
      split: option.splits)

lemma cache_remove_lookup [simp]:
  "map_of (entries (cache_remove d c)) = (map_of (entries c))(d := None)"
  by (auto simp: cache_remove_def split: option.splits)

lemma cache_remove_max [simp]: "max_bytes (cache_remove d c) = max_bytes c"
  by (simp add: cache_remove_def split: option.splits)

text \<open>The total is exactly the cached bytes as long as they fit in 64 bits.\<close>

lemma cache_total_exact:
  assumes "cache_inv c" "bytes_sum (entries c) < 2 ^ 64"
  shows "unat (total c) = bytes_sum (entries c)"
  using assms by (simp add: cache_inv_def cache_parts_def unat_of_nat)

end
