(* ===== verification/Dag_Store.thy ===== *)
theory Dag_Store
  imports Lru_Cache
begin

text \<open>
  The content-addressed store \<^verbatim>\<open>MmapStore\<close> of
  \<^verbatim>\<open>pullrun-store/src/store.rs\<close>: node, blob and reference-count files
  keyed by digest (their paths are \<open>path_for\<close>, \<open>path_for_blob\<close> and
  \<open>refcount_path\<close>, which never collide), two LRU caches of mapped files, and
  the operations that read and write them.  Every operation returns its result
  and the store it leaves.  Operating-system failures of the file calls are not
  modelled; a reference-count file that is too short is.  Shard directories are
  implicit.
\<close>

datatype store_error =
    NotFound digest
  | Corrupted digest string
  | Io string
  | Serialization string
  | ArchiveValidation string
  | DigestMismatch digest digest

record mmap_store =
  root :: "string list"
  node_files :: "(digest \<times> bytes) list"
  blob_files :: "(digest \<times> bytes) list"
  refcount_files :: "(digest \<times> bytes) list"
  cache :: mmap_cache
  blob_cache :: mmap_cache

type_synonym 'a store_result = "(store_error + 'a) \<times> mmap_store"

definition DEFAULT_MAX_NODE_CACHE_BYTES :: u64 where
  "DEFAULT_MAX_NODE_CACHE_BYTES = 256 * 1024 * 1024"

definition DEFAULT_MAX_BLOB_CACHE_BYTES :: u64 where
  "DEFAULT_MAX_BLOB_CACHE_BYTES = 256 * 1024 * 1024"

definition new_store :: "string list \<Rightarrow> mmap_store" where
  "new_store r =
    \<lparr>root = r, node_files = [], blob_files = [], refcount_files = [],
     cache = empty_cache (Some DEFAULT_MAX_NODE_CACHE_BYTES),
     blob_cache = empty_cache (Some DEFAULT_MAX_BLOB_CACHE_BYTES)\<rparr>"

definition new_unbounded :: "string list \<Rightarrow> mmap_store" where
  "new_unbounded r =
    \<lparr>root = r, node_files = [], blob_files = [], refcount_files = [],
     cache = empty_cache None, blob_cache = empty_cache None\<rparr>"

definition set_max_node_cache_bytes :: "u64 \<Rightarrow> mmap_store \<Rightarrow> mmap_store" where
  "set_max_node_cache_bytes m s = s\<lparr>cache := (cache s)\<lparr>max_bytes := Some m\<rparr>\<rparr>"

definition set_max_blob_cache_bytes :: "u64 \<Rightarrow> mmap_store \<Rightarrow> mmap_store" where
  "set_max_blob_cache_bytes m s = s\<lparr>blob_cache := (blob_cache s)\<lparr>max_bytes := Some m\<rparr>\<rparr>"

section \<open>Paths\<close>

definition shard :: "ext \<Rightarrow> digest \<Rightarrow> string list" where
  "shard E d = (let hex = as_hex E d in [take 2 hex, take 2 (drop 2 hex), drop 4 hex])"

definition path_for :: "ext \<Rightarrow> mmap_store \<Rightarrow> digest \<Rightarrow> string list" where
  "path_for E s d = root s @ shard E d @ [''node.rkyv'']"

definition path_for_blob :: "ext \<Rightarrow> mmap_store \<Rightarrow> digest \<Rightarrow> string list" where
  "path_for_blob E s d = root s @ shard E d @ [''blob.raw'']"

definition refcount_path :: "ext \<Rightarrow> mmap_store \<Rightarrow> digest \<Rightarrow> string list" where
  "refcount_path E s d = root s @ shard E d @ [''node.refcount'']"

definition node_exists :: "mmap_store \<Rightarrow> digest \<Rightarrow> bool" where
  "node_exists s d \<longleftrightarrow> map_of (node_files s) d \<noteq> None"

definition blob_exists :: "mmap_store \<Rightarrow> digest \<Rightarrow> bool" where
  "blob_exists s d \<longleftrightarrow> map_of (blob_files s) d \<noteq> None"

definition file_len :: "(digest \<times> bytes) list \<Rightarrow> digest \<Rightarrow> u64" where
  "file_len fs d = (case map_of fs d of Some b \<Rightarrow> word_of_nat (length b) | None \<Rightarrow> 0)"

section \<open>Reading nodes and blobs through the caches\<close>

definition evict_lru_locked :: "mmap_store \<Rightarrow> mmap_store" where
  "evict_lru_locked s = s\<lparr>cache := evict_lru (cache s)\<rparr>"

definition evict_blob_lru_locked :: "mmap_store \<Rightarrow> mmap_store" where
  "evict_blob_lru_locked s = s\<lparr>blob_cache := evict_lru (blob_cache s)\<rparr>"

definition load_node_from_disk :: "mmap_store \<Rightarrow> digest \<Rightarrow> bytes store_result" where
  "load_node_from_disk s d =
    (case map_of (node_files s) d of
       None \<Rightarrow> (Inl (NotFound d), s)
     | Some mmap \<Rightarrow> (Inr mmap, s\<lparr>cache := cache_load d mmap (cache s)\<rparr>))"

definition load_blob_from_disk :: "mmap_store \<Rightarrow> digest \<Rightarrow> bytes store_result" where
  "load_blob_from_disk s d =
    (case map_of (blob_files s) d of
       None \<Rightarrow> (Inl (NotFound d), s)
     | Some mmap \<Rightarrow> (Inr mmap, s\<lparr>blob_cache := cache_load d mmap (blob_cache s)\<rparr>))"

definition get :: "mmap_store \<Rightarrow> digest \<Rightarrow> bytes store_result" where
  "get s d =
    (case map_of (entries (cache s)) d of
       Some entry \<Rightarrow> (Inr entry, s\<lparr>cache := cache_touch d (cache s)\<rparr>)
     | None \<Rightarrow> load_node_from_disk s d)"

definition get_blob :: "mmap_store \<Rightarrow> digest \<Rightarrow> bytes store_result" where
  "get_blob s d =
    (case map_of (entries (blob_cache s)) d of
       Some entry \<Rightarrow> (Inr entry, s\<lparr>blob_cache := cache_touch d (blob_cache s)\<rparr>)
     | None \<Rightarrow> load_blob_from_disk s d)"

text \<open>The asynchronous readers take a cached map without touching the recency queue.\<close>

definition get_async :: "mmap_store \<Rightarrow> digest \<Rightarrow> bytes store_result" where
  "get_async s d =
    (case map_of (entries (cache s)) d of
       Some mmap \<Rightarrow> (Inr mmap, s)
     | None \<Rightarrow> load_node_from_disk s d)"

definition get_blob_async :: "mmap_store \<Rightarrow> digest \<Rightarrow> bytes store_result" where
  "get_blob_async s d =
    (case map_of (entries (blob_cache s)) d of
       Some blob \<Rightarrow> (Inr blob, s)
     | None \<Rightarrow> load_blob_from_disk s d)"

definition guard_new :: "ext \<Rightarrow> digest \<Rightarrow> bytes \<Rightarrow> store_error + dag_node" where
  "guard_new E d mmap =
    (case rkyv_check E mmap of Inl e \<Rightarrow> Inl (Corrupted d e) | Inr n \<Rightarrow> Inr n)"

definition get_archived :: "ext \<Rightarrow> mmap_store \<Rightarrow> digest \<Rightarrow> dag_node store_result" where
  "get_archived E s d =
    (case get s d of
       (Inl e, s') \<Rightarrow> (Inl e, s')
     | (Inr mmap, s') \<Rightarrow> (guard_new E d mmap, s'))"

definition get_archived_async :: "ext \<Rightarrow> mmap_store \<Rightarrow> digest \<Rightarrow> dag_node store_result" where
  "get_archived_async E s d =
    (case get_async s d of
       (Inl e, s') \<Rightarrow> (Inl e, s')
     | (Inr mmap, s') \<Rightarrow> (guard_new E d mmap, s'))"

definition get_deserialized :: "ext \<Rightarrow> mmap_store \<Rightarrow> digest \<Rightarrow> dag_node store_result" where
  "get_deserialized E s d =
    (case get s d of
       (Inl e, s') \<Rightarrow> (Inl e, s')
     | (Inr mmap, s') \<Rightarrow>
         (case rkyv_check E mmap of
            Inl e \<Rightarrow> (Inl (Corrupted d e), s')
          | Inr n \<Rightarrow> (Inr n, s')))"

definition exists_node :: "mmap_store \<Rightarrow> digest \<Rightarrow> bool" where
  "exists_node s d \<longleftrightarrow> map_of (entries (cache s)) d \<noteq> None \<or> node_exists s d"

definition total_bytes :: "mmap_store \<Rightarrow> u64" where
  "total_bytes s = total (cache s) + total (blob_cache s)"

definition evict_cache_entry :: "mmap_store \<Rightarrow> digest \<Rightarrow> mmap_store" where
  "evict_cache_entry s d = s\<lparr>cache := cache_remove d (cache s)\<rparr>"

section \<open>Reference counts\<close>

definition get_refcount :: "mmap_store \<Rightarrow> digest \<Rightarrow> store_error + u64" where
  "get_refcount s d =
    (case map_of (refcount_files s) d of
       None \<Rightarrow> Inr 0
     | Some buf \<Rightarrow>
         if length buf < 8 then Inl (Io ''failed to fill whole buffer'')
         else Inr (u64_from_le_bytes (take 8 buf)))"

definition set_refcount :: "mmap_store \<Rightarrow> digest \<Rightarrow> u64 \<Rightarrow> mmap_store" where
  "set_refcount s d count =
    (if count = 0 then s\<lparr>refcount_files := AList.delete d (refcount_files s)\<rparr>
     else s\<lparr>refcount_files := AList.update d (u64_to_le_bytes count) (refcount_files s)\<rparr>)"

definition increment_refcount :: "mmap_store \<Rightarrow> digest \<Rightarrow> u64 store_result" where
  "increment_refcount s d =
    (case get_refcount s d of
       Inl e \<Rightarrow> (Inl e, s)
     | Inr c \<Rightarrow> (let n = c + 1 in (Inr n, set_refcount s d n)))"

definition decrement_refcount :: "mmap_store \<Rightarrow> digest \<Rightarrow> u64 store_result" where
  "decrement_refcount s d =
    (case get_refcount s d of
       Inl e \<Rightarrow> (Inl e, s)
     | Inr count \<Rightarrow>
         (let new = (if count = 0 then 0 else count - 1) in (Inr new, set_refcount s d new)))"

section \<open>Writing nodes and blobs\<close>

text \<open>A failed increment of a child's count is only logged.\<close>

definition increment_edges :: "mmap_store \<Rightarrow> digest list \<Rightarrow> mmap_store" where
  "increment_edges s es = fold (\<lambda>e s. snd (increment_refcount s e)) es s"

definition put :: "ext \<Rightarrow> mmap_store \<Rightarrow> dag_node \<Rightarrow> digest store_result" where
  "put E s node =
    (case rkyv_to_bytes E node of
       Inl e \<Rightarrow> (Inl (Serialization e), s)
     | Inr bytes \<Rightarrow>
         (let digest = compute E bytes in
          if node_exists s digest then (Inr digest, s)
          else
            (let s1 = s\<lparr>node_files := AList.update digest bytes (node_files s)\<rparr>
             in (Inr digest, increment_edges s1 (edges node)))))"

definition put_blocking :: "ext \<Rightarrow> mmap_store \<Rightarrow> dag_node \<Rightarrow> digest store_result" where
  "put_blocking E s node =
    (case rkyv_to_bytes E node of
       Inl e \<Rightarrow> (Inl (Serialization e), s)
     | Inr bytes \<Rightarrow>
         (let digest = compute E bytes in
          if node_exists s digest then (Inr digest, s)
          else
            (let s1 = s\<lparr>node_files := AList.update digest bytes (node_files s)\<rparr>
             in (Inr digest, increment_edges s1 (edges node)))))"

definition put_blob :: "mmap_store \<Rightarrow> digest \<Rightarrow> bytes \<Rightarrow> unit store_result" where
  "put_blob s d data =
    (if blob_exists s d then (Inr (), s)
     else (Inr (), s\<lparr>blob_files := AList.update d data (blob_files s)\<rparr>))"

definition put_blob_blocking :: "mmap_store \<Rightarrow> digest \<Rightarrow> bytes \<Rightarrow> unit store_result" where
  "put_blob_blocking s d data =
    (if blob_exists s d then (Inr (), s)
     else (Inr (), s\<lparr>blob_files := AList.update d data (blob_files s)\<rparr>))"

section \<open>Facts the walks need to terminate\<close>

definition store_keys :: "mmap_store \<Rightarrow> digest set" where
  "store_keys s = fst ` set (node_files s) \<union> fst ` set (entries (cache s))"

lemma finite_store_keys [simp]: "finite (store_keys s)"
  by (simp add: store_keys_def)

lemma map_le_keys: "map_of xs \<subseteq>\<^sub>m map_of ys \<Longrightarrow> fst ` set xs \<subseteq> fst ` set ys"
  by (metis dom_map_of_conv_image_fst map_le_implies_dom_le)

lemma get_files [simp]:
  "node_files (snd (get s d)) = node_files s"
  "blob_files (snd (get s d)) = blob_files s"
  "refcount_files (snd (get s d)) = refcount_files s"
  "blob_cache (snd (get s d)) = blob_cache s"
  "root (snd (get s d)) = root s"
  by (simp_all add: get_def load_node_from_disk_def split: option.splits)

lemma map_of_key: "map_of xs k = Some v \<Longrightarrow> k \<in> fst ` set xs"
  by (force dest: map_of_SomeD)

lemma cache_load_keys:
  "fst ` set (entries (cache_load d b c)) \<subseteq> insert d (fst ` set (entries c))"
  using map_le_keys [OF evict_lru_sub [of c]]
  by (simp add: cache_load_def Let_def AList.dom_update) blast

lemma get_cache_sub:
  "fst ` set (entries (cache (snd (get s d)))) \<subseteq> store_keys s"
proof (cases "map_of (entries (cache s)) d")
  case None
  show ?thesis
  proof (cases "map_of (node_files s) d")
    case (Some b)
    then show ?thesis using None cache_load_keys [of d b "cache s"] map_of_key [OF Some]
      by (simp add: get_def load_node_from_disk_def store_keys_def) blast
  qed (use None in \<open>simp add: get_def load_node_from_disk_def store_keys_def\<close>)
next
  case (Some b)
  then show ?thesis using map_le_keys [OF cache_touch_sub [of d "cache s"]]
    by (simp add: get_def store_keys_def) blast
qed

lemma get_keys: "store_keys (snd (get s d)) \<subseteq> store_keys s"
  using get_cache_sub [of s d] by (auto simp: store_keys_def)

lemma get_Inr_key: "fst (get s d) = Inr b \<Longrightarrow> d \<in> store_keys s"
  by (auto simp: get_def load_node_from_disk_def store_keys_def split: option.splits
      dest: map_of_key)

lemma get_archived_state: "snd (get_archived E s d) = snd (get s d)"
  by (simp add: get_archived_def split: prod.splits sum.splits)

lemma get_archived_Inr_key: "get_archived E s d = (Inr n, s') \<Longrightarrow> d \<in> store_keys s"
  using get_Inr_key [of s d] by (auto simp: get_archived_def split: prod.splits sum.splits)

lemma get_archived_keys: "get_archived E s d = (r, s') \<Longrightarrow> store_keys s' \<subseteq> store_keys s"
  using get_keys [of s d] get_archived_state [of E s d] by simp

definition walk_measure :: "(nat \<times> nat) rel" where
  "walk_measure = less_than <*lex*> less_than"

lemma wf_walk_measure [simp]: "wf walk_measure"
  by (simp add: walk_measure_def wf_lex_prod)

lemma walk_dequeue:
  assumes "K' \<subseteq> K" "finite K" "(n'::nat) < n" "V \<subseteq> V'"
  shows "((card (K' - V'), n'), (card (K - V), n)) \<in> walk_measure"
proof -
  have "K' - V' \<subseteq> K - V" using assms by blast
  then have "card (K' - V') \<le> card (K - V)" using assms(2) by (intro card_mono) auto
  then show ?thesis using assms(3) by (auto simp: walk_measure_def)
qed

lemma walk_visit:
  assumes "K' \<subseteq> K" "finite K" "d \<in> K" "d \<notin> V"
  shows "((card (K' - insert d V), n'), (card (K - V), n)) \<in> walk_measure"
proof -
  have "K' - insert d V \<subset> K - V" using assms by blast
  then have "card (K' - insert d V) < card (K - V)" using assms(2) by (intro psubset_card_mono) auto
  then show ?thesis by (auto simp: walk_measure_def)
qed

lemma walk_skip: "((c, length q), (c, Suc (length q))) \<in> walk_measure"
  by (simp add: walk_measure_def)

lemma walk_absent:
  "((card (store_keys s - insert d V), length q), (card (store_keys s - V), Suc (length q)))
     \<in> walk_measure"
  using walk_dequeue [of "store_keys s" "store_keys s" "length q" "Suc (length q)" V "insert d V"] by auto

lemma walk_fail:
  "(Inl e, s') = get_archived E s d \<Longrightarrow>
     ((card (store_keys s' - insert d V), length q), (card (store_keys s - V), Suc (length q)))
       \<in> walk_measure"
  using walk_dequeue [of "store_keys s'" "store_keys s" "length q" "Suc (length q)" V "insert d V"]
    get_archived_keys [of E s d "Inl e" s'] by auto

lemma walk_expand:
  "(Inr n, s') = get_archived E s d \<Longrightarrow> d \<notin> V \<Longrightarrow>
     ((card (store_keys s' - insert d V), k'), (card (store_keys s - V), k)) \<in> walk_measure"
  using get_archived_keys [of E s d "Inr n" s'] get_archived_Inr_key [of E s d n s']
  by (intro walk_visit) auto

lemmas walk_terminates = walk_skip walk_absent walk_fail walk_expand

section \<open>Walks over the DAG\<close>

function compute_image_size_loop ::
  "ext \<Rightarrow> mmap_store \<Rightarrow> digest set \<Rightarrow> digest list \<Rightarrow> u64 \<Rightarrow> u64 \<times> mmap_store" where
  "compute_image_size_loop E s visited [] tot = (tot, s)"
| "compute_image_size_loop E s visited (d # queue) tot =
    (if d \<in> visited then compute_image_size_loop E s visited queue tot
     else
       (let tot1 = tot + file_len (node_files s) d + file_len (blob_files s) d
        in case get_archived E s d of
             (Inr archived, s') \<Rightarrow>
               compute_image_size_loop E s' (insert d visited) (queue @ edges archived) tot1
           | (Inl _, s') \<Rightarrow> compute_image_size_loop E s' (insert d visited) queue tot1))"
  by pat_completeness auto

termination
proof (relation "inv_image walk_measure
    (\<lambda>(E, s, visited, queue, tot). (card (store_keys s - visited), length queue))")
qed (auto intro: walk_terminates)

definition compute_image_size :: "ext \<Rightarrow> mmap_store \<Rightarrow> digest \<Rightarrow> u64 \<times> mmap_store" where
  "compute_image_size E s r = compute_image_size_loop E s {} [r] 0"

definition count_of :: "(digest \<times> u64) list \<Rightarrow> digest \<Rightarrow> u64" where
  "count_of counts d = (case map_of counts d of Some n \<Rightarrow> n | None \<Rightarrow> 0)"

definition bump :: "digest \<Rightarrow> (digest \<times> u64) list \<Rightarrow> (digest \<times> u64) list" where
  "bump d counts = AList.update d (count_of counts d + 1) counts"

function recompute_loop ::
  "ext \<Rightarrow> mmap_store \<Rightarrow> (digest \<times> u64) list \<Rightarrow> digest set \<Rightarrow> digest list \<Rightarrow>
     (digest \<times> u64) list store_result" where
  "recompute_loop E s counts visited [] = (Inr counts, s)"
| "recompute_loop E s counts visited (node # queue) =
    (if node \<in> visited then recompute_loop E s counts visited queue
     else if \<not> node_exists s node then recompute_loop E s counts (insert node visited) queue
     else case get_archived E s node of
         (Inr archived, s') \<Rightarrow>
           (let children = filter (node_exists s') (edges archived)
            in recompute_loop E s' (fold bump children counts) (insert node visited)
                 (queue @ children))
       | (Inl (NotFound _), s') \<Rightarrow> recompute_loop E s' counts (insert node visited) queue
       | (Inl e, s') \<Rightarrow> (Inl e, s'))"
  by pat_completeness auto

termination
proof (relation "inv_image walk_measure
    (\<lambda>(E, s, counts, visited, queue). (card (store_keys s - visited), length queue))")
qed (auto intro: walk_terminates)

definition recompute_all_refcounts :: "ext \<Rightarrow> mmap_store \<Rightarrow> digest list \<Rightarrow> unit store_result" where
  "recompute_all_refcounts E s roots =
    (case recompute_loop E s (fold bump roots []) {} roots of
       (Inl e, s') \<Rightarrow> (Inl e, s')
     | (Inr counts, s') \<Rightarrow> (Inr (), fold (\<lambda>(d, n) s. set_refcount s d n) counts s'))"

definition bfs_abort :: string where
  "bfs_abort = ''corrupted node during BFS walk - aborting to prevent subtree deletion''"

function walk_loop ::
  "ext \<Rightarrow> mmap_store \<Rightarrow> digest set \<Rightarrow> digest list \<Rightarrow> digest list \<Rightarrow> digest list \<Rightarrow>
     (digest list \<times> digest list) store_result" where
  "walk_loop E s visited [] nodes blobs = (Inr (nodes, blobs), s)"
| "walk_loop E s visited (d # queue) nodes blobs =
    (if d \<in> visited then walk_loop E s visited queue nodes blobs
     else if \<not> exists_node s d then walk_loop E s (insert d visited) queue nodes blobs
     else
       (let nodes' = nodes @ [d];
            blobs' = (if blob_exists s d then blobs @ [d] else blobs)
        in case get_archived E s d of
             (Inr archived, s') \<Rightarrow>
               walk_loop E s' (insert d visited) (queue @ edges archived) nodes' blobs'
           | (Inl (NotFound _), s') \<Rightarrow> walk_loop E s' (insert d visited) queue nodes' blobs'
           | (Inl (Corrupted c _), s') \<Rightarrow> (Inl (Corrupted c bfs_abort), s')
           | (Inl e, s') \<Rightarrow> (Inl e, s')))"
  by pat_completeness auto

termination
proof (relation "inv_image walk_measure
    (\<lambda>(E, s, visited, queue, nodes, blobs). (card (store_keys s - visited), length queue))")
qed (auto intro: walk_terminates)

definition walk_reachable ::
  "ext \<Rightarrow> mmap_store \<Rightarrow> digest list \<Rightarrow> (digest list \<times> digest list) store_result" where
  "walk_reachable E s roots = walk_loop E s {} roots [] []"

section \<open>Removing a tag\<close>

fun decrement_children ::
  "mmap_store \<Rightarrow> digest list \<Rightarrow> digest list \<Rightarrow> digest list store_result" where
  "decrement_children s [] queue = (Inr queue, s)"
| "decrement_children s (child # cs) queue =
    (case decrement_refcount s child of
       (Inl e, s') \<Rightarrow> (Inl e, s')
     | (Inr n, s') \<Rightarrow> decrement_children s' cs (if n = 0 then queue @ [child] else queue))"

text \<open>Deleting one node: its cache entry, node file, blob file and count file.\<close>

definition delete_node :: "mmap_store \<Rightarrow> digest \<Rightarrow> mmap_store" where
  "delete_node s d =
    (let s1 = evict_cache_entry s d;
         s2 = s1\<lparr>node_files := AList.delete d (node_files s1)\<rparr>;
         s3 = s2\<lparr>blob_files := AList.delete d (blob_files s2)\<rparr>
     in s3\<lparr>refcount_files := AList.delete d (refcount_files s3)\<rparr>)"

lemma decrement_refcount_files [simp]:
  "node_files (snd (decrement_refcount s d)) = node_files s"
  "blob_files (snd (decrement_refcount s d)) = blob_files s"
  "cache (snd (decrement_refcount s d)) = cache s"
  "blob_cache (snd (decrement_refcount s d)) = blob_cache s"
  "root (snd (decrement_refcount s d)) = root s"
  by (simp_all add: decrement_refcount_def set_refcount_def Let_def split: sum.splits)

lemma decrement_children_files:
  "decrement_children s cs q = (r, s') \<Longrightarrow>
     node_files s' = node_files s \<and> blob_files s' = blob_files s \<and> cache s' = cache s
     \<and> blob_cache s' = blob_cache s \<and> root s' = root s"
proof (induction s cs q rule: decrement_children.induct)
  case (2 s child cs queue)
  obtain r1 s1 where r1: "decrement_refcount s child = (r1, s1)" by fastforce
  then have "node_files s1 = node_files s \<and> blob_files s1 = blob_files s \<and> cache s1 = cache s
     \<and> blob_cache s1 = blob_cache s \<and> root s1 = root s"
    using decrement_refcount_files [of s child] by simp
  then show ?case using 2 r1 by (cases r1) auto
qed auto

lemma delete_node_shrinks:
  "node_exists s d \<Longrightarrow> length (node_files (delete_node s d)) < length (node_files s)"
  by (simp add: delete_node_def evict_cache_entry_def Let_def node_exists_def length_delete_less
      del: not_None_eq)

lemma get_archived_files:
  "get_archived E s d = (r, s') \<Longrightarrow>
     node_files s' = node_files s \<and> blob_files s' = blob_files s
     \<and> refcount_files s' = refcount_files s \<and> root s' = root s \<and> blob_cache s' = blob_cache s"
  using get_archived_state [of E s d] get_files [of s d] by simp

lemma delete_node_measure:
  assumes "node_exists s d" "node_files s2 = node_files s"
  shows "((length (node_files (delete_node s2 d)), k'), (length (node_files s), k)) \<in> walk_measure"
  using assms delete_node_shrinks [of s2 d] by (simp add: walk_measure_def node_exists_def)

lemma remove_fail:
  "(Inl e, s1) = get_archived E s d \<Longrightarrow> node_exists s d \<Longrightarrow>
     ((length (node_files (delete_node s1 d)), k'), (length (node_files s), k)) \<in> walk_measure"
  by (rule delete_node_measure) (metis get_archived_files)+

lemma remove_ok:
  "(Inr n, s1) = get_archived E s d \<Longrightarrow> (Inr q', s2) = decrement_children s1 cs q \<Longrightarrow>
     node_exists s d \<Longrightarrow>
     ((length (node_files (delete_node s2 d)), k'), (length (node_files s), k)) \<in> walk_measure"
  by (rule delete_node_measure) (metis get_archived_files decrement_children_files)+

function remove_tag_loop ::
  "ext \<Rightarrow> mmap_store \<Rightarrow> digest set \<Rightarrow> digest list \<Rightarrow> u64 \<Rightarrow> u64 store_result" where
  "remove_tag_loop E s deleted [] freed = (Inr freed, s)"
| "remove_tag_loop E s deleted (node # queue) freed =
    (if node \<in> deleted then remove_tag_loop E s deleted queue freed
     else if \<not> node_exists s node then remove_tag_loop E s (insert node deleted) queue freed
     else case get_archived E s node of
         (Inl e, s1) \<Rightarrow>
           (case e of
              NotFound _ \<Rightarrow>
                remove_tag_loop E (delete_node s1 node) (insert node deleted) queue
                  (freed + file_len (node_files s1) node + file_len (blob_files s1) node)
            | _ \<Rightarrow> (Inl e, s1))
       | (Inr archived, s1) \<Rightarrow>
           (case decrement_children s1 (edges archived) queue of
              (Inl e, s2) \<Rightarrow> (Inl e, s2)
            | (Inr queue', s2) \<Rightarrow>
                remove_tag_loop E (delete_node s2 node) (insert node deleted) queue'
                  (freed + file_len (node_files s2) node + file_len (blob_files s2) node)))"
  by pat_completeness auto

termination
proof (relation "inv_image walk_measure
    (\<lambda>(E, s, deleted, queue, freed). (length (node_files s), length queue))")
qed (auto intro: walk_skip remove_fail remove_ok)

definition remove_tag :: "ext \<Rightarrow> mmap_store \<Rightarrow> digest \<Rightarrow> u64 store_result" where
  "remove_tag E s r =
    (case decrement_refcount s r of
       (Inl e, s1) \<Rightarrow> (Inl e, s1)
     | (Inr remaining, s1) \<Rightarrow>
         if remaining > 0 then (Inr 0, s1) else remove_tag_loop E s1 {} [r] 0)"

end
