(* ===== verification/Dag_Reach.thy ===== *)
theory Dag_Reach
  imports Pullrun_Prelude
begin

text \<open>
  Reachability in a graph some of whose edges may point to absent vertices, and
  the loop invariant of a breadth-first walk over it.  The walks of the
  sources (\<^verbatim>\<open>walk_reachable\<close>, \<^verbatim>\<open>compute_image_size\<close>,
  \<^verbatim>\<open>recompute_all_refcounts\<close>) share this invariant: each is an instance of
  the locale \<open>dag_graph\<close>.
\<close>

inductive_set reach_from :: "('d \<Rightarrow> bool) \<Rightarrow> ('d \<Rightarrow> 'd list) \<Rightarrow> 'd set \<Rightarrow> 'd set"
  for present :: "'d \<Rightarrow> bool" and kids :: "'d \<Rightarrow> 'd list" and roots :: "'d set" where
  reach_root: "r \<in> roots \<Longrightarrow> present r \<Longrightarrow> r \<in> reach_from present kids roots"
| reach_step: "d \<in> reach_from present kids roots \<Longrightarrow> c \<in> set (kids d) \<Longrightarrow> present c
    \<Longrightarrow> c \<in> reach_from present kids roots"

lemma reach_present: "d \<in> reach_from present kids roots \<Longrightarrow> present d"
  by (induction rule: reach_from.induct) auto

lemma reach_closed:
  assumes "\<And>r. r \<in> roots \<Longrightarrow> present r \<Longrightarrow> r \<in> V"
    and "\<And>d c. d \<in> V \<Longrightarrow> c \<in> set (kids d) \<Longrightarrow> present c \<Longrightarrow> c \<in> V"
  shows "reach_from present kids roots \<subseteq> V"
proof
  fix d assume "d \<in> reach_from present kids roots"
  then show "d \<in> V" by induction (use assms in auto)
qed

lemma reach_mono: "R \<subseteq> R' \<Longrightarrow> reach_from present kids R \<subseteq> reach_from present kids R'"
  by (rule reach_closed) (auto intro: reach_from.intros)

text \<open>
  Removing vertices outside a closed set of reachable ones changes nothing for
  them: reachability in the smaller graph is the same.
\<close>

lemma reach_restrict:
  assumes "\<And>d. present' d \<Longrightarrow> present d"
    and "\<And>d. d \<in> reach_from present kids R \<Longrightarrow> present' d"
    and "\<And>d. d \<in> reach_from present kids R \<Longrightarrow> kids' d = kids d"
  shows "reach_from present' kids' R = reach_from present kids R"
proof (rule equalityI)
  show "reach_from present' kids' R \<subseteq> reach_from present kids R"
    by (rule reach_closed) (use assms in \<open>auto intro: reach_from.intros\<close>)
  show "reach_from present kids R \<subseteq> reach_from present' kids' R"
  proof
    fix d assume "d \<in> reach_from present kids R"
    then show "d \<in> reach_from present' kids' R"
    proof induction
      case (reach_root r)
      then show ?case using assms(2) by (auto intro: reach_from.intros)
    next
      case (reach_step d c)
      then have "c \<in> reach_from present kids R" by (auto intro: reach_from.intros)
      then show ?case using reach_step assms(2,3) by (auto intro: reach_from.intros)
    qed
  qed
qed

section \<open>The breadth-first walk\<close>

text \<open>
  \<open>V\<close> are the visited vertices, \<open>Q\<close> the queue, \<open>N\<close> the vertices
  collected so far.
\<close>

definition walk_inv ::
  "('d \<Rightarrow> bool) \<Rightarrow> ('d \<Rightarrow> 'd list) \<Rightarrow> 'd set \<Rightarrow> 'd set \<Rightarrow> 'd list \<Rightarrow> 'd list \<Rightarrow> bool" where
  "walk_inv present kids R V Q N \<longleftrightarrow>
     set N = {d \<in> V. present d} \<and> distinct N
     \<and> (\<forall>d \<in> set N. \<forall>c \<in> set (kids d). present c \<longrightarrow> c \<in> V \<union> set Q)
     \<and> set N \<subseteq> reach_from present kids R
     \<and> (\<forall>q \<in> set Q. present q \<longrightarrow> q \<in> reach_from present kids R)
     \<and> (\<forall>r \<in> R. present r \<longrightarrow> r \<in> V \<union> set Q)"

locale dag_graph =
  fixes present :: "'s \<Rightarrow> 'd \<Rightarrow> bool"
    and kids :: "'s \<Rightarrow> 'd \<Rightarrow> 'd list"
    and step :: "'s \<Rightarrow> 's \<Rightarrow> bool"
  assumes step_present: "step s s' \<Longrightarrow> present s' = present s"
    and step_kids: "step s s' \<Longrightarrow> kids s' = kids s"
begin

lemma walk_start: "walk_inv (present s) (kids s) (set Q) {} Q []"
  by (auto simp: walk_inv_def intro: reach_from.intros)

lemma walk_seen:
  "walk_inv (present s) (kids s) R V (d # Q) N \<Longrightarrow> d \<in> V \<Longrightarrow>
     walk_inv (present s) (kids s) R V Q N"
  by (auto simp: walk_inv_def)

lemma walk_missing:
  "walk_inv (present s) (kids s) R V (d # Q) N \<Longrightarrow> \<not> present s d \<Longrightarrow>
     walk_inv (present s) (kids s) R (insert d V) Q N"
  unfolding walk_inv_def by (intro conjI) auto

lemma walk_node:
  assumes "walk_inv (present s) (kids s) R V (d # Q) N" "d \<notin> V" "present s d" "step s s'"
    and "\<And>c. c \<in> set (kids s d) \<Longrightarrow> present s c \<Longrightarrow> c \<in> set cs"
    and "set cs \<subseteq> set (kids s d)"
  shows "walk_inv (present s') (kids s') R (insert d V) (Q @ cs) (N @ [d])"
proof -
  let ?reach = "reach_from (present s) (kids s) R"
  note inv = assms(1) [unfolded walk_inv_def]
  have d: "d \<in> ?reach" using inv assms(3) by simp
  then have cs: "\<forall>c \<in> set cs. present s c \<longrightarrow> c \<in> ?reach"
    using assms(6) by (blast intro: reach_step)
  have "walk_inv (present s) (kids s) R (insert d V) (Q @ cs) (N @ [d])"
    unfolding walk_inv_def
  proof (intro conjI)
    show "set (N @ [d]) = {e \<in> insert d V. present s e}" "distinct (N @ [d])"
      using inv assms(2,3) by auto
    show "\<forall>e \<in> set (N @ [d]). \<forall>c \<in> set (kids s e). present s c \<longrightarrow>
        c \<in> insert d V \<union> set (Q @ cs)"
      using inv assms(5) by fastforce
    show "set (N @ [d]) \<subseteq> ?reach" using inv d by auto
    show "\<forall>q \<in> set (Q @ cs). present s q \<longrightarrow> q \<in> ?reach" using inv cs by auto
    show "\<forall>r \<in> R. present s r \<longrightarrow> r \<in> insert d V \<union> set (Q @ cs)" using inv by auto
  qed
  then show ?thesis by (simp add: step_present [OF assms(4)] step_kids [OF assms(4)])
qed

lemma walk_finish:
  assumes "walk_inv (present s) (kids s) R V [] N"
  shows "set N = reach_from (present s) (kids s) R" "distinct N"
proof -
  note inv = assms(1) [unfolded walk_inv_def]
  have N: "set N = {d \<in> V. present s d}" using inv by blast
  have kids: "\<forall>d \<in> set N. \<forall>c \<in> set (kids s d). present s c \<longrightarrow> c \<in> V \<union> set []"
    using inv by blast
  have roots: "\<forall>r \<in> R. present s r \<longrightarrow> r \<in> V \<union> set []" using inv by blast
  have "reach_from (present s) (kids s) R \<subseteq> set N"
    by (rule reach_closed) (use N kids roots in simp_all)
  then show "set N = reach_from (present s) (kids s) R" "distinct N"
    using inv by (blast, blast)
qed

end

end
