(* ===== verification/Store_Laws.thy ===== *)
theory Store_Laws
  imports Dag_Store Dag_Reach
begin

text \<open>
  The laws of \<^verbatim>\<open>MmapStore\<close>: the store invariant and its preservation, reads
  through a cache return the file (the locale \<open>read_through\<close>, which the node
  and blob readers and their asynchronous variants all instantiate), insertion
  and lookup, and the walks compute reachability (instances of
  \<open>dag_graph\<close>).
\<close>

section \<open>Invariant\<close>

definition store_inv :: "mmap_store \<Rightarrow> bool" where
  "store_inv s \<longleftrightarrow>
     cache_inv (cache s) \<and> cache_inv (blob_cache s)
     \<and> distinct (map fst (node_files s)) \<and> distinct (map fst (blob_files s))
     \<and> distinct (map fst (refcount_files s))
     \<and> map_of (entries (cache s)) \<subseteq>\<^sub>m map_of (node_files s)"

definition blob_coherent :: "mmap_store \<Rightarrow> bool" where
  "blob_coherent s \<longleftrightarrow>
     cache_inv (blob_cache s) \<and> map_of (entries (blob_cache s)) \<subseteq>\<^sub>m map_of (blob_files s)"

lemma new_store_inv [inv_intros]: "store_inv (new_store r)" "blob_coherent (new_store r)"
  by (simp_all add: store_inv_def blob_coherent_def new_store_def empty_cache_inv)
    (simp_all add: empty_cache_def)

lemma new_unbounded_inv [inv_intros]:
  "store_inv (new_unbounded r)" "blob_coherent (new_unbounded r)"
  by (simp_all add: store_inv_def blob_coherent_def new_unbounded_def empty_cache_inv)
    (simp_all add: empty_cache_def)

lemma map_leD: "m \<subseteq>\<^sub>m m' \<Longrightarrow> m k = Some v \<Longrightarrow> m' k = Some v"
  by (metis domI map_le_def)

lemma cache_load_le:
  assumes "map_of (entries c) \<subseteq>\<^sub>m f" "f d = Some b"
  shows "map_of (entries (cache_load d b c)) \<subseteq>\<^sub>m f"
  using map_le_trans [OF evict_lru_sub assms(1)] assms(2)
  by (auto simp: cache_load_lookup map_le_def)

lemma cache_touch_le:
  "map_of (entries c) \<subseteq>\<^sub>m f \<Longrightarrow> map_of (entries (cache_touch d c)) \<subseteq>\<^sub>m f"
  by (rule map_le_trans [OF cache_touch_sub])

lemma load_node_inv [inv_intros]:
  "store_inv s \<Longrightarrow> map_of (entries (cache s)) d = None \<Longrightarrow>
     store_inv (snd (load_node_from_disk s d))"
  by (cases "map_of (node_files s) d")
    (auto simp: store_inv_def load_node_from_disk_def cache_load_inv cache_load_le)

lemma get_inv [inv_intros]: "store_inv s \<Longrightarrow> store_inv (snd (get s d))"
  using load_node_inv [of s d]
  by (cases "map_of (entries (cache s)) d")
    (auto simp: store_inv_def get_def cache_touch_inv cache_touch_le)

lemma get_async_inv [inv_intros]: "store_inv s \<Longrightarrow> store_inv (snd (get_async s d))"
  using load_node_inv [of s d]
  by (cases "map_of (entries (cache s)) d") (auto simp: get_async_def)

lemma load_blob_coherent [inv_intros]:
  "blob_coherent s \<Longrightarrow> map_of (entries (blob_cache s)) d = None \<Longrightarrow>
     blob_coherent (snd (load_blob_from_disk s d))"
  by (cases "map_of (blob_files s) d")
    (auto simp: blob_coherent_def load_blob_from_disk_def cache_load_inv cache_load_le)

lemma get_blob_coherent [inv_intros]:
  "blob_coherent s \<Longrightarrow> blob_coherent (snd (get_blob s d))"
  using load_blob_coherent [of s d]
  by (cases "map_of (entries (blob_cache s)) d")
    (auto simp: blob_coherent_def get_blob_def cache_touch_inv cache_touch_le)

lemma get_blob_async_coherent [inv_intros]:
  "blob_coherent s \<Longrightarrow> blob_coherent (snd (get_blob_async s d))"
  using load_blob_coherent [of s d]
  by (cases "map_of (entries (blob_cache s)) d") (auto simp: get_blob_async_def)

section \<open>Reading through a cache\<close>

locale read_through =
  fixes files :: "'s \<Rightarrow> digest \<Rightarrow> bytes option"
    and cached :: "'s \<Rightarrow> digest \<Rightarrow> bytes option"
    and rd :: "'s \<Rightarrow> digest \<Rightarrow> (store_error + bytes) \<times> 's"
    and inv :: "'s \<Rightarrow> bool"
  assumes coherent: "inv s \<Longrightarrow> cached s d = Some b \<Longrightarrow> files s d = Some b"
    and hit: "cached s d = Some b \<Longrightarrow> fst (rd s d) = Inr b"
    and miss: "cached s d = None \<Longrightarrow>
        fst (rd s d) = (case files s d of None \<Rightarrow> Inl (NotFound d) | Some b \<Rightarrow> Inr b)"
    and frame: "files (snd (rd s d)) = files s"
    and keep: "inv s \<Longrightarrow> inv (snd (rd s d))"
begin

lemma rd_result:
  "inv s \<Longrightarrow> fst (rd s d) = (case files s d of None \<Rightarrow> Inl (NotFound d) | Some b \<Rightarrow> Inr b)"
  by (cases "cached s d") (simp_all add: hit miss coherent)

lemma rd_file: "inv s \<Longrightarrow> fst (rd s d) = Inr b \<longleftrightarrow> files s d = Some b"
  by (simp add: rd_result split: option.splits)

lemma reads_frame:
  "files (fold (\<lambda>d s. snd (rd s d)) ds s) = files s"
  by (induction ds arbitrary: s) (simp_all add: frame)

lemma reads_keep: "inv s \<Longrightarrow> inv (fold (\<lambda>d s. snd (rd s d)) ds s)"
  by (induction ds arbitrary: s) (simp_all add: keep)

text \<open>Whatever was read before, a read returns the file as it was at the start.\<close>

lemma reads_stable:
  "inv s \<Longrightarrow> fst (rd (fold (\<lambda>d s. snd (rd s d)) ds s) d)
     = (case files s d of None \<Rightarrow> Inl (NotFound d) | Some b \<Rightarrow> Inr b)"
  by (simp add: rd_result reads_keep reads_frame)

end

interpretation node_read: read_through
  "\<lambda>s. map_of (node_files s)" "\<lambda>s. map_of (entries (cache s))" get store_inv
proof unfold_locales
  show "map_of (node_files s) d = Some b"
    if "store_inv s" "map_of (entries (cache s)) d = Some b" for s d b
    using that by (auto simp: store_inv_def dest: map_leD)
  show "store_inv (snd (get s d))" if "store_inv s" for s d using that by (rule get_inv)
qed (auto simp: get_def load_node_from_disk_def split: option.splits)

interpretation node_read_async: read_through
  "\<lambda>s. map_of (node_files s)" "\<lambda>s. map_of (entries (cache s))" get_async store_inv
proof unfold_locales
  show "map_of (node_files s) d = Some b"
    if "store_inv s" "map_of (entries (cache s)) d = Some b" for s d b
    using that by (rule node_read.coherent)
  show "store_inv (snd (get_async s d))" if "store_inv s" for s d using that by (rule get_async_inv)
qed (auto simp: get_async_def load_node_from_disk_def split: option.splits)

interpretation blob_read: read_through
  "\<lambda>s. map_of (blob_files s)" "\<lambda>s. map_of (entries (blob_cache s))" get_blob blob_coherent
proof unfold_locales
  show "map_of (blob_files s) d = Some b"
    if "blob_coherent s" "map_of (entries (blob_cache s)) d = Some b" for s d b
    using that by (auto simp: blob_coherent_def dest: map_leD)
  show "blob_coherent (snd (get_blob s d))" if "blob_coherent s" for s d using that by (rule get_blob_coherent)
qed (auto simp: get_blob_def load_blob_from_disk_def split: option.splits)

interpretation blob_read_async: read_through
  "\<lambda>s. map_of (blob_files s)" "\<lambda>s. map_of (entries (blob_cache s))" get_blob_async blob_coherent
proof unfold_locales
  show "map_of (blob_files s) d = Some b"
    if "blob_coherent s" "map_of (entries (blob_cache s)) d = Some b" for s d b
    using that by (rule blob_read.coherent)
  show "blob_coherent (snd (get_blob_async s d))" if "blob_coherent s" for s d using that by (rule get_blob_async_coherent)
qed (auto simp: get_blob_async_def load_blob_from_disk_def split: option.splits)

section \<open>The graph of the stored nodes\<close>

definition node_view :: "ext \<Rightarrow> mmap_store \<Rightarrow> digest \<Rightarrow> store_error + dag_node" where
  "node_view E s d =
    (case map_of (node_files s) d of None \<Rightarrow> Inl (NotFound d) | Some b \<Rightarrow> guard_new E d b)"

definition node_kids :: "ext \<Rightarrow> mmap_store \<Rightarrow> digest \<Rightarrow> digest list" where
  "node_kids E s d = (case node_view E s d of Inr n \<Rightarrow> edges n | Inl _ \<Rightarrow> [])"

definition reachable :: "ext \<Rightarrow> mmap_store \<Rightarrow> digest list \<Rightarrow> digest set" where
  "reachable E s roots = reach_from (node_exists s) (node_kids E s) (set roots)"

text \<open>Reads change nothing but the node cache.\<close>

definition only_cache :: "mmap_store \<Rightarrow> mmap_store \<Rightarrow> bool" where
  "only_cache s s' \<longleftrightarrow> (\<exists>c. s' = s\<lparr>cache := c\<rparr>)"

lemma only_cacheD:
  assumes "only_cache s s'"
  shows "node_files s' = node_files s" "blob_files s' = blob_files s"
    "refcount_files s' = refcount_files s" "blob_cache s' = blob_cache s" "root s' = root s"
    "node_exists s' = node_exists s" "blob_exists s' = blob_exists s"
    "node_view E s' = node_view E s" "node_kids E s' = node_kids E s"
    "reachable E s' = reachable E s"
proof -
  obtain c where s': "s' = s\<lparr>cache := c\<rparr>" using assms unfolding only_cache_def by blast
  show "node_files s' = node_files s" "blob_files s' = blob_files s"
    "refcount_files s' = refcount_files s" "blob_cache s' = blob_cache s" "root s' = root s"
    by (simp_all add: s')
  show ne: "node_exists s' = node_exists s" and "blob_exists s' = blob_exists s"
    by (simp_all add: s' fun_eq_iff node_exists_def blob_exists_def)
  show "node_view E s' = node_view E s" and nk: "node_kids E s' = node_kids E s"
    by (simp_all add: s' fun_eq_iff node_view_def node_kids_def)
  show "reachable E s' = reachable E s"
    by (simp add: fun_eq_iff reachable_def ne nk)
qed

lemma only_cache_refl [simp]: "only_cache s s"
  by (auto simp: only_cache_def intro: exI [of _ "cache s"])

lemma only_cache_trans: "only_cache s s' \<Longrightarrow> only_cache s' s'' \<Longrightarrow> only_cache s s''"
  by (auto simp: only_cache_def)

interpretation store_graph: dag_graph node_exists "node_kids E" only_cache for E
  by unfold_locales (rule only_cacheD; assumption)+

lemma get_only_cache: "only_cache s (snd (get s d))"
  by (auto simp: get_def load_node_from_disk_def only_cache_def [of s "s\<lparr>cache := _\<rparr>"]
      split: option.splits)

lemma get_archived_view:
  assumes "store_inv s" "get_archived E s d = (r, s')"
  shows "r = node_view E s d" "store_inv s'" "only_cache s s'"
proof -
  show "r = node_view E s d"
    using assms node_read.rd_result [OF assms(1), of d]
    by (auto simp: get_archived_def node_view_def split: prod.splits sum.splits option.splits)
  show "store_inv s'" "only_cache s s'"
    using assms get_archived_state [of E s d] get_inv [of s d] get_only_cache [of s d] by simp_all
qed

lemma exists_node_inv [simp]: "store_inv s \<Longrightarrow> exists_node s d \<longleftrightarrow> node_exists s d"
  using node_read.coherent [of s d] by (auto simp: exists_node_def node_exists_def)

lemma node_view_exists: "node_view E s d = Inr n \<Longrightarrow> node_exists s d"
  by (auto simp: node_view_def node_exists_def split: option.splits)

lemma node_view_error:
  "node_exists s d \<Longrightarrow> node_view E s d = Inl e \<Longrightarrow> \<exists>m. e = Corrupted d m"
  by (auto simp: node_view_def node_exists_def guard_new_def split: option.splits sum.splits)

lemma node_kids_view: "node_view E s d = Inr n \<Longrightarrow> node_kids E s d = edges n"
  by (simp add: node_kids_def)

section \<open>The walk from the roots\<close>

definition walk_result ::
  "ext \<Rightarrow> mmap_store \<Rightarrow> digest list \<Rightarrow> store_error + (digest list \<times> digest list) \<Rightarrow> bool" where
  "walk_result E s R r =
    (case r of
       Inr (nodes, blobs) \<Rightarrow>
         set nodes = reachable E s R \<and> distinct nodes \<and> blobs = filter (blob_exists s) nodes
         \<and> (\<forall>d \<in> reachable E s R. \<exists>n. node_view E s d = Inr n)
     | Inl e \<Rightarrow>
         (\<exists>d \<in> reachable E s R. \<exists>m. node_view E s d = Inl (Corrupted d m)
            \<and> e = Corrupted d bfs_abort))"

lemma walk_result_only_cache:
  assumes "only_cache s s'"
  shows "walk_result E s' = walk_result E s"
  unfolding fun_eq_iff walk_result_def only_cacheD [OF assms] by simp

lemma walk_loop_correct:
  "store_inv s \<Longrightarrow> walk_inv (node_exists s) (node_kids E s) (set R) V Q N \<Longrightarrow>
   \<forall>d \<in> set N. \<exists>n. node_view E s d = Inr n \<Longrightarrow> B = filter (blob_exists s) N \<Longrightarrow>
   walk_result E s R (fst (walk_loop E s V Q N B))
     \<and> store_inv (snd (walk_loop E s V Q N B)) \<and> only_cache s (snd (walk_loop E s V Q N B))"
proof (induction E s V Q N B rule: walk_loop.induct)
  case (1 E s V N B)
  then show ?case
    using store_graph.walk_finish [OF "1.prems"(2)]
    by (simp add: walk_result_def reachable_def)
next
  case (2 E s V d Q N B)
  note inv = "2.prems"(2)
  obtain r s' where ga: "get_archived E s d = (r, s')" by fastforce
  note view = get_archived_view [OF "2.prems"(1) ga]
  note same = only_cacheD [OF view(3)]
  consider (seen) "d \<in> V" | (missing) "d \<notin> V" "\<not> node_exists s d"
    | (ok) n where "d \<notin> V" "node_exists s d" "node_view E s d = Inr n"
    | (bad) e where "d \<notin> V" "node_exists s d" "node_view E s d = Inl e"
    by (cases "node_view E s d") auto
  then show ?case
  proof cases
    case seen
    with 2 store_graph.walk_seen [OF inv] show ?thesis by simp
  next
    case missing
    with 2 store_graph.walk_missing [OF inv] show ?thesis by simp
  next
    case ok
    have "walk_inv (node_exists s') (node_kids E s') (set R) (insert d V) (Q @ edges n) (N @ [d])"
      by (rule store_graph.walk_node [OF inv]) (simp_all add: ok view(3) node_kids_view)
    moreover define B' where "B' = filter (blob_exists s) (N @ [d])"
    ultimately have "walk_result E s' R (fst (walk_loop E s' (insert d V) (Q @ edges n) (N @ [d]) B'))
        \<and> store_inv (snd (walk_loop E s' (insert d V) (Q @ edges n) (N @ [d]) B'))
        \<and> only_cache s' (snd (walk_loop E s' (insert d V) (Q @ edges n) (N @ [d]) B'))"
      using 2 ok ga view same by simp
    moreover have "walk_loop E s V (d # Q) N B = walk_loop E s' (insert d V) (Q @ edges n) (N @ [d]) B'"
      using 2 ok ga view by (simp add: B'_def Let_def)
    ultimately show ?thesis
      using only_cache_trans [OF view(3)] by (simp add: walk_result_only_cache [OF view(3)])
  next
    case bad
    obtain m where e: "e = Corrupted d m" using node_view_error bad by blast
    have "d \<in> reachable E s R" using inv bad(2) by (simp add: walk_inv_def reachable_def)
    then show ?thesis using 2 bad e ga view by (auto simp: walk_result_def Let_def)
  qed
qed

lemma walk_reachable_result:
  assumes "store_inv s"
  shows "walk_result E s R (fst (walk_reachable E s R))"
    "store_inv (snd (walk_reachable E s R))" "only_cache s (snd (walk_reachable E s R))"
  using walk_loop_correct [OF assms store_graph.walk_start, of E "[]" R]
  by (simp_all add: walk_reachable_def)

section \<open>Insertion\<close>

lemma set_refcount_only:
  "\<exists>rc. set_refcount s d n = s\<lparr>refcount_files := rc\<rparr>"
  by (auto simp: set_refcount_def)

lemma set_refcount_fields [simp]:
  "node_files (set_refcount s d n) = node_files s"
  "blob_files (set_refcount s d n) = blob_files s"
  "cache (set_refcount s d n) = cache s"
  "blob_cache (set_refcount s d n) = blob_cache s"
  "root (set_refcount s d n) = root s"
  by (simp_all add: set_refcount_def)

lemma set_refcount_inv [inv_intros]: "store_inv s \<Longrightarrow> store_inv (set_refcount s d n)"
  by (auto simp: store_inv_def set_refcount_def)

lemma increment_refcount_state:
  "snd (increment_refcount s d) = s \<or> (\<exists>n. snd (increment_refcount s d) = set_refcount s d n)"
  by (auto simp: increment_refcount_def Let_def split: sum.splits)

lemma increment_refcount_fields [simp]:
  "node_files (snd (increment_refcount s d)) = node_files s"
  "blob_files (snd (increment_refcount s d)) = blob_files s"
  "cache (snd (increment_refcount s d)) = cache s"
  "blob_cache (snd (increment_refcount s d)) = blob_cache s"
  "root (snd (increment_refcount s d)) = root s"
  using increment_refcount_state [of s d] by auto

lemma increment_refcount_inv [inv_intros]:
  "store_inv s \<Longrightarrow> store_inv (snd (increment_refcount s d))"
  using increment_refcount_state [of s d] by (auto simp: set_refcount_inv)

lemma increment_edges_fields [simp]:
  "node_files (increment_edges s es) = node_files s"
  "blob_files (increment_edges s es) = blob_files s"
  "cache (increment_edges s es) = cache s"
  "blob_cache (increment_edges s es) = blob_cache s"
  "root (increment_edges s es) = root s"
  unfolding increment_edges_def by (induction es arbitrary: s) simp_all

lemma increment_edges_inv [inv_intros]: "store_inv s \<Longrightarrow> store_inv (increment_edges s es)"
  unfolding increment_edges_def
  by (induction es arbitrary: s) (simp_all add: increment_refcount_inv)

lemma map_le_update: "m \<subseteq>\<^sub>m f \<Longrightarrow> f d = None \<Longrightarrow> m \<subseteq>\<^sub>m f(d \<mapsto> b)"
  unfolding map_le_def by (metis domIff fun_upd_apply)

lemma add_node_inv [inv_intros]:
  assumes "store_inv s" "\<not> node_exists s d"
  shows "store_inv (s\<lparr>node_files := AList.update d b (node_files s)\<rparr>)"
proof -
  have "map_of (node_files s) d = None" using assms(2) by (simp add: node_exists_def)
  with assms(1) show ?thesis by (simp add: store_inv_def map_le_update)
qed

lemma put_eq_put_blocking: "put_blocking E s n = put E s n"
  by (simp add: put_def put_blocking_def)

lemma put_cases:
  assumes "put E s n = (r, s')"
  obtains (fail) e where "rkyv_to_bytes E n = Inl e" "r = Inl (Serialization e)" "s' = s"
  | (dedup) b where "rkyv_to_bytes E n = Inr b" "r = Inr (compute E b)"
      "node_exists s (compute E b)" "s' = s"
  | (new) b where "rkyv_to_bytes E n = Inr b" "r = Inr (compute E b)"
      "\<not> node_exists s (compute E b)"
      "s' = increment_edges (s\<lparr>node_files := AList.update (compute E b) b (node_files s)\<rparr>)
              (edges n)"
  using assms unfolding put_def Let_def by (auto split: sum.splits if_splits)

lemma put_inv [inv_intros]: "store_inv s \<Longrightarrow> store_inv (snd (put E s n))"
proof -
  assume inv: "store_inv s"
  obtain r s' where p: "put E s n = (r, s')" by fastforce
  then show "store_inv (snd (put E s n))"
    by (cases rule: put_cases) (auto simp: inv p intro!: increment_edges_inv add_node_inv)
qed

lemma put_blob_inv [inv_intros]:
  "store_inv s \<Longrightarrow> store_inv (snd (put_blob s d b))"
  "blob_coherent s \<Longrightarrow> blob_coherent (snd (put_blob s d b))"
  by (auto simp: store_inv_def blob_coherent_def put_blob_def blob_exists_def map_le_update)

text \<open>
  Unless the digest was already taken by other bytes (a collision), reading back
  a stored node returns it, from any later cache state.
\<close>

definition no_collision :: "ext \<Rightarrow> mmap_store \<Rightarrow> dag_node \<Rightarrow> bool" where
  "no_collision E s n \<longleftrightarrow>
     (\<forall>b c. rkyv_to_bytes E n = Inr b \<longrightarrow> map_of (node_files s) (compute E b) = Some c \<longrightarrow> c = b)"

lemma put_stores:
  assumes "no_collision E s n" "put E s n = (Inr d, s')"
  shows "\<exists>b. rkyv_to_bytes E n = Inr b \<and> d = compute E b \<and> map_of (node_files s') d = Some b"
  using assms(2)
proof (cases rule: put_cases)
  case (dedup b)
  then show ?thesis using assms(1) by (auto simp: no_collision_def node_exists_def)
qed auto

lemma put_view:
  assumes "rkyv_ok E" "wf_node n" "no_collision E s n" "put E s n = (Inr d, s')"
  shows "node_view E s' d = Inr n"
  using put_stores [OF assms(3,4)] assms(1,2)
  by (auto simp: node_view_def guard_new_def rkyv_ok_def split: sum.splits)

lemma put_frame:
  assumes "put E s n = (r, s')" "r \<noteq> Inr d"
  shows "map_of (node_files s') d = map_of (node_files s) d"
  using assms(1) by (cases rule: put_cases) (use assms(2) in auto)

lemma put_total:
  "rkyv_ok E \<Longrightarrow> wf_node n \<Longrightarrow> \<exists>d s'. put E s n = (Inr d, s')"
  by (fastforce simp: put_def rkyv_ok_def Let_def)

lemma get_deserialized_view:
  assumes "store_inv s"
  shows "fst (get_deserialized E s d) = node_view E s d"
  using node_read.rd_result [OF assms, of d]
  by (auto simp: get_deserialized_def node_view_def guard_new_def
      split: prod.splits sum.splits option.splits)

end
