(* ===== verification/Op_Lock.thy ===== *)
theory Op_Lock
  imports Pullrun_Prelude
begin

text \<open>
  Operation locks, \<^verbatim>\<open>pullrun-store/src/op_lock.rs\<close>: files under
  \<^verbatim>\<open><store_root>/ops\<close> whose existence tells the garbage collector that an
  operation is in flight.  A lock file has a modification time (nanoseconds
  since the epoch; \<^verbatim>\<open>SystemTime::duration_since\<close> of a later time is replaced
  by zero, as the truncating subtraction of \<^typ>\<open>nat\<close> does) and a content; the
  directory is a table from operation ids to lock files.
\<close>

record lock_file =
  mtime :: nat
  content :: string

type_synonym ops_dir = "(string \<times> lock_file) list"

definition hex_digit :: "nat \<Rightarrow> char" where
  "hex_digit n = ''0123456789abcdef'' ! n"

fun hex_nat :: "nat \<Rightarrow> string" where
  "hex_nat n = (if n < 16 then [hex_digit n] else hex_nat (n div 16) @ [hex_digit (n mod 16)])"

declare hex_nat.simps [simp del]

definition pad_left :: "nat \<Rightarrow> string \<Rightarrow> string" where
  "pad_left w s = replicate (w - length s) (CHR ''0'') @ s"

definition generate_op_id :: "nat \<Rightarrow> string" where
  "generate_op_id nanos = ''op_'' @ pad_left 20 (hex_nat nanos)"

definition op_lock_new :: "nat \<Rightarrow> ops_dir \<Rightarrow> string \<times> ops_dir" where
  "op_lock_new now dir =
    (let op_id = generate_op_id now
     in (op_id, AList.update op_id \<lparr>mtime = now, content = []\<rparr> dir))"

definition op_lock_append :: "nat \<Rightarrow> string \<Rightarrow> string \<Rightarrow> ops_dir \<Rightarrow> ops_dir option" where
  "op_lock_append now op_id digest_hex dir =
    (case map_of dir op_id of
       None \<Rightarrow> None
     | Some f \<Rightarrow>
         Some (AList.update op_id
           \<lparr>mtime = now, content = content f @ digest_hex @ [CHR 0x0A]\<rparr> dir))"

definition op_lock_touch :: "nat \<Rightarrow> string \<Rightarrow> ops_dir \<Rightarrow> ops_dir option" where
  "op_lock_touch now op_id dir =
    (case map_of dir op_id of
       None \<Rightarrow> None
     | Some f \<Rightarrow> Some (AList.update op_id (f\<lparr>mtime := now\<rparr>) dir))"

definition op_lock_remove :: "string \<Rightarrow> ops_dir \<Rightarrow> ops_dir" where
  "op_lock_remove op_id dir = AList.delete op_id dir"

text \<open>\<^verbatim>\<open>complete\<close> consumes the lock, and dropping it removes the file.\<close>

definition op_lock_drop :: "string \<Rightarrow> ops_dir \<Rightarrow> ops_dir" where
  "op_lock_drop op_id dir = op_lock_remove op_id dir"

definition read_op_lock :: "lock_file \<Rightarrow> string list" where
  "read_op_lock f = filter (\<lambda>l. l \<noteq> []) (map trim (str_lines (content f)))"

definition stale_after :: nat where
  "stale_after = 3600 * 1000000000"

definition is_op_lock_stale :: "nat \<Rightarrow> lock_file \<Rightarrow> bool" where
  "is_op_lock_stale now f = (let age = now - mtime f in age > stale_after)"

fun list_fresh_op_locks :: "nat \<Rightarrow> ops_dir \<Rightarrow> (string \<times> string list) list" where
  "list_fresh_op_locks now [] = []"
| "list_fresh_op_locks now ((op_id, f) # dir) =
    (if \<not> is_op_lock_stale now f
     then (op_id, read_op_lock f) # list_fresh_op_locks now dir
     else list_fresh_op_locks now dir)"

fun clean_stale_op_locks :: "nat \<Rightarrow> ops_dir \<Rightarrow> (string \<times> string list) list \<times> ops_dir" where
  "clean_stale_op_locks now [] = ([], [])"
| "clean_stale_op_locks now ((op_id, f) # dir) =
    (let (fresh, dir') = clean_stale_op_locks now dir
     in if is_op_lock_stale now f then (fresh, dir')
        else ((op_id, read_op_lock f) # fresh, (op_id, f) # dir'))"

section \<open>Facts\<close>

lemma list_fresh_keys:
  "fst ` set (list_fresh_op_locks now dir) = {op. \<exists>f. (op, f) \<in> set dir \<and> \<not> is_op_lock_stale now f}"
  by (induction dir rule: list_fresh_op_locks.induct) auto

lemma clean_stale_fresh: "fst (clean_stale_op_locks now dir) = list_fresh_op_locks now dir"
  by (induction dir rule: clean_stale_op_locks.induct) (auto split: prod.splits)

lemma clean_stale_dir:
  "snd (clean_stale_op_locks now dir) = filter (\<lambda>(op, f). \<not> is_op_lock_stale now f) dir"
  by (induction dir rule: clean_stale_op_locks.induct) (auto split: prod.splits)

lemma fresh_lock_listed:
  assumes "map_of dir op = Some f" "now \<le> mtime f + stale_after"
  shows "list_fresh_op_locks now dir \<noteq> []"
proof -
  have "op \<in> fst ` set (list_fresh_op_locks now dir)"
    using assms by (auto simp: list_fresh_keys is_op_lock_stale_def dest: map_of_SomeD)
  then show ?thesis by auto
qed

lemma hex_nat_nonempty [simp]: "hex_nat n \<noteq> []"
  by (subst hex_nat.simps) simp

lemma hex_digit_inj: "m < 16 \<Longrightarrow> n < 16 \<Longrightarrow> hex_digit m = hex_digit n \<longleftrightarrow> m = n"
proof -
  have "distinct ''0123456789abcdef''" by simp
  then show "m < 16 \<Longrightarrow> n < 16 \<Longrightarrow> hex_digit m = hex_digit n \<longleftrightarrow> m = n"
    unfolding hex_digit_def by (subst nth_eq_iff_index_eq) auto
qed

text \<open>Reading a hexadecimal numeral back, leading zeros included.\<close>

definition hex_value :: "string \<Rightarrow> nat" where
  "hex_value s = foldl (\<lambda>n c. 16 * n + (THE k. k < 16 \<and> hex_digit k = c)) 0 s"

lemma hex_digit_value: "k < 16 \<Longrightarrow> (THE j. j < 16 \<and> hex_digit j = hex_digit k) = k"
  by (rule the_equality) (auto simp: hex_digit_inj)

lemma hex_value_snoc: "hex_value (s @ [c]) = 16 * hex_value s + (THE k. k < 16 \<and> hex_digit k = c)"
  by (simp add: hex_value_def)

lemma hex_value_nat: "hex_value (hex_nat n) = n"
proof (induction n rule: hex_nat.induct)
  case (1 n)
  then show ?case
    by (subst hex_nat.simps) (auto simp: hex_value_snoc hex_digit_value hex_value_def [of "[_]"])
qed

lemma hex_value_zeros: "hex_value (replicate k (CHR ''0'') @ s) = hex_value s"
proof (induction k)
  case (Suc k)
  have "CHR ''0'' = hex_digit 0" by (simp add: hex_digit_def)
  then have "(THE k. k < 16 \<and> hex_digit k = CHR ''0'') = (0::nat)"
    using hex_digit_value [of 0] by simp
  then show ?case using Suc by (simp add: hex_value_def)
qed simp

lemma generate_op_id_inject: "generate_op_id m = generate_op_id n \<longleftrightarrow> m = n"
  by (metis generate_op_id_def hex_value_nat hex_value_zeros pad_left_def
      same_append_eq)

end
