(* ===== verification/Gc.thy ===== *)
theory Gc
  imports Store_Laws Op_Lock
begin

text \<open>
  The mark-and-sweep collector of \<^verbatim>\<open>pullrun-gc/src/lib.rs\<close>.  \<open>collect\<close>
  runs the checks of the source in their order (operation locks, empty root set,
  missing roots, corrupted nodes, the 90 percent guard), marks with
  \<^const>\<open>walk_reachable\<close> and sweeps the rest.  The lemmas show that a
  successful run keeps every file of a reachable node, deletes every other
  node, and that a refused or dry run changes no file.
\<close>

datatype gc_error =
    ActiveOpLocks
  | EmptyRootSet
  | RootDigestMissing digest
  | CorruptedNodeDuringWalk digest
  | Store store_error
  | WouldFreeTooMuch u64 u64 u64

record gc_report =
  total_nodes :: nat
  reachable_nodes :: nat
  unreachable_nodes :: nat
  deleted_nodes :: nat
  deleted_blobs :: nat
  bytes_freed :: u64
  report_dry_run :: bool

definition default_report :: gc_report where
  "default_report =
    \<lparr>total_nodes = 0, reachable_nodes = 0, unreachable_nodes = 0, deleted_nodes = 0,
     deleted_blobs = 0, bytes_freed = 0, report_dry_run = False\<rparr>"

record garbage_collector =
  dry_run :: bool
  force :: bool

definition gc_new :: garbage_collector where
  "gc_new = \<lparr>dry_run = True, force = False\<rparr>"

definition with_dry_run :: "bool \<Rightarrow> garbage_collector \<Rightarrow> garbage_collector" where
  "with_dry_run b gc = gc\<lparr>dry_run := b\<rparr>"

definition with_force :: "bool \<Rightarrow> garbage_collector \<Rightarrow> garbage_collector" where
  "with_force b gc = gc\<lparr>force := b\<rparr>"

section \<open>Enumerating the stored nodes\<close>

text \<open>The paths of the files the store keeps under its root.\<close>

definition store_paths :: "ext \<Rightarrow> mmap_store \<Rightarrow> string list list" where
  "store_paths E s =
     map (path_for E s \<circ> fst) (node_files s) @ map (path_for_blob E s \<circ> fst) (blob_files s)
     @ map (refcount_path E s \<circ> fst) (refcount_files s)"

fun digest_from_rev_path :: "ext \<Rightarrow> string list \<Rightarrow> digest option" where
  "digest_from_rev_path E (file # tail # mid # head # rest) =
    (case from_hex E (head @ mid @ tail) of Inr d \<Rightarrow> Some d | Inl _ \<Rightarrow> None)"
| "digest_from_rev_path E _ = None"

definition digest_from_path :: "ext \<Rightarrow> string list \<Rightarrow> digest option" where
  "digest_from_path E path = digest_from_rev_path E (rev path)"

definition skipped_dir :: "string \<Rightarrow> bool" where
  "skipped_dir name \<longleftrightarrow> name = ''ops'' \<or> starts_with name ''.''"

definition walk_store_dir :: "ext \<Rightarrow> string list \<Rightarrow> string list list \<Rightarrow> digest list" where
  "walk_store_dir E r paths =
     List.map_filter
       (\<lambda>path. if list_ex skipped_dir (butlast (drop (length r) path)) then None
               else if last path = ''node.rkyv'' then digest_from_path E path
               else None)
       paths"

definition list_all_node_digests :: "ext \<Rightarrow> mmap_store \<Rightarrow> digest list" where
  "list_all_node_digests E s = walk_store_dir E (root s) (store_paths E s)"

section \<open>Collection\<close>

definition sweep_one ::
  "digest \<Rightarrow> mmap_store \<times> nat \<times> nat \<times> u64 \<Rightarrow> mmap_store \<times> nat \<times> nat \<times> u64" where
  "sweep_one d = (\<lambda>(s, dn, db, freed).
     let s1 = evict_cache_entry s d;
         (s2, dn2, freed2) =
           (if node_exists s1 d
            then (s1\<lparr>node_files := AList.delete d (node_files s1)\<rparr>, dn + 1,
                  freed + file_len (node_files s1) d)
            else (s1, dn, freed));
         (s3, db3, freed3) =
           (if blob_exists s2 d
            then (s2\<lparr>blob_files := AList.delete d (blob_files s2)\<rparr>, db + 1,
                  freed2 + file_len (blob_files s2) d)
            else (s2, db, freed2))
     in (s3, dn2, db3, freed3))"

definition MAX_FREE_PCT :: u64 where
  "MAX_FREE_PCT = 90"

text \<open>The guard of step 7: the percentage, when the run has to be refused.\<close>

definition frees_too_much :: "mmap_store \<Rightarrow> digest list \<Rightarrow> u64 option" where
  "frees_too_much s unreachable =
    (let unreachable_bytes = sum_list (map (file_len (node_files s)) unreachable);
         tot = total_bytes s
     in if tot > 100 * 1024 * 1024 then
          (let pct = unreachable_bytes * 100 div tot
           in if pct \<ge> MAX_FREE_PCT then Some pct else None)
        else None)"

definition total_mb :: "mmap_store \<Rightarrow> u64" where
  "total_mb s = total_bytes s div 1024 div 1024"

text \<open>Steps 6 to 8, after a successful mark phase.\<close>

definition sweep_phase ::
  "garbage_collector \<Rightarrow> mmap_store \<Rightarrow> digest list \<Rightarrow> digest list \<Rightarrow>
     (gc_error + gc_report) \<times> mmap_store" where
  "sweep_phase gc s all_digests nodes =
    (let unreachable = filter (\<lambda>d. d \<notin> set nodes) all_digests;
         refused = (if \<not> force gc \<and> length all_digests > 0
                    then frees_too_much s unreachable else None);
         report = default_report
           \<lparr>total_nodes := length all_digests,
            reachable_nodes := card (set nodes),
            unreachable_nodes := length unreachable\<rparr>
     in (case refused of
           Some pct \<Rightarrow>
             (Inl (WouldFreeTooMuch pct (total_mb s) MAX_FREE_PCT), s)
         | None \<Rightarrow>
             if dry_run gc then (Inr (report\<lparr>report_dry_run := True\<rparr>), s)
             else
               let (s2, dn, db, freed) = fold sweep_one unreachable (s, 0, 0, 0)
               in (Inr (report\<lparr>deleted_nodes := dn, deleted_blobs := db,
                                bytes_freed := freed\<rparr>), s2)))"

definition collect ::
  "ext \<Rightarrow> garbage_collector \<Rightarrow> nat \<Rightarrow> mmap_store \<Rightarrow> ops_dir \<Rightarrow> digest list \<Rightarrow>
     (gc_error + gc_report) \<times> mmap_store \<times> ops_dir" where
  "collect E gc now s ops roots =
    (if list_fresh_op_locks now ops \<noteq> [] \<and> \<not> force gc then (Inl ActiveOpLocks, s, ops)
     else
       let ops1 = (if \<not> dry_run gc then snd (clean_stale_op_locks now ops) else ops)
       in if roots = [] then (Inl EmptyRootSet, s, ops1)
          else
            (case List.find (\<lambda>r. \<not> exists_node s r) roots of
               Some r \<Rightarrow> (Inl (RootDigestMissing r), s, ops1)
             | None \<Rightarrow>
                 (case walk_reachable E s roots of
                    (Inl e, s1) \<Rightarrow>
                      (Inl (case e of Corrupted d _ \<Rightarrow> CorruptedNodeDuringWalk d
                                    | other \<Rightarrow> Store other), s1, ops1)
                  | (Inr (nodes, _), s1) \<Rightarrow>
                      let (r, s2) = sweep_phase gc s1 (list_all_node_digests E s) nodes
                      in (r, s2, ops1))))"

section \<open>Paths and digests\<close>

lemma shard_concat: "concat (shard E d) = as_hex E d"
  by (simp add: shard_def Let_def) (metis append_take_drop_id drop_drop numeral_Bit0)

lemma shard_hex: "p \<in> set (shard E d) \<Longrightarrow> set p \<subseteq> set (as_hex E d)"
  by (auto simp: shard_def Let_def dest: in_set_takeD in_set_dropD)

lemma shard_not_skipped:
  assumes "hex_ok E"
  shows "\<not> list_ex skipped_dir (shard E d)"
proof -
  have "\<not> skipped_dir p" if "p \<in> set (shard E d)" for p
  proof -
    have "set p \<subseteq> lower_hex"
      using shard_hex [OF that] hex_alphabet [OF assms] by (auto simp: as_hex_def)
    then show ?thesis by (auto simp: skipped_dir_def starts_with_iff lower_hex_def)
  qed
  then show ?thesis by (auto simp: list_ex_iff)
qed

lemma digest_from_path_for:
  assumes "hex_ok E" "wf_digest d"
  shows "digest_from_path E (path_for E s d) = Some d"
proof -
  obtain a b c where shard: "shard E d = [a, b, c]" unfolding shard_def Let_def by blast
  then have "a @ b @ c = as_hex E d" using shard_concat [of E d] by simp
  then show ?thesis
    using from_hex_as_hex [OF assms] by (simp add: digest_from_path_def path_for_def shard)
qed

lemma path_for_inject:
  assumes "hex_ok E"
  shows "path_for E s d = path_for E s d' \<longleftrightarrow> d = d'"
proof
  assume "path_for E s d = path_for E s d'"
  then have "concat (shard E d) = concat (shard E d')" by (simp add: path_for_def)
  then show "d = d'" using as_hex_inject [OF assms] by (simp add: shard_concat)
qed simp

definition wf_keys :: "mmap_store \<Rightarrow> bool" where
  "wf_keys s \<longleftrightarrow> (\<forall>d. node_exists s d \<longrightarrow> wf_digest d)"

lemma map_filter_comp_Some:
  "(\<And>x. x \<in> set xs \<Longrightarrow> f (g x) = Some x) \<Longrightarrow> List.map_filter f (map g xs) = xs"
  by (induction xs) auto

lemma map_filter_all_None:
  "(\<And>x. x \<in> set xs \<Longrightarrow> f (g x) = None) \<Longrightarrow> List.map_filter f (map g xs) = []"
  by (induction xs) auto

lemma map_filter_append: "List.map_filter f (xs @ ys) = List.map_filter f xs @ List.map_filter f ys"
  by (induction xs) (auto split: option.splits)

text \<open>The directory walk finds exactly the digests of the stored nodes.\<close>

lemma list_all_node_digests_eq:
  assumes "hex_ok E" "wf_keys s"
  shows "list_all_node_digests E s = map fst (node_files s)"
proof -
  let ?f = "\<lambda>path. if list_ex skipped_dir (butlast (drop (length (root s)) path)) then None
               else if last path = ''node.rkyv'' then digest_from_path E path else None"
  have nodes: "?f (path_for E s d) = Some d" if "d \<in> set (map fst (node_files s))" for d
  proof -
    have "wf_digest d" using that assms(2) by (simp add: wf_keys_def node_exists_def map_of_eq_None_iff)
    then show ?thesis
      using digest_from_path_for [OF assms(1), of d s] shard_not_skipped [OF assms(1), of d]
      by (simp add: path_for_def butlast_append)
  qed
  have "?f (path_for_blob E s d) = None" "?f (refcount_path E s d) = None" for d
    by (simp_all add: path_for_blob_def refcount_path_def)
  then show ?thesis
    using map_filter_comp_Some [of "map fst (node_files s)" ?f "path_for E s", OF nodes]
    by (simp add: list_all_node_digests_def walk_store_dir_def store_paths_def map_filter_append
        map_filter_all_None flip: map_map)
qed

section \<open>The sweep\<close>

definition drop_files :: "digest \<Rightarrow> mmap_store \<Rightarrow> mmap_store" where
  "drop_files d s = s\<lparr>cache := cache_remove d (cache s),
     node_files := AList.delete d (node_files s), blob_files := AList.delete d (blob_files s)\<rparr>"

lemma file_len_absent: "map_of fs d = None \<Longrightarrow> file_len fs d = 0"
  by (simp add: file_len_def)

lemma sweep_one_eq:
  "sweep_one d (s, dn, db, freed) =
     (drop_files d s, dn + of_bool (node_exists s d), db + of_bool (blob_exists s d),
      freed + (file_len (node_files s) d + file_len (blob_files s) d))"
  by (auto simp: sweep_one_def drop_files_def evict_cache_entry_def node_exists_def
      blob_exists_def Let_def delete_absent file_len_absent)

lemma drop_files_fields [simp]:
  "node_files (drop_files d s) = filter (\<lambda>(k, _). k \<noteq> d) (node_files s)"
  "blob_files (drop_files d s) = filter (\<lambda>(k, _). k \<noteq> d) (blob_files s)"
  "refcount_files (drop_files d s) = refcount_files s"
  "blob_cache (drop_files d s) = blob_cache s"
  "root (drop_files d s) = root s"
  "cache (drop_files d s) = cache_remove d (cache s)"
  by (auto simp: drop_files_def AList.delete_eq intro: filter_cong)

lemma drop_files_inv [inv_intros]: "store_inv s \<Longrightarrow> store_inv (drop_files d s)"
  unfolding store_inv_def drop_files_def
  by (auto simp: cache_remove_inv map_le_def)

lemma map_of_filter_keys:
  "map_of (filter (\<lambda>(k, _). P k) xs) d = (if P d then map_of xs d else None)"
  by (induction xs) auto

lemma file_len_filter:
  "x \<noteq> d \<Longrightarrow> file_len (filter (\<lambda>(k, _). k \<noteq> d) fs) x = file_len fs x"
  by (simp add: file_len_def map_of_filter_keys)

definition swept :: "digest set \<Rightarrow> mmap_store \<Rightarrow> mmap_store \<Rightarrow> bool" where
  "swept D s s' \<longleftrightarrow>
     node_files s' = filter (\<lambda>(k, _). k \<notin> D) (node_files s)
     \<and> blob_files s' = filter (\<lambda>(k, _). k \<notin> D) (blob_files s)
     \<and> refcount_files s' = refcount_files s \<and> root s' = root s \<and> blob_cache s' = blob_cache s"

lemma fold_sweep:
  assumes "distinct ds" "store_inv s"
  shows "\<exists>s'. fold sweep_one ds (s, dn, db, freed) =
      (s', dn + length (filter (node_exists s) ds), db + length (filter (blob_exists s) ds),
       freed + sum_list (map (\<lambda>d. file_len (node_files s) d + file_len (blob_files s) d) ds))
      \<and> swept (set ds) s s' \<and> store_inv s'"
  using assms
proof (induction ds arbitrary: s dn db freed)
  case Nil
  then show ?case by (simp add: swept_def case_prod_unfold)
next
  case (Cons d ds)
  let ?s = "drop_files d s"
  have other: "x \<noteq> d" if "x \<in> set ds" for x using that Cons.prems(1) by auto
  have exists: "filter (node_exists ?s) ds = filter (node_exists s) ds"
    "filter (blob_exists ?s) ds = filter (blob_exists s) ds"
    using Cons.prems(1)
    by (auto simp: node_exists_def blob_exists_def map_of_filter_keys intro!: filter_cong
        split: if_splits)
  have sizes: "map (\<lambda>d. file_len (node_files ?s) d + file_len (blob_files ?s) d) ds
      = map (\<lambda>d. file_len (node_files s) d + file_len (blob_files s) d) ds"
    using other by (simp add: file_len_filter)
  obtain s' where s': "fold sweep_one ds (?s, dn + of_bool (node_exists s d),
        db + of_bool (blob_exists s d),
        freed + (file_len (node_files s) d + file_len (blob_files s) d)) =
      (s', dn + of_bool (node_exists s d) + length (filter (node_exists s) ds),
       db + of_bool (blob_exists s d) + length (filter (blob_exists s) ds),
       freed + (file_len (node_files s) d + file_len (blob_files s) d)
         + sum_list (map (\<lambda>d. file_len (node_files s) d + file_len (blob_files s) d) ds))"
    and inv: "swept (set ds) ?s s'" "store_inv s'"
    using Cons.IH [of ?s] Cons.prems drop_files_inv [of s d] unfolding exists sizes by fastforce
  have "swept (set (d # ds)) s s'"
    using inv(1) by (auto simp: swept_def case_prod_unfold intro!: filter_cong)
  then show ?case using s' inv(2) by (auto simp: sweep_one_eq add.assoc)
qed

section \<open>What a run does\<close>

definition unreachable_of :: "ext \<Rightarrow> mmap_store \<Rightarrow> digest list \<Rightarrow> digest list" where
  "unreachable_of E s roots = filter (\<lambda>d. d \<notin> reachable E s roots) (map fst (node_files s))"

definition files_of :: "mmap_store \<Rightarrow> (digest \<times> bytes) list \<times> (digest \<times> bytes) list \<times> (digest \<times> bytes) list"
  where "files_of s = (node_files s, blob_files s, refcount_files s)"

definition swept_report :: "ext \<Rightarrow> mmap_store \<Rightarrow> digest list \<Rightarrow> gc_report" where
  "swept_report E s roots =
    (let dead = unreachable_of E s roots
     in \<lparr>total_nodes = length (node_files s),
         reachable_nodes = card (reachable E s roots),
         unreachable_nodes = length dead,
         deleted_nodes = length dead,
         deleted_blobs = length (filter (blob_exists s) dead),
         bytes_freed =
           sum_list (map (\<lambda>d. file_len (node_files s) d + file_len (blob_files s) d) dead),
         report_dry_run = False\<rparr>)"

definition dry_report :: "ext \<Rightarrow> mmap_store \<Rightarrow> digest list \<Rightarrow> gc_report" where
  "dry_report E s roots =
     (swept_report E s roots)
       \<lparr>deleted_nodes := 0, deleted_blobs := 0, bytes_freed := 0, report_dry_run := True\<rparr>"

lemma unreachable_node_exists:
  "filter (node_exists s) (unreachable_of E s roots) = unreachable_of E s roots"
proof -
  have "\<forall>d \<in> set (unreachable_of E s roots). node_exists s d"
    by (simp add: unreachable_of_def node_exists_def map_of_eq_None_iff)
  then show ?thesis by (simp add: filter_id_conv)
qed

lemma sweep_phase_cases:
  assumes "store_inv s" "set nodes = reachable E s roots"
    and "sweep_phase gc s (map fst (node_files s)) nodes = (r, s')"
  obtains (refused) pct where
      "r = Inl (WouldFreeTooMuch pct (total_mb s) MAX_FREE_PCT)" "s' = s"
      "frees_too_much s (unreachable_of E s roots) = Some pct" "\<not> force gc"
  | (dry) "r = Inr (dry_report E s roots)" "s' = s" "dry_run gc"
  | (swept) "r = Inr (swept_report E s roots)" "swept (set (unreachable_of E s roots)) s s'"
      "store_inv s'" "\<not> dry_run gc"
proof -
  let ?dead = "unreachable_of E s roots"
  have dead: "filter (\<lambda>d. d \<notin> set nodes) (map fst (node_files s)) = ?dead"
    by (simp add: unreachable_of_def assms(2))
  have "distinct ?dead" using assms(1) by (simp add: unreachable_of_def store_inv_def)
  from fold_sweep [OF this assms(1), of 0 0 0]
  obtain s2 where s2: "fold sweep_one ?dead (s, 0, 0, 0) =
      (s2, length ?dead, length (filter (blob_exists s) ?dead),
       sum_list (map (\<lambda>d. file_len (node_files s) d + file_len (blob_files s) d) ?dead))"
    "swept (set ?dead) s s2" "store_inv s2"
    unfolding unreachable_node_exists add_0 by blast
  define refusal where
    "refusal = (if \<not> force gc \<and> length (node_files s) > 0 then frees_too_much s ?dead else None)"
  have phase: "sweep_phase gc s (map fst (node_files s)) nodes =
      (case refusal of
         Some pct \<Rightarrow> (Inl (WouldFreeTooMuch pct (total_mb s) MAX_FREE_PCT), s)
       | None \<Rightarrow> if dry_run gc then (Inr (dry_report E s roots), s)
                else (Inr (swept_report E s roots), s2))"
    unfolding sweep_phase_def dead Let_def s2(1) prod.case
    unfolding refusal_def default_report_def dry_report_def swept_report_def Let_def length_map
      assms(2)
    by (simp split: option.split)
  show thesis
  proof (cases refusal)
    case (Some pct)
    then have "frees_too_much s ?dead = Some pct" "\<not> force gc"
      unfolding refusal_def by (cases "force gc"; cases "node_files s"; simp)+
    moreover have "r = Inl (WouldFreeTooMuch pct (total_mb s) MAX_FREE_PCT)" "s' = s"
      using assms(3) unfolding phase Some by auto
    ultimately show thesis using refused by blast
  next
    case None
    note phase' = assms(3) [unfolded phase None option.case]
    show thesis
    proof (cases "dry_run gc")
      case True
      have "r = Inr (dry_report E s roots)" "s' = s" using phase' True by auto
      then show thesis using True by (rule dry)
    next
      case False
      have "r = Inr (swept_report E s roots)" "s' = s2" using phase' False by auto
      then show thesis using s2(2,3) False by (intro swept) simp_all
    qed
  qed
qed

lemma only_cache_total_nodes: "only_cache s s' \<Longrightarrow> files_of s' = files_of s"
  by (simp add: files_of_def only_cacheD [of s s'])

lemma only_cache_reports:
  assumes "only_cache s s'"
  shows "swept_report E s' = swept_report E s" "dry_report E s' = dry_report E s"
    "unreachable_of E s' = unreachable_of E s" "swept D s' = swept D s"
  by (simp_all add: fun_eq_iff swept_report_def dry_report_def unreachable_of_def swept_def
      only_cacheD [OF assms])

lemma collect_cases:
  assumes "hex_ok E" "wf_keys s" "store_inv s"
    and "collect E gc now s ops roots = (r, s', ops')"
  obtains (error) e where "r = Inl e" "only_cache s s'" "store_inv s'"
  | (dry) "r = Inr (dry_report E s roots)" "only_cache s s'" "store_inv s'" "dry_run gc"
      "roots \<noteq> []" "\<forall>r \<in> set roots. node_exists s r"
      "\<forall>d \<in> reachable E s roots. \<exists>n. node_view E s d = Inr n"
  | (swept) "r = Inr (swept_report E s roots)" "swept (set (unreachable_of E s roots)) s s'"
      "store_inv s'" "\<not> dry_run gc"
      "roots \<noteq> []" "\<forall>r \<in> set roots. node_exists s r"
      "\<forall>d \<in> reachable E s roots. \<exists>n. node_view E s d = Inr n"
proof -
  consider (stop) e where "r = Inl e" "s' = s"
    | (walk) "roots \<noteq> []" "List.find (\<lambda>r. \<not> exists_node s r) roots = None"
        "\<not> (list_fresh_op_locks now ops \<noteq> [] \<and> \<not> force gc)"
    using assms(4) unfolding collect_def Let_def by (auto split: if_splits option.splits)
  then show thesis
  proof cases
    case stop
    then show thesis using error assms(3) by simp
  next
    case walk
    have roots: "\<forall>r \<in> set roots. node_exists s r"
      using walk(2) assms(3) by (auto simp: find_None_iff)
    obtain w s1 where w: "walk_reachable E s roots = (w, s1)" by fastforce
    note wr = walk_reachable_result [OF assms(3), of E roots, unfolded w fst_conv snd_conv]
    note same = only_cacheD [OF wr(3)] only_cache_reports [OF wr(3)]
    show thesis
    proof (cases w)
      case (Inl e)
      then show thesis
        using error wr(2,3) walk assms(4) unfolding collect_def Let_def w by auto
    next
      case (Inr p)
      then obtain nodes blobs where p: "w = Inr (nodes, blobs)" by (cases p) auto
      have nodes: "set nodes = reachable E s1 roots"
        "\<forall>d \<in> reachable E s roots. \<exists>n. node_view E s d = Inr n"
        using wr(1) unfolding p walk_result_def by (simp_all add: same)
      have "sweep_phase gc s1 (map fst (node_files s1)) nodes = (r, s')"
        using assms(4) walk unfolding collect_def Let_def w p
          list_all_node_digests_eq [OF assms(1,2)] same(1)
        by (auto split: prod.splits)
      from wr(2) nodes(1) this show thesis
      proof (cases rule: sweep_phase_cases)
        case refused
        then show thesis using error wr by simp
      next
        case dry
        then show thesis using that(2) wr walk roots nodes same by simp
      next
        case swept
        then show thesis using that(3) wr walk roots nodes same by simp
      qed
    qed
  qed
qed

end
