(* ===== verification/Reference_Crates.thy ===== *)
theory Reference_Crates
  imports Digest Op_Lock
begin

text \<open>
  A concrete instance of the external crates: a hexadecimal codec, a byte codec
  for nodes and a 32-byte digest function that is not cryptographic (it pads or
  cuts its input).  It satisfies \<^const>\<open>hex_ok\<close>, \<^const>\<open>sha_ok\<close> and
  \<^const>\<open>rkyv_ok\<close>, so these hypotheses can hold together, and it computes, so
  the examples of the development evaluate.
\<close>

definition ref_hex_encode :: "bytes \<Rightarrow> string" where
  "ref_hex_encode bs =
     concat (map (\<lambda>b. [hex_digit (unat b div 16), hex_digit (unat b mod 16)]) bs)"

definition hex_char_value :: "char \<Rightarrow> nat option" where
  "hex_char_value c = List.find (\<lambda>k. hex_digit k = c) [0..<16]"

fun ref_hex_decode :: "string \<Rightarrow> string + bytes" where
  "ref_hex_decode [] = Inr []"
| "ref_hex_decode [c] = Inl ''Odd number of digits''"
| "ref_hex_decode (c # d # s) =
    (case (hex_char_value c, hex_char_value d) of
       (Some h, Some l) \<Rightarrow>
         (case ref_hex_decode s of Inl e \<Rightarrow> Inl e | Inr bs \<Rightarrow> Inr (word_of_nat (16 * h + l) # bs))
     | _ \<Rightarrow> Inl ''Invalid character'')"

fun kind_byte :: "node_kind \<Rightarrow> byte" where
  "kind_byte Blob = 0"
| "kind_byte Tree = 1"
| "kind_byte Layer = 2"
| "kind_byte Manifest = 3"
| "kind_byte ManifestList = 4"
| "kind_byte Whiteout = 5"
| "kind_byte OpaqueDir = 6"

definition all_kinds :: "node_kind list" where
  "all_kinds = [Blob, Tree, Layer, Manifest, ManifestList, Whiteout, OpaqueDir]"

fun enc_edges :: "digest list \<Rightarrow> bytes" where
  "enc_edges [] = [0]"
| "enc_edges (Digest b # es) = 1 # b @ enc_edges es"

fun dec_edges :: "nat \<Rightarrow> bytes \<Rightarrow> (digest list \<times> bytes) option" where
  "dec_edges n [] = None"
| "dec_edges 0 (t # bs) = (if t = 0 then Some ([], bs) else None)"
| "dec_edges (Suc n) (t # bs) =
    (if t = 0 then Some ([], bs)
     else case dec_edges n (drop 32 bs) of
            None \<Rightarrow> None
          | Some (es, rest) \<Rightarrow> Some (Digest (take 32 bs) # es, rest))"

definition ref_to_bytes :: "dag_node \<Rightarrow> string + bytes" where
  "ref_to_bytes n = Inr (kind_byte (kind n) # enc_edges (edges n) @ inline_data n)"

definition ref_check :: "bytes \<Rightarrow> string + dag_node" where
  "ref_check bs =
    (case bs of
       [] \<Rightarrow> Inl ''empty''
     | t # rest \<Rightarrow>
         (case (List.find (\<lambda>k. kind_byte k = t) all_kinds, dec_edges (length rest) rest) of
            (Some k, Some (es, data)) \<Rightarrow> Inr \<lparr>kind = k, edges = es, inline_data = data\<rparr>
          | _ \<Rightarrow> Inl ''invalid archive''))"

definition ref_sha :: "bytes \<Rightarrow> bytes" where
  "ref_sha bs = take 32 (bs @ replicate 32 0)"

definition ref_ext :: ext where
  "ref_ext =
    \<lparr>sha256 = ref_sha, sha512 = (\<lambda>bs. take 64 (bs @ replicate 64 0)),
     hex_encode = ref_hex_encode, hex_decode = ref_hex_decode,
     rkyv_to_bytes = ref_to_bytes, rkyv_check = ref_check\<rparr>"

section \<open>The hypotheses hold\<close>

lemma hex_char_value_ok: "k < 16 \<Longrightarrow> hex_char_value (hex_digit k) = Some k"
proof -
  have "list_all (\<lambda>k. hex_char_value (hex_digit k) = Some k) [0..<16]" by code_simp
  then show "k < 16 \<Longrightarrow> hex_char_value (hex_digit k) = Some k" by (simp add: list_all_iff)
qed

lemma hex_digit_lower: "k < 16 \<Longrightarrow> hex_digit k \<in> lower_hex"
  unfolding hex_digit_def lower_hex_def by (rule nth_mem) simp

lemma unat_byte_less: "unat (b :: byte) < 256"
  using unsigned_less [of b, where ?'a=nat] by simp

lemma ref_hex_roundtrip: "ref_hex_decode (ref_hex_encode bs) = Inr bs"
proof (induction bs)
  case (Cons b bs)
  have "unat b div 16 < 16" "unat b mod 16 < 16" using unat_byte_less [of b] by auto
  with Cons show ?case by (simp add: ref_hex_encode_def hex_char_value_ok)
qed (simp add: ref_hex_encode_def)

lemma ref_hex_ok: "hex_ok ref_ext"
proof -
  have "length (ref_hex_encode bs) = 2 * length bs" "set (ref_hex_encode bs) \<subseteq> lower_hex" for bs
  proof (induction bs)
    case (Cons b bs)
    have "unat b div 16 < 16" "unat b mod 16 < 16" using unat_byte_less [of b] by auto
    with Cons show "length (ref_hex_encode (b # bs)) = 2 * length (b # bs)"
      "set (ref_hex_encode (b # bs)) \<subseteq> lower_hex"
      by (auto simp: ref_hex_encode_def hex_digit_lower)
  qed (simp_all add: ref_hex_encode_def)
  then show ?thesis by (simp add: hex_ok_def ref_ext_def ref_hex_roundtrip)
qed

lemma ref_sha_ok: "sha_ok ref_ext"
  by (simp add: sha_ok_def ref_ext_def ref_sha_def min_def)

lemma find_kind: "List.find (\<lambda>k'. kind_byte k' = kind_byte k) all_kinds = Some k"
  by (cases k) (simp_all add: all_kinds_def)

lemma dec_enc_edges:
  "list_all wf_digest es \<Longrightarrow> length es \<le> n \<Longrightarrow> dec_edges n (enc_edges es @ data) = Some (es, data)"
proof (induction es arbitrary: n)
  case Nil
  then show ?case by (cases n) auto
next
  case (Cons e es)
  then obtain m where "n = Suc m" by (cases n) auto
  moreover obtain b where "e = Digest b" "length b = 32"
    using Cons.prems by (cases e) (auto simp: wf_digest_def)
  ultimately show ?case using Cons by simp
qed

lemma length_enc_edges: "length es \<le> length (enc_edges es @ data)"
proof (induction es)
  case (Cons e es)
  then show ?case by (cases e) auto
qed simp

lemma ref_rkyv_ok: "rkyv_ok ref_ext"
  by (auto simp: rkyv_ok_def ref_ext_def ref_to_bytes_def ref_check_def find_kind wf_node_def
      dec_enc_edges length_enc_edges simp del: length_append)

lemmas ref_ext_ok = ref_hex_ok ref_sha_ok ref_rkyv_ok

end
