(* ===== verification/Sample_Store.thy ===== *)
theory Sample_Store
  imports Store_Laws Reference_Crates
begin

text \<open>
  A small store built with the operations of the model: a leaf blob, a manifest
  that points to it, and a blob nothing points to.  The witnesses evaluate the
  operations on it.
\<close>

definition leaf_node :: dag_node where
  "leaf_node = blob_node [7]"

definition leaf_digest :: digest where
  "leaf_digest = compute ref_ext (0 # enc_edges [] @ [7])"

definition top_node :: dag_node where
  "top_node = manifest_node [leaf_digest] [9]"

definition top_digest :: digest where
  "top_digest = compute ref_ext (3 # enc_edges [leaf_digest] @ [9])"

definition junk_node :: dag_node where
  "junk_node = blob_node [8]"

definition junk_digest :: digest where
  "junk_digest = compute ref_ext (0 # enc_edges [] @ [8])"

definition put3 :: "mmap_store \<Rightarrow> dag_node \<Rightarrow> dag_node \<Rightarrow> dag_node \<Rightarrow> mmap_store" where
  "put3 s a b c = snd (put ref_ext (snd (put ref_ext (snd (put ref_ext s a)) b)) c)"

definition sample_store :: mmap_store where
  "sample_store = put3 (new_unbounded [''store'']) leaf_node top_node junk_node"

lemma sample_inv: "store_inv sample_store"
  by (simp add: sample_store_def put3_def put_inv new_unbounded_inv)

lemma sample_nodes: "map fst (node_files sample_store) = [leaf_digest, top_digest, junk_digest]"
  by code_simp

lemma sample_exists: "node_exists sample_store d \<longleftrightarrow> d \<in> {leaf_digest, top_digest, junk_digest}"
proof -
  have "node_exists sample_store d \<longleftrightarrow> d \<in> set (map fst (node_files sample_store))"
    by (simp add: node_exists_def map_of_eq_None_iff)
  then show ?thesis by (simp add: sample_nodes)
qed

lemma sample_view:
  "node_view ref_ext sample_store leaf_digest = Inr leaf_node"
  "node_view ref_ext sample_store top_digest = Inr top_node"
  "node_view ref_ext sample_store junk_digest = Inr junk_node"
  by code_simp+

lemma sample_reachable: "reachable ref_ext sample_store [top_digest] = {top_digest, leaf_digest}"
proof
  have top: "node_kids ref_ext sample_store top_digest = [leaf_digest]"
    by (simp add: node_kids_def sample_view top_node_def manifest_node_def)
  have leaf: "node_kids ref_ext sample_store leaf_digest = []"
    by (simp add: node_kids_def sample_view leaf_node_def blob_node_def)
  show "reachable ref_ext sample_store [top_digest] \<subseteq> {top_digest, leaf_digest}"
    unfolding reachable_def by (rule reach_closed) (auto simp: top leaf)
  have "top_digest \<in> reachable ref_ext sample_store [top_digest]"
    unfolding reachable_def by (rule reach_root) (simp_all add: sample_exists)
  moreover from this have "leaf_digest \<in> reachable ref_ext sample_store [top_digest]"
    unfolding reachable_def by (rule reach_step) (simp_all add: sample_exists top)
  ultimately show "{top_digest, leaf_digest} \<subseteq> reachable ref_ext sample_store [top_digest]"
    by simp
qed

lemma sample_distinct: "distinct [leaf_digest, top_digest, junk_digest]"
  by code_simp

end
