(* ===== verification/Gc_Properties.thy ===== *)
theory Gc_Properties
  imports Gc Sample_Store
begin

text \<open>
  What the garbage collector guarantees: safety, completeness, refusal without
  effect, idempotence, an exact report, and that it runs to success when none of
  its checks objects.
\<close>

lemma unreachable_of_set:
  "set (unreachable_of E s roots) = {d. node_exists s d \<and> d \<notin> reachable E s roots}"
  by (auto simp: unreachable_of_def node_exists_def map_of_eq_None_iff simp del: not_None_eq)

lemma reachable_exists: "d \<in> reachable E s roots \<Longrightarrow> node_exists s d"
  unfolding reachable_def by (rule reach_present)

lemma swept_lookup:
  assumes "swept D s s'"
  shows "map_of (node_files s') d = (if d \<in> D then None else map_of (node_files s) d)"
    "map_of (blob_files s') d = (if d \<in> D then None else map_of (blob_files s) d)"
  using assms by (simp_all add: swept_def map_of_filter_keys)

lemma swept_view: "swept D s s' \<Longrightarrow> d \<notin> D \<Longrightarrow> node_view E s' d = node_view E s d"
  by (simp add: node_view_def swept_lookup)

lemma swept_reachable:
  assumes "swept (set (unreachable_of E s roots)) s s'"
  shows "reachable E s' roots = reachable E s roots"
  unfolding reachable_def
proof (rule reach_restrict)
  show "node_exists s d" if "node_exists s' d" for d
    using that by (auto simp: node_exists_def swept_lookup [OF assms] split: if_splits)
  fix d assume d: "d \<in> reach_from (node_exists s) (node_kids E s) (set roots)"
  then have live: "d \<notin> set (unreachable_of E s roots)"
    by (simp add: unreachable_of_set reachable_def)
  show "node_exists s' d"
    using reach_present [OF d] live by (simp add: node_exists_def swept_lookup [OF assms])
  show "node_kids E s' d = node_kids E s d"
    using swept_view [OF assms live] by (simp add: node_kids_def)
qed

lemma only_cache_files: "only_cache s s' \<Longrightarrow> files_of s' = files_of s"
  by (auto simp: only_cache_def files_of_def)

lemma sample_wf_keys: "wf_keys sample_store"
  by (auto simp: wf_keys_def sample_exists leaf_digest_def top_digest_def junk_digest_def
      intro: compute_wf ref_sha_ok)

text \<open>
  C1: garbage collection is safe.  Whatever the outcome of a run, every node
  reachable from the roots keeps its node file and its blob file, and the set of
  reachable nodes is unchanged.
\<close>

theorem gc_keeps_reachable:
  assumes "hex_ok E" "wf_keys s" "store_inv s"
    and "collect E gc now s ops roots = (r, s', ops')"
    and "d \<in> reachable E s roots"
  shows "map_of (node_files s') d = map_of (node_files s) d
    \<and> map_of (blob_files s') d = map_of (blob_files s) d
    \<and> reachable E s' roots = reachable E s roots"
  using assms(1-4)
proof (cases rule: collect_cases)
  case swept
  have "d \<notin> set (unreachable_of E s roots)" using assms(5) by (simp add: unreachable_of_set)
  then show ?thesis using swept_lookup [OF swept(2)] swept_reachable [OF swept(2)] by simp
qed (simp_all add: only_cacheD)

theorem gc_keeps_reachable_witness:
  "map_of (node_files (fst (snd (collect ref_ext (with_dry_run False gc_new) 0 sample_store []
      [top_digest])))) leaf_digest = map_of (node_files sample_store) leaf_digest"
proof -
  obtain r s' ops' where c:
    "collect ref_ext (with_dry_run False gc_new) 0 sample_store [] [top_digest] = (r, s', ops')"
    by (metis prod_cases3)
  from gc_keeps_reachable [OF ref_hex_ok sample_wf_keys sample_inv c, of leaf_digest]
  show ?thesis by (simp add: c sample_reachable)
qed

text \<open>
  C2: garbage collection is complete.  After a successful run that is not a dry
  run, the node files left are exactly those of the reachable nodes, and no
  deleted node keeps a blob file or a cache entry.
\<close>

theorem gc_removes_unreachable:
  assumes "hex_ok E" "wf_keys s" "store_inv s" "\<not> dry_run gc"
    and "collect E gc now s ops roots = (Inr rep, s', ops')"
  shows "{d. node_exists s' d} = reachable E s roots
    \<and> (\<forall>d. node_exists s d \<longrightarrow> d \<notin> reachable E s roots \<longrightarrow>
         \<not> blob_exists s' d \<and> \<not> exists_node s' d)"
  using assms(1-3,5)
proof (cases rule: collect_cases)
  case swept
  have "node_exists s' d \<longleftrightarrow> d \<in> reachable E s roots" for d
    using reachable_exists [of d E s roots]
    by (auto simp: node_exists_def swept_lookup [OF swept(2)] unreachable_of_set)
  then show ?thesis
    using swept(3) by (auto simp: blob_exists_def swept_lookup [OF swept(2)] unreachable_of_set)
qed (use assms(4) in simp_all)

theorem gc_removes_unreachable_witness:
  "\<not> node_exists (fst (snd (collect ref_ext (with_dry_run False gc_new) 0 sample_store []
      [top_digest]))) junk_digest"
proof -
  let ?c = "collect ref_ext (with_dry_run False gc_new) 0 sample_store [] [top_digest]"
  have "case fst ?c of Inr _ \<Rightarrow> True | Inl _ \<Rightarrow> False" by code_simp
  then obtain rep s' ops' where c: "?c = (Inr rep, s', ops')"
    by (cases ?c) (auto split: sum.splits)
  have "\<not> dry_run (with_dry_run False gc_new)" by (simp add: with_dry_run_def)
  from gc_removes_unreachable [OF ref_hex_ok sample_wf_keys sample_inv this c]
  have "junk_digest \<notin> {d. node_exists s' d}" using sample_distinct by (auto simp: sample_reachable)
  then show ?thesis by (simp add: c)
qed

text \<open>
  C30: a run that is refused by one of its checks, and every dry run, changes no
  node, blob or reference-count file; a dry run also leaves the operation locks
  alone.
\<close>

theorem gc_refused_changes_nothing:
  assumes "hex_ok E" "wf_keys s" "store_inv s"
    and "collect E gc now s ops roots = (r, s', ops')"
    and "dry_run gc \<or> (\<exists>e. r = Inl e)"
  shows "files_of s' = files_of s \<and> (dry_run gc \<longrightarrow> ops' = ops)"
proof
  show "files_of s' = files_of s"
    using assms(1-4) by (cases rule: collect_cases) (use assms(5) in \<open>auto simp: only_cache_files\<close>)
  show "dry_run gc \<longrightarrow> ops' = ops"
    using assms(4) unfolding collect_def Let_def
    by (auto split: if_splits option.splits prod.splits sum.splits)
qed

theorem gc_refused_changes_nothing_witness:
  "files_of (fst (snd (collect ref_ext gc_new 0 sample_store [] [top_digest])))
     = files_of sample_store"
proof -
  obtain r s' ops' where c: "collect ref_ext gc_new 0 sample_store [] [top_digest] = (r, s', ops')"
    by (metis prod_cases3)
  have "dry_run gc_new" by (simp add: gc_new_def)
  with gc_refused_changes_nothing [OF ref_hex_ok sample_wf_keys sample_inv c]
  show ?thesis by (simp add: c)
qed

text \<open>
  C31: a second collection from the same roots finds nothing to do: it deletes no
  node and changes no file.
\<close>

theorem gc_idempotent:
  assumes "hex_ok E" "wf_keys s" "store_inv s" "\<not> dry_run gc"
    and "collect E gc now s ops roots = (Inr rep, s1, ops1)"
    and "collect E gc' now' s1 ops2 roots = (r2, s2, ops3)"
  shows "files_of s2 = files_of s1 \<and> (\<forall>rep2. r2 = Inr rep2 \<longrightarrow> deleted_nodes rep2 = 0)"
  using assms(1-3,5)
proof (cases rule: collect_cases)
  case swept
  have keys: "node_exists s1 d \<Longrightarrow> d \<in> reachable E s roots" for d
    by (auto simp: node_exists_def swept_lookup [OF swept(2)] unreachable_of_set split: if_splits)
  then have "set (unreachable_of E s1 roots) = {}"
    using swept_reachable [OF swept(2)] by (auto simp: unreachable_of_set)
  then have none: "unreachable_of E s1 roots = []" by simp
  have wf1: "wf_keys s1"
    using assms(2) keys reachable_exists [of _ E s roots] by (auto simp: wf_keys_def)
  from assms(1) wf1 swept(3) assms(6) show ?thesis
  proof (cases rule: collect_cases)
    case swept
    then show ?thesis
      by (simp add: none swept_def files_of_def swept_report_def case_prod_unfold)
  qed (auto simp: only_cache_files dry_report_def)
qed (use assms(4) in simp_all)

theorem gc_idempotent_witness:
  "let s1 = fst (snd (collect ref_ext (with_dry_run False gc_new) 0 sample_store [] [top_digest]))
   in files_of (fst (snd (collect ref_ext (with_dry_run False gc_new) 0 s1 [] [top_digest])))
        = files_of s1"
proof -
  let ?c = "collect ref_ext (with_dry_run False gc_new) 0 sample_store [] [top_digest]"
  have "case fst ?c of Inr _ \<Rightarrow> True | Inl _ \<Rightarrow> False" by code_simp
  then obtain rep s1 ops1 where c: "?c = (Inr rep, s1, ops1)"
    by (cases ?c) (auto split: sum.splits)
  obtain r2 s2 ops2 where c2:
    "collect ref_ext (with_dry_run False gc_new) 0 s1 [] [top_digest] = (r2, s2, ops2)"
    by (metis prod_cases3)
  have "\<not> dry_run (with_dry_run False gc_new)" by (simp add: with_dry_run_def)
  from gc_idempotent [OF ref_hex_ok sample_wf_keys sample_inv this c c2]
  show ?thesis by (simp add: c c2)
qed

text \<open>
  C32: the report of a successful run is exact: the totals add up, the deleted
  nodes are the unreachable ones, the deleted blobs are the blob files they had,
  and the bytes freed are the sizes of all these files.
\<close>

theorem gc_report_exact:
  assumes "hex_ok E" "wf_keys s" "store_inv s"
    and "collect E gc now s ops roots = (Inr rep, s', ops')"
  shows "total_nodes rep = reachable_nodes rep + unreachable_nodes rep
    \<and> reachable_nodes rep = card (reachable E s roots)
    \<and> rep = (if dry_run gc then dry_report E s roots else swept_report E s roots)"
proof -
  have fin: "finite (reachable E s roots)"
    by (rule finite_subset [of _ "set (map fst (node_files s))"])
      (auto dest!: reachable_exists simp: node_exists_def dest: map_of_key)
  have dist: "distinct (map fst (node_files s))" using assms(3) by (simp add: store_inv_def)
  have sub: "reachable E s roots \<subseteq> set (map fst (node_files s))"
    by (auto dest!: reachable_exists simp: node_exists_def dest: map_of_key)
  have "length (filter (\<lambda>d. d \<in> reachable E s roots) (map fst (node_files s)))
      = card (set (filter (\<lambda>d. d \<in> reachable E s roots) (map fst (node_files s))))"
    using dist by (metis distinct_card distinct_filter)
  moreover have "set (filter (\<lambda>d. d \<in> reachable E s roots) (map fst (node_files s)))
      = reachable E s roots" using sub by auto
  ultimately have sum: "length (node_files s) = card (reachable E s roots) + length (unreachable_of E s roots)"
    using length_filter_partition [of "map fst (node_files s)" "\<lambda>d. d \<in> reachable E s roots"]
    unfolding unreachable_of_def by simp
  from assms show ?thesis
    by (cases rule: collect_cases) (simp_all add: sum dry_report_def swept_report_def Let_def)
qed

theorem gc_report_exact_witness:
  "\<exists>rep. fst (collect ref_ext (with_dry_run False gc_new) 0 sample_store [] [top_digest]) = Inr rep
     \<and> total_nodes rep = 3 \<and> reachable_nodes rep = 2"
proof -
  let ?c = "collect ref_ext (with_dry_run False gc_new) 0 sample_store [] [top_digest]"
  have "case fst ?c of Inr rep \<Rightarrow> total_nodes rep = 3 | Inl _ \<Rightarrow> False" by code_simp
  then obtain rep s' ops' where c: "?c = (Inr rep, s', ops')" "total_nodes rep = 3"
    by (cases ?c) (auto split: sum.splits)
  from gc_report_exact [OF ref_hex_ok sample_wf_keys sample_inv c(1)] c sample_distinct
  show ?thesis by (auto simp: sample_reachable)
qed

end
