(* ===== verification/Store_Refcount.thy ===== *)
theory Store_Refcount
  imports Store_Laws
begin

text \<open>
  Reference counting in the store: \<open>refs_ok E R s\<close> says that the count of every
  digest is the number of times it is tagged in \<open>R\<close> plus the number of edges
  that point to it from stored nodes.  Insertion, tagging and \<^const>\<open>remove_tag\<close>
  keep it; \<^const>\<open>remove_tag\<close> deletes no node a remaining tag reaches.
\<close>

definition refcount :: "mmap_store \<Rightarrow> digest \<Rightarrow> nat" where
  "refcount s d = (case get_refcount s d of Inr n \<Rightarrow> unat n | Inl _ \<Rightarrow> 0)"

definition rc_wf :: "mmap_store \<Rightarrow> bool" where
  "rc_wf s \<longleftrightarrow> (\<forall>d. \<exists>n. get_refcount s d = Inr n)"

definition indegree :: "ext \<Rightarrow> mmap_store \<Rightarrow> digest \<Rightarrow> nat" where
  "indegree E s d = sum_list (map (\<lambda>k. count_list (node_kids E s k) d) (map fst (node_files s)))"

definition refs_ok :: "ext \<Rightarrow> digest list \<Rightarrow> mmap_store \<Rightarrow> bool" where
  "refs_ok E R s \<longleftrightarrow> rc_wf s \<and> (\<forall>d. refcount s d = count_list R d + indegree E s d)"

section \<open>Single counts\<close>

lemma get_refcount_cong:
  "map_of (refcount_files s) d = map_of (refcount_files s') d \<Longrightarrow> get_refcount s d = get_refcount s' d"
  by (simp add: get_refcount_def)

lemma get_set_refcount:
  "get_refcount (set_refcount s d n) x = (if x = d then Inr n else get_refcount s x)"
  by (auto simp: get_refcount_def set_refcount_def)

lemma rc_wf_get: "rc_wf s \<Longrightarrow> get_refcount s d = Inr (word_of_nat (refcount s d))"
  by (auto simp: rc_wf_def refcount_def dest: spec [of _ d])

lemma refcount_less: "refcount s d < 2 ^ 64"
  by (cases "get_refcount s d") (simp_all only: refcount_def sum.case unat_u64_less zero_less_power zero_less_numeral)

lemma set_refcount_wf: "rc_wf s \<Longrightarrow> rc_wf (set_refcount s d n)"
  by (simp add: rc_wf_def get_set_refcount)

lemma refcount_set: "refcount (set_refcount s d n) x = (if x = d then unat n else refcount s x)"
  by (simp add: refcount_def get_set_refcount)

lemma increment_step:
  assumes "rc_wf s" "refcount s d + 1 < 2 ^ 64"
  shows "rc_wf (snd (increment_refcount s d))"
    "refcount (snd (increment_refcount s d)) x = refcount s x + (if x = d then 1 else 0)"
    "fst (increment_refcount s d) = Inr (word_of_nat (refcount s d + 1))"
proof -
  have "word_of_nat (refcount s d) + 1 = (word_of_nat (refcount s d + 1) :: u64)" by simp
  then have u: "unat (word_of_nat (refcount s d) + 1 :: u64) = refcount s d + 1"
    using unat_word_of_nat_u64 [OF assms(2)] by (simp only:)
  show "rc_wf (snd (increment_refcount s d))"
    "refcount (snd (increment_refcount s d)) x = refcount s x + (if x = d then 1 else 0)"
    "fst (increment_refcount s d) = Inr (word_of_nat (refcount s d + 1))"
    using assms u
    by (simp_all add: increment_refcount_def rc_wf_get Let_def set_refcount_wf refcount_set)
qed

lemma unat_pred: "(w :: u64) \<noteq> 0 \<Longrightarrow> unat (w - 1) = unat w - 1"
  by (metis One_nat_def unat_minus_one)

lemma decrement_step:
  assumes "rc_wf s"
  shows "rc_wf (snd (decrement_refcount s d))"
    "refcount (snd (decrement_refcount s d)) x = refcount s x - (if x = d then 1 else 0)"
    "fst (decrement_refcount s d) = Inr (word_of_nat (refcount s d - 1))"
proof -
  define w :: u64 where "w = word_of_nat (refcount s d)"
  have g: "get_refcount s d = Inr w" using assms by (simp add: w_def rc_wf_get)
  have w: "unat w = refcount s d" using g by (simp add: refcount_def)
  define v where "v = (if w = 0 then 0 else w - 1)"
  have v: "unat v = refcount s d - 1" using w unat_pred [of w] by (auto simp: v_def)
  have "word_of_nat (unat v) = v" by simp
  then have v2: "word_of_nat (refcount s d - 1) = v" unfolding v .
  have eq: "decrement_refcount s d = (Inr v, set_refcount s d v)"
    using g by (simp add: decrement_refcount_def v_def Let_def)
  show "rc_wf (snd (decrement_refcount s d))"
    "refcount (snd (decrement_refcount s d)) x = refcount s x - (if x = d then 1 else 0)"
    "fst (decrement_refcount s d) = Inr (word_of_nat (refcount s d - 1))"
    using assms v v2 by (auto simp: eq set_refcount_wf refcount_set)
qed

section \<open>Several counts\<close>

lemma increment_edges_refcount:
  assumes "rc_wf s" "\<forall>x. refcount s x + count_list es x < 2 ^ 64"
  shows "rc_wf (increment_edges s es) \<and>
    (\<forall>x. refcount (increment_edges s es) x = refcount s x + count_list es x)"
  using assms
proof (induction es arbitrary: s)
  case Nil
  then show ?case by (simp add: increment_edges_def)
next
  case (Cons e es)
  let ?s = "snd (increment_refcount s e)"
  have "refcount s e + 1 < 2 ^ 64" using Cons.prems(2) by (auto dest: spec [of _ e])
  note step = increment_step [OF Cons.prems(1) this]
  have "refcount ?s x + count_list es x = refcount s x + count_list (e # es) x" for x
    by (simp add: step(2))
  then have "\<forall>x. refcount ?s x + count_list es x < 2 ^ 64" using Cons.prems(2) by simp
  from Cons.IH [OF step(1) this] show ?case
    by (auto simp: increment_edges_def step(2))
qed

lemma decrement_children_refcount:
  assumes "rc_wf s" "\<forall>x. count_list cs x \<le> refcount s x"
  shows "\<exists>zs s'. decrement_children s cs q = (Inr (q @ zs), s') \<and> rc_wf s'
    \<and> (\<forall>x. refcount s' x = refcount s x - count_list cs x)
    \<and> set zs = {x \<in> set cs. refcount s x = count_list cs x}"
  using assms
proof (induction cs arbitrary: s q)
  case Nil
  then show ?case by simp
next
  case (Cons c cs)
  obtain s1 where dec: "decrement_refcount s c = (Inr (word_of_nat (refcount s c - 1)), s1)"
    using decrement_step(3) [OF Cons.prems(1), of c] by (metis fst_conv surj_pair)
  note step = decrement_step(1,2) [OF Cons.prems(1), of c, unfolded dec snd_conv]
  have le: "count_list (c # cs) x \<le> refcount s x" for x using Cons.prems(2) by blast
  have rc: "\<forall>x. count_list cs x \<le> refcount s1 x"
  proof
    show "count_list cs x \<le> refcount s1 x" for x
      using le [of x] by (cases "x = c") (simp_all add: step(2))
  qed
  let ?q = "if word_of_nat (refcount s c - 1) = (0::u64) then q @ [c] else q"
  obtain zs s' where IH: "decrement_children s1 cs ?q = (Inr (?q @ zs), s')" "rc_wf s'"
    "\<forall>x. refcount s' x = refcount s1 x - count_list cs x"
    "set zs = {x \<in> set cs. refcount s1 x = count_list cs x}"
    using Cons.IH [OF step(1) rc, of ?q] by blast
  have u: "unat (word_of_nat (refcount s c - 1) :: u64) = refcount s c - 1"
    using refcount_less [of s c] by (intro unat_word_of_nat_u64) (rule less_imp_diff_less)
  have z: "word_of_nat (refcount s c - 1) = (0::u64) \<longleftrightarrow> refcount s c - 1 = 0"
    using unsigned_eq_0_iff [of "word_of_nat (refcount s c - 1) :: u64", where ?'a=nat]
    unfolding u by (rule sym)
  have pos: "1 \<le> refcount s c" using le [of c] by simp
  have eq: "decrement_children s (c # cs) q = (Inr (?q @ zs), s')"
    unfolding decrement_children.simps dec prod.case sum.case using IH(1) by simp
  have count: "\<forall>x. refcount s' x = refcount s x - count_list (c # cs) x"
    using IH(3) by (auto simp: step(2))
  have "\<exists>zs'. ?q @ zs = q @ zs' \<and> set zs' = {x \<in> set (c # cs). refcount s x = count_list (c # cs) x}"
  proof (cases "refcount s c - 1 = 0")
    case True
    then have "count_list cs c = 0" using spec [OF rc, of c] by (simp add: step(2))
    moreover from this have "c \<notin> set cs" by (simp add: count_list_0_iff)
    moreover have "refcount s c = 1" using True pos by linarith
    ultimately have "x \<in> set (c # zs) \<longleftrightarrow> x \<in> set (c # cs) \<and> refcount s x = count_list (c # cs) x"
      for x using IH(4) by (cases "x = c") (simp_all add: step(2))
    then have "set (c # zs) = {x \<in> set (c # cs). refcount s x = count_list (c # cs) x}" by blast
    then show ?thesis using True z by (intro exI [of _ "c # zs"]) simp
  next
    case False
    have "c \<in> set cs" if "refcount s c = count_list (c # cs) c"
      using that False by (auto simp: count_list_0_iff intro: ccontr)
    then have "set zs = {x \<in> set (c # cs). refcount s x = count_list (c # cs) x}"
      using IH(4) False by (auto simp: step(2))
    then show ?thesis using False z by simp
  qed
  then obtain zs' where "?q @ zs = q @ zs'"
    "set zs' = {x \<in> set (c # cs). refcount s x = count_list (c # cs) x}" by blast
  then show ?case using eq IH(2) count by (intro exI [of _ zs'] exI [of _ s']) simp
qed

section \<open>Edges into a digest\<close>

lemma sum_list_split:
  "distinct ks \<Longrightarrow> k \<in> set ks \<Longrightarrow>
     sum_list (map f ks) = f k + (sum_list (map f (filter (\<lambda>x. x \<noteq> k) ks)) :: nat)"
proof (induction ks)
  case (Cons a ks)
  show ?case
  proof (cases "a = k")
    case True
    have "filter (\<lambda>x. x \<noteq> k) ks = ks" by (rule filter_True) (use True Cons.prems in auto)
    then show ?thesis using True by simp
  next
    case False
    then show ?thesis using Cons by simp
  qed
qed simp

lemma node_exists_key: "node_exists s d \<longleftrightarrow> d \<in> set (map fst (node_files s))"
  by (simp add: node_exists_def map_of_eq_None_iff)

lemma node_view_cong:
  "map_of (node_files s') d = map_of (node_files s) d \<Longrightarrow> node_view E s' d = node_view E s d"
  by (simp add: node_view_def)

lemma node_kids_cong:
  "map_of (node_files s') d = map_of (node_files s) d \<Longrightarrow> node_kids E s' d = node_kids E s d"
  by (simp add: node_kids_def node_view_cong [of s' d s])

lemma indegree_cong: "node_files s' = node_files s \<Longrightarrow> indegree E s' d = indegree E s d"
  by (simp add: indegree_def node_kids_cong [of s' _ s])

lemma indegree_delete:
  assumes "store_inv s" "node_exists s d" "node_files s' = AList.delete d (node_files s)"
  shows "indegree E s x = count_list (node_kids E s d) x + indegree E s' x"
proof -
  have keys: "map fst (node_files s') = filter (\<lambda>k. k \<noteq> d) (map fst (node_files s))"
    by (simp add: assms(3) map_fst_delete)
  have "node_kids E s' k = node_kids E s k" if "k \<noteq> d" for k
    by (rule node_kids_cong) (simp add: assms(3) that)
  then have "indegree E s' x = sum_list (map (\<lambda>k. count_list (node_kids E s k) x)
      (filter (\<lambda>k. k \<noteq> d) (map fst (node_files s))))"
    unfolding indegree_def keys by (intro arg_cong [where f = sum_list] map_cong) auto
  then show ?thesis
    using sum_list_split [of "map fst (node_files s)" d "\<lambda>k. count_list (node_kids E s k) x"] assms(1,2)
    by (simp add: indegree_def store_inv_def node_exists_key)
qed

lemma indegree_add:
  assumes "\<not> node_exists s d" "node_files s' = AList.update d b (node_files s)"
  shows "indegree E s' x = indegree E s x + count_list (node_kids E s' d) x"
proof -
  have none: "map_of (node_files s) d = None" using assms(1) by (simp add: node_exists_def)
  have keys: "map fst (node_files s') = map fst (node_files s) @ [d]"
    by (simp add: assms(2) update_fresh [OF none])
  have "node_kids E s' k = node_kids E s k" if "k \<in> set (map fst (node_files s))" for k
  proof (rule node_kids_cong)
    have "k \<noteq> d" using that assms(1) node_exists_key by auto
    then show "map_of (node_files s') k = map_of (node_files s) k" by (simp add: assms(2))
  qed
  then have "map (\<lambda>k. count_list (node_kids E s' k) x) (map fst (node_files s))
      = map (\<lambda>k. count_list (node_kids E s k) x) (map fst (node_files s))"
    by (intro map_cong) auto
  then show ?thesis unfolding indegree_def keys map_append sum_list_append by (simp only:) simp
qed

lemma indegree_pos:
  assumes "node_exists s p" "d \<in> set (node_kids E s p)"
  shows "0 < indegree E s d"
proof -
  have "0 < count_list (node_kids E s p) d" using assms(2) by (simp add: count_list_0_iff zero_less_iff_neq_zero)
  moreover have "count_list (node_kids E s p) d \<le> indegree E s d"
    unfolding indegree_def using assms(1)
    by (intro member_le_sum_list) (auto simp: node_exists_key)
  ultimately show ?thesis by simp
qed

section \<open>Insertion and tagging keep the counts exact\<close>

lemma refcount_cong: "refcount_files s' = refcount_files s \<Longrightarrow> refcount s' d = refcount s d"
  by (simp add: refcount_def get_refcount_def)

lemma rc_wf_cong: "refcount_files s' = refcount_files s \<Longrightarrow> rc_wf s' = rc_wf s"
  by (simp add: rc_wf_def get_refcount_def)

lemma put_refs:
  assumes "rkyv_ok E" "wf_node n" "store_inv s" "refs_ok E R s" "put E s n = (Inr d, s')"
    and fits: "\<forall>x. refcount s x + count_list (edges n) x < 2 ^ 64"
  shows "refs_ok E R s'"
  using assms(5)
proof (cases rule: put_cases)
  case (new b)
  let ?s1 = "s\<lparr>node_files := AList.update (compute E b) b (node_files s)\<rparr>"
  have view: "node_kids E ?s1 (compute E b) = edges n"
    using assms(1,2) new(1) by (auto simp: node_kids_def node_view_def guard_new_def rkyv_ok_def)
  have rc1: "rc_wf ?s1" "\<And>x. refcount ?s1 x = refcount s x"
    using assms(4) by (simp_all add: refs_ok_def rc_wf_cong [of ?s1 s] refcount_cong [of ?s1 s])
  have inc: "rc_wf s'" "\<And>x. refcount s' x = refcount s x + count_list (edges n) x"
    using increment_edges_refcount [OF rc1(1), of "edges n"] fits new(4) by (auto simp: rc1(2))
  have "indegree E s' x = indegree E s x + count_list (edges n) x" for x
    using indegree_add [OF new(3), of ?s1 b E x] indegree_cong [of s' ?s1 E x]
    by (simp add: view new(4))
  then show ?thesis using inc assms(4) by (simp add: refs_ok_def)
qed (use assms(4) in simp_all)

lemma tag_refs:
  assumes "refs_ok E R s" "refcount s d + 1 < 2 ^ 64"
  shows "refs_ok E (d # R) (snd (increment_refcount s d))"
  using increment_step [of s d] assms indegree_cong [of "snd (increment_refcount s d)" s E]
  by (auto simp: refs_ok_def)

section \<open>Removing a tag\<close>

lemma delete_node_fields [simp]:
  "node_files (delete_node s d) = AList.delete d (node_files s)"
  "blob_files (delete_node s d) = AList.delete d (blob_files s)"
  "refcount_files (delete_node s d) = AList.delete d (refcount_files s)"
  "cache (delete_node s d) = cache_remove d (cache s)"
  "blob_cache (delete_node s d) = blob_cache s"
  "root (delete_node s d) = root s"
  by (simp_all add: delete_node_def evict_cache_entry_def Let_def)

lemma delete_node_inv [inv_intros]: "store_inv s \<Longrightarrow> store_inv (delete_node s d)"
  by (simp add: store_inv_def cache_remove_inv map_le_def)

lemma delete_node_rc:
  "rc_wf s \<Longrightarrow> rc_wf (delete_node s d)"
  "refcount (delete_node s d) x = (if x = d then 0 else refcount s x)"
  by (auto simp: rc_wf_def refcount_def get_refcount_def)

lemma store_inv_refcounts:
  "store_inv s \<Longrightarrow> distinct (map fst rc) \<Longrightarrow> store_inv (s\<lparr>refcount_files := rc\<rparr>)"
  by (simp add: store_inv_def)

lemma decrement_refcount_inv [inv_intros]:
  "store_inv s \<Longrightarrow> store_inv (snd (decrement_refcount s d))"
  by (auto simp: decrement_refcount_def Let_def set_refcount_inv split: sum.splits)

lemma decrement_children_inv [inv_intros]:
  "store_inv s \<Longrightarrow> store_inv (snd (decrement_children s cs q))"
proof (induction s cs q rule: decrement_children.induct)
  case (2 s c cs q)
  then show ?case using decrement_refcount_inv [of s c]
    by (auto split: prod.splits sum.splits)
qed simp

text \<open>The loop invariant: exact counts, and everything queued has count zero.\<close>

definition tag_inv :: "ext \<Rightarrow> digest list \<Rightarrow> mmap_store \<Rightarrow> digest list \<Rightarrow> bool" where
  "tag_inv E R s Q \<longleftrightarrow> store_inv s \<and> refs_ok E R s \<and> (\<forall>q \<in> set Q. refcount s q = 0)"

lemma zero_count_unreached:
  assumes "refs_ok E R s" "refcount s d = 0"
  shows "d \<notin> reachable E s R"
proof
  assume "d \<in> reachable E s R"
  then have "d \<in> set R \<or> 0 < indegree E s d"
    unfolding reachable_def
  proof (cases rule: reach_from.cases)
    case (reach_step p)
    then show ?thesis using indegree_pos [of s p d E] reach_present [OF reach_step(1)] by simp
  qed simp
  then show False using assms by (auto simp: refs_ok_def count_list_0_iff)
qed

lemma remove_step:
  assumes inv: "tag_inv E R s (d # Q)" and d: "node_exists s d"
    and ga: "get_archived E s d = (Inr n, s1)"
  obtains zs s2 where "decrement_children s1 (edges n) Q = (Inr (Q @ zs), s2)"
    "tag_inv E R (delete_node s2 d) (Q @ zs)"
    "node_files (delete_node s2 d) = AList.delete d (node_files s)"
    "blob_files (delete_node s2 d) = AList.delete d (blob_files s)"
    "\<And>x. node_exists (delete_node s2 d) x \<Longrightarrow> refcount (delete_node s2 d) x = 0 \<Longrightarrow>
       refcount s x = 0 \<or> x \<in> set zs"
proof -
  have si: "store_inv s" and ro: "refs_ok E R s" and d0: "refcount s d = 0"
    using inv by (auto simp: tag_inv_def)
  note view = get_archived_view [OF si ga]
  note same = only_cacheD [OF view(3)]
  have kids: "node_kids E s d = edges n" using view(1) [symmetric] by (simp add: node_kids_def)
  have rc1: "rc_wf s1" "\<And>x. refcount s1 x = refcount s x"
    using ro same(3) by (simp_all add: refs_ok_def rc_wf_cong [of s1 s] refcount_cong [of s1 s])
  have deg: "indegree E s x = count_list (edges n) x + indegree E s' x"
    if "node_files s' = AList.delete d (node_files s)" for s' x
    using indegree_delete [OF si d that, of E x] kids by simp
  have le: "\<forall>x. count_list (edges n) x \<le> refcount s1 x"
    using ro deg [of "delete_node s d"] by (simp add: refs_ok_def rc1(2))
  from decrement_children_refcount [OF rc1(1) le, of Q]
  obtain zs s2 where dc: "decrement_children s1 (edges n) Q = (Inr (Q @ zs), s2)" "rc_wf s2"
    "\<forall>x. refcount s2 x = refcount s x - count_list (edges n) x"
    "set zs = {x \<in> set (edges n). refcount s x = count_list (edges n) x}"
    unfolding rc1(2) by blast
  let ?s3 = "delete_node s2 d"
  have files: "node_files ?s3 = AList.delete d (node_files s)"
    "blob_files ?s3 = AList.delete d (blob_files s)"
    using decrement_children_files [OF dc(1)] same by simp_all
  have self: "count_list (edges n) d = 0 \<and> count_list R d = 0 \<and> indegree E ?s3 d = 0"
    using ro d0 deg [OF files(1), of d] by (simp add: refs_ok_def)
  have rc3: "refcount ?s3 x = refcount s x - count_list (edges n) x" for x
    using dc(3) d0 by (simp add: delete_node_rc(2))
  have "refs_ok E R ?s3"
    using ro delete_node_rc(1) [OF dc(2)] deg [OF files(1)] by (simp add: refs_ok_def rc3)
  moreover have "store_inv ?s3"
    using decrement_children_inv [OF view(2), of "edges n" Q] dc(1) by (simp add: delete_node_inv)
  moreover have "\<forall>q \<in> set (Q @ zs). refcount ?s3 q = 0"
    using inv dc(4) by (auto simp: tag_inv_def rc3)
  ultimately have "tag_inv E R ?s3 (Q @ zs)" by (simp add: tag_inv_def)
  moreover have "refcount s x = 0 \<or> x \<in> set zs" if "refcount ?s3 x = 0" for x
  proof (cases "x \<in> set (edges n)")
    case True
    then show ?thesis using that le dc(4) by (auto simp: rc3 rc1(2) dest: spec [of _ x])
  next
    case False
    then have "count_list (edges n) x = 0" by (simp add: count_list_0_iff)
    then show ?thesis using that by (simp add: rc3)
  qed
  ultimately show thesis using that dc(1) files by blast
qed

text \<open>What a removal keeps of the nodes the tags \<open>R\<close> reach.\<close>

definition keeps_reachable :: "ext \<Rightarrow> digest list \<Rightarrow> mmap_store \<Rightarrow> mmap_store \<Rightarrow> bool" where
  "keeps_reachable E R s s' \<longleftrightarrow>
     reachable E s' R = reachable E s R
     \<and> (\<forall>d \<in> reachable E s R. map_of (node_files s') d = map_of (node_files s) d
          \<and> map_of (blob_files s') d = map_of (blob_files s) d)
     \<and> (\<forall>d. node_exists s' d \<longrightarrow> map_of (node_files s') d = map_of (node_files s) d)"

lemma keeps_reachable_refl: "keeps_reachable E R s s"
  by (simp add: keeps_reachable_def)

lemma keeps_reachable_trans:
  "keeps_reachable E R s s' \<Longrightarrow> keeps_reachable E R s' s'' \<Longrightarrow> keeps_reachable E R s s''"
  unfolding keeps_reachable_def node_exists_def by metis

lemma delete_unreached:
  assumes "node_files s' = AList.delete d (node_files s)" "blob_files s' = AList.delete d (blob_files s)"
    and "d \<notin> reachable E s R"
  shows "keeps_reachable E R s s'"
proof -
  have "reachable E s' R = reachable E s R"
    unfolding reachable_def
  proof (rule reach_restrict)
    show "node_exists s x" if "node_exists s' x" for x
      using that by (auto simp: node_exists_def assms(1) split: if_splits)
    fix x assume x: "x \<in> reach_from (node_exists s) (node_kids E s) (set R)"
    then have "x \<noteq> d" using assms(3) by (auto simp: reachable_def)
    then show "node_exists s' x" "node_kids E s' x = node_kids E s x"
      using reach_present [OF x] by (auto simp: node_exists_def assms(1) intro: node_kids_cong)
  qed
  then show ?thesis
    using assms by (auto simp: keeps_reachable_def node_exists_def)
qed

definition all_valid :: "ext \<Rightarrow> mmap_store \<Rightarrow> bool" where
  "all_valid E s \<longleftrightarrow> (\<forall>d. node_exists s d \<longrightarrow> (\<exists>n. node_view E s d = Inr n))"

lemma all_valid_delete:
  assumes "all_valid E s" "node_files s' = AList.delete d (node_files s)"
  shows "all_valid E s'"
  using assms by (auto simp: all_valid_def node_exists_def node_view_def split: if_splits)

lemma remove_tag_loop_ok:
  "tag_inv E R s Q \<Longrightarrow> all_valid E s \<Longrightarrow> \<forall>d \<in> deleted. \<not> node_exists s d \<Longrightarrow>
   \<forall>d. node_exists s d \<longrightarrow> refcount s d = 0 \<longrightarrow> d \<in> set Q \<Longrightarrow>
   \<exists>freed' s'. remove_tag_loop E s deleted Q freed = (Inr freed', s') \<and> tag_inv E R s' []
     \<and> (\<forall>d. node_exists s' d \<longrightarrow> 0 < refcount s' d) \<and> keeps_reachable E R s s'"
proof (induction E s deleted Q freed rule: remove_tag_loop.induct)
  case (1 E s deleted freed)
  then show ?case by (auto simp: keeps_reachable_refl)
next
  case (2 E s deleted d Q freed)
  have skip: "tag_inv E R s Q" using "2.prems"(1) by (simp add: tag_inv_def)
  consider (seen) "d \<in> deleted" | (missing) "d \<notin> deleted" "\<not> node_exists s d"
    | (present) "d \<notin> deleted" "node_exists s d" by blast
  then show ?case
  proof cases
    case seen
    have "\<forall>x. node_exists s x \<longrightarrow> refcount s x = 0 \<longrightarrow> x \<in> set Q" using seen 2 by auto
    then show ?thesis using 2 seen skip by simp
  next
    case missing
    have "\<forall>x. node_exists s x \<longrightarrow> refcount s x = 0 \<longrightarrow> x \<in> set Q"
      "\<forall>x \<in> insert d deleted. \<not> node_exists s x" using missing 2 by auto
    then show ?thesis using 2 missing skip by simp
  next
    case present
    obtain r s1 where ga: "get_archived E s d = (r, s1)" by fastforce
    have "store_inv s" using "2.prems"(1) by (simp add: tag_inv_def)
    note view = get_archived_view [OF this ga]
    obtain n where n: "r = Inr n" using "2.prems"(2) present view(1) by (auto simp: all_valid_def)
    obtain zs s2 where step: "decrement_children s1 (edges n) Q = (Inr (Q @ zs), s2)"
      "tag_inv E R (delete_node s2 d) (Q @ zs)"
      "node_files (delete_node s2 d) = AList.delete d (node_files s)"
      "blob_files (delete_node s2 d) = AList.delete d (blob_files s)"
      "\<And>x. node_exists (delete_node s2 d) x \<Longrightarrow> refcount (delete_node s2 d) x = 0 \<Longrightarrow>
         refcount s x = 0 \<or> x \<in> set zs"
      using remove_step [OF "2.prems"(1) present(2) ga [unfolded n]] by blast
    let ?s3 = "delete_node s2 d"
    have ex3: "node_exists ?s3 x \<longleftrightarrow> x \<noteq> d \<and> node_exists s x" for x
      unfolding node_exists_def step(3) by simp
    have "d \<notin> reachable E s R"
      using "2.prems"(1) by (intro zero_count_unreached) (auto simp: tag_inv_def)
    then have keep: "keeps_reachable E R s ?s3" by (rule delete_unreached [OF step(3,4)])
    have zero: "x \<in> set (Q @ zs)" if "node_exists ?s3 x" "refcount ?s3 x = 0" for x
      using step(5) [OF that] that(1) "2.prems"(4) by (auto simp: ex3)
    have pre: "all_valid E ?s3" "\<forall>x \<in> insert d deleted. \<not> node_exists ?s3 x"
      "\<forall>x. node_exists ?s3 x \<longrightarrow> refcount ?s3 x = 0 \<longrightarrow> x \<in> set (Q @ zs)"
      using all_valid_delete [OF "2.prems"(2) step(3)] "2.prems"(3) zero by (auto simp: ex3)
    define f3 where "f3 = freed + file_len (node_files s2) d + file_len (blob_files s2) d"
    have "remove_tag_loop E s deleted (d # Q) freed
        = remove_tag_loop E ?s3 (insert d deleted) (Q @ zs) f3"
      using present ga n step(1) by (simp add: f3_def)
    moreover have "\<exists>freed' s'. remove_tag_loop E ?s3 (insert d deleted) (Q @ zs) f3 = (Inr freed', s')
       \<and> tag_inv E R s' [] \<and> (\<forall>d. node_exists s' d \<longrightarrow> 0 < refcount s' d)
       \<and> keeps_reachable E R ?s3 s'"
      unfolding f3_def
      by (rule "2.IH"(4) [OF present(1) _ ga [symmetric] n step(1) [symmetric] refl])
        (use present step(2) pre in simp_all)
    ultimately show ?thesis using keeps_reachable_trans [OF keep] by auto
  qed
qed

lemma count_list_remove1:
  "r \<in> set R \<Longrightarrow> count_list (remove1 r R) x = count_list R x - (if x = r then 1 else 0)"
  by (induction R) (auto simp: count_list_0_iff)

lemma untag_refs:
  assumes "refs_ok E R s" "r \<in> set R"
  shows "refs_ok E (remove1 r R) (snd (decrement_refcount s r))"
proof -
  have rc: "rc_wf s" "\<And>x. refcount s x = count_list R x + indegree E s x"
    using assms(1) by (simp_all add: refs_ok_def)
  have pos: "1 \<le> count_list R r" using assms(2) by (metis count_list_0_iff less_one not_le)
  have "indegree E (snd (decrement_refcount s r)) x = indegree E s x" for x
    by (rule indegree_cong) simp
  then show ?thesis
    using decrement_step [OF rc(1), of r] pos
    by (auto simp: refs_ok_def rc(2) count_list_remove1 [OF assms(2)])
qed

lemma word_of_nat_pos: "n < 2 ^ 64 \<Longrightarrow> 0 < (word_of_nat n :: u64) \<longleftrightarrow> 0 < n"
  using unat_word_of_nat_u64 [of n] unsigned_eq_0_iff [of "word_of_nat n :: u64", where ?'a=nat]
  by (metis neq0_conv word_gt_0)

lemma remove_tag_ok:
  assumes "store_inv s" "refs_ok E R s" "r \<in> set R" "all_valid E s"
    and pos: "\<forall>d. node_exists s d \<longrightarrow> 0 < refcount s d"
  shows "\<exists>freed s'. remove_tag E s r = (Inr freed, s') \<and> store_inv s'
    \<and> refs_ok E (remove1 r R) s' \<and> (\<forall>d. node_exists s' d \<longrightarrow> 0 < refcount s' d)
    \<and> keeps_reachable E (remove1 r R) s s'"
proof -
  let ?R = "remove1 r R"
  have rc: "rc_wf s" using assms(2) by (simp add: refs_ok_def)
  obtain s1 where pair: "decrement_refcount s r = (Inr (word_of_nat (refcount s r - 1)), s1)"
    using decrement_step(3) [OF rc, of r] by (metis fst_conv surj_pair)
  note dec = decrement_step(2) [OF rc, of r, unfolded pair snd_conv]
  have less: "refcount s r - 1 < 2 ^ 64" using refcount_less [of s r] by (rule less_imp_diff_less)
  have inv: "store_inv s1" "refs_ok E ?R s1"
    using decrement_refcount_inv [OF assms(1), of r] untag_refs [OF assms(2,3)] pair by simp_all
  have files: "node_files s1 = node_files s" "blob_files s1 = blob_files s"
    using decrement_refcount_files(1,2) [of s r] pair by simp_all
  have views: "node_exists s1 = node_exists s" "node_kids E s1 = node_kids E s"
    "node_view E s1 = node_view E s"
    by (simp_all add: fun_eq_iff node_exists_def node_kids_def node_view_def files)
  have keep: "keeps_reachable E ?R s' = keeps_reachable E ?R s1" if "s' = s" for s'
    unfolding that fun_eq_iff keeps_reachable_def reachable_def views files by simp
  show ?thesis
  proof (cases "0 < refcount s r - 1")
    case True
    have "\<forall>d. node_exists s1 d \<longrightarrow> 0 < refcount s1 d" using pos True by (simp add: views dec)
    moreover have "remove_tag E s r = (Inr 0, s1)"
      unfolding remove_tag_def pair prod.case sum.case using True word_of_nat_pos [OF less] by simp
    ultimately show ?thesis using inv keep keeps_reachable_refl by auto
  next
    case False
    have "tag_inv E ?R s1 [r]" using inv False by (simp add: tag_inv_def dec)
    moreover have "all_valid E s1" using assms(4) by (simp add: all_valid_def views)
    moreover have "\<forall>d. node_exists s1 d \<longrightarrow> refcount s1 d = 0 \<longrightarrow> d \<in> set [r]"
      using pos by (auto simp: views dec split: if_splits)
    ultimately obtain freed s' where loop: "remove_tag_loop E s1 {} [r] 0 = (Inr freed, s')"
      "tag_inv E ?R s' []" "\<forall>d. node_exists s' d \<longrightarrow> 0 < refcount s' d" "keeps_reachable E ?R s1 s'"
      using remove_tag_loop_ok [of E ?R s1 "[r]" "{}" 0] by auto
    moreover have "remove_tag E s r = remove_tag_loop E s1 {} [r] 0"
      unfolding remove_tag_def pair prod.case sum.case using False word_of_nat_pos [OF less] by simp
    ultimately show ?thesis using keep by (auto simp: tag_inv_def)
  qed
qed

section \<open>Exact counts and reachability\<close>

definition edge_rel :: "ext \<Rightarrow> mmap_store \<Rightarrow> (digest \<times> digest) set" where
  "edge_rel E s = {(p, c). node_exists s p \<and> c \<in> set (node_kids E s p)}"

lemma finite_edge_rel: "finite (edge_rel E s)"
proof -
  have "edge_rel E s \<subseteq> (\<Union>p \<in> set (map fst (node_files s)). {p} \<times> set (node_kids E s p))"
    by (auto simp: edge_rel_def node_exists_key)
  then show ?thesis by (rule finite_subset) simp
qed

lemma indegree_parent:
  assumes "0 < indegree E s d"
  obtains p where "(p, d) \<in> edge_rel E s"
proof -
  have "sum_list (map (\<lambda>k. count_list (node_kids E s k) d) (map fst (node_files s))) \<noteq> 0"
    using assms by (simp only: indegree_def)
  then obtain p where "p \<in> set (map fst (node_files s))" "count_list (node_kids E s p) d \<noteq> 0"
    unfolding sum_list_eq_0_iff set_map by blast
  then show thesis using that by (auto simp: edge_rel_def node_exists_key count_list_0_iff)
qed

text \<open>In an acyclic store where every node is counted, every node is reachable from a tag.\<close>

lemma counted_reachable:
  assumes "refs_ok E R s" "\<forall>d. node_exists s d \<longrightarrow> 0 < refcount s d" "acyclic (edge_rel E s)"
  shows "node_exists s d \<Longrightarrow> d \<in> reachable E s R"
proof (induction d rule: wf_induct_rule [OF finite_acyclic_wf [OF finite_edge_rel assms(3)]])
  case (1 d)
  have "0 < count_list R d + indegree E s d" using assms(1,2) 1 by (simp add: refs_ok_def)
  then consider "d \<in> set R" | "0 < indegree E s d"
    by (metis add_is_0 count_list_0_iff neq0_conv)
  then show ?case
  proof cases
    case 1
    then show ?thesis using \<open>node_exists s d\<close> unfolding reachable_def by (intro reach_root) auto
  next
    case 2
    then obtain p where p: "(p, d) \<in> edge_rel E s" by (rule indegree_parent)
    then have "p \<in> reachable E s R" using 1 by (auto simp: edge_rel_def)
    then show ?thesis
      using p \<open>node_exists s d\<close> unfolding reachable_def edge_rel_def by (auto intro: reach_step)
  qed
qed

section \<open>Rebuilding the counts\<close>

definition edges_into :: "ext \<Rightarrow> mmap_store \<Rightarrow> digest list \<Rightarrow> digest \<Rightarrow> nat" where
  "edges_into E s N d = sum_list (map (\<lambda>p. count_list (node_kids E s p) d) N)"

text \<open>The table after the nodes \<open>N\<close> have been expanded.\<close>

definition counts_inv ::
  "ext \<Rightarrow> mmap_store \<Rightarrow> digest list \<Rightarrow> digest list \<Rightarrow> (digest \<times> u64) list \<Rightarrow> bool" where
  "counts_inv E s R N counts \<longleftrightarrow>
     distinct (map fst counts)
     \<and> (\<forall>d. count_of counts d =
          word_of_nat (count_list R d + (if node_exists s d then edges_into E s N d else 0)))
     \<and> (\<forall>d. map_of counts d \<noteq> None \<longleftrightarrow>
          d \<in> set R \<or> node_exists s d \<and> (\<exists>p \<in> set N. d \<in> set (node_kids E s p)))"

lemma count_of_bump: "count_of (bump x counts) d = count_of counts d + (if d = x then 1 else 0)"
  by (simp add: bump_def count_of_def)

lemma fold_bump:
  "distinct (map fst counts) \<Longrightarrow> distinct (map fst (fold bump cs counts))"
  "count_of (fold bump cs counts) d = count_of counts d + word_of_nat (count_list cs d)"
  "map_of (fold bump cs counts) d \<noteq> None \<longleftrightarrow> map_of counts d \<noteq> None \<or> d \<in> set cs"
proof (induction cs arbitrary: counts)
  case (Cons c cs)
  { case 1 then show ?case using Cons.IH(1) by (simp add: bump_def) }
  { case 2 then show ?case using Cons.IH(2) by (simp add: count_of_bump) }
  { case 3 then show ?case using Cons.IH(3) by (auto simp: bump_def) }
qed simp_all

lemma counts_inv_start: "counts_inv E s R [] (fold bump R [])"
  using fold_bump [where counts = "[]" and cs = R] by (auto simp: counts_inv_def edges_into_def count_of_def)

lemma count_list_filter: "count_list (filter P xs) d = (if P d then count_list xs d else 0)"
  by (induction xs) auto

lemma counts_inv_node:
  assumes "counts_inv E s R N counts" "node_kids E s p = es"
  shows "counts_inv E s R (N @ [p]) (fold bump (filter (node_exists s) es) counts)"
  using assms fold_bump [where counts = counts and cs = "filter (node_exists s) es"]
  by (auto simp: counts_inv_def edges_into_def count_list_filter)

lemma counts_inv_only_cache: "only_cache s s' \<Longrightarrow> counts_inv E s' = counts_inv E s"
  using only_cacheD [of s s'] unfolding fun_eq_iff counts_inv_def edges_into_def by simp

definition recompute_result ::
  "ext \<Rightarrow> mmap_store \<Rightarrow> digest list \<Rightarrow> store_error + (digest \<times> u64) list \<Rightarrow> bool" where
  "recompute_result E s R r =
    (case r of
       Inr counts \<Rightarrow> (\<exists>N. set N = reachable E s R \<and> distinct N \<and> counts_inv E s R N counts)
     | Inl e \<Rightarrow> (\<exists>d \<in> reachable E s R. \<exists>m. node_view E s d = Inl (Corrupted d m) \<and> e = Corrupted d m))"

lemma recompute_result_only_cache:
  assumes "only_cache s s'"
  shows "recompute_result E s' = recompute_result E s"
  unfolding fun_eq_iff recompute_result_def only_cacheD [OF assms] counts_inv_only_cache [OF assms] by simp

lemma recompute_loop_correct:
  "store_inv s \<Longrightarrow> walk_inv (node_exists s) (node_kids E s) (set R) V Q N \<Longrightarrow>
   counts_inv E s R N counts \<Longrightarrow>
   recompute_result E s R (fst (recompute_loop E s counts V Q))
     \<and> store_inv (snd (recompute_loop E s counts V Q)) \<and> only_cache s (snd (recompute_loop E s counts V Q))"
proof (induction E s counts V Q arbitrary: N rule: recompute_loop.induct)
  case (1 E s counts V)
  then show ?case
    using store_graph.walk_finish [OF "1.prems"(2)]
    by (auto simp: recompute_result_def reachable_def)
next
  case (2 E s counts V d Q)
  note inv = "2.prems"(2)
  obtain r s' where ga: "get_archived E s d = (r, s')" by fastforce
  note view = get_archived_view [OF "2.prems"(1) ga]
  note same = only_cacheD [OF view(3)]
  consider (seen) "d \<in> V" | (missing) "d \<notin> V" "\<not> node_exists s d"
    | (ok) n where "d \<notin> V" "node_exists s d" "node_view E s d = Inr n"
    | (bad) e where "d \<notin> V" "node_exists s d" "node_view E s d = Inl e"
    by (cases "node_view E s d") auto
  then show ?case
  proof cases
    case seen
    with 2 store_graph.walk_seen [OF inv] show ?thesis by simp
  next
    case missing
    with 2 store_graph.walk_missing [OF inv] show ?thesis by simp
  next
    case ok
    have kids: "node_kids E s d = edges n" by (simp add: node_kids_view ok(3))
    let ?cs = "filter (node_exists s) (edges n)"
    let ?counts = "fold bump ?cs counts"
    have "walk_inv (node_exists s') (node_kids E s') (set R) (insert d V) (Q @ ?cs) (N @ [d])"
      by (rule store_graph.walk_node [OF inv]) (auto simp: ok view(3) kids)
    moreover have "counts_inv E s' R (N @ [d]) ?counts"
      using counts_inv_node [OF "2.prems"(3) kids] by (simp add: counts_inv_only_cache [OF view(3)])
    ultimately have "recompute_result E s' R (fst (recompute_loop E s' ?counts (insert d V) (Q @ ?cs)))
        \<and> store_inv (snd (recompute_loop E s' ?counts (insert d V) (Q @ ?cs)))
        \<and> only_cache s' (snd (recompute_loop E s' ?counts (insert d V) (Q @ ?cs)))"
      using "2.IH"(4) [OF ok(1) _ ga [symmetric], of n ?cs "N @ [d]"] view ok same(6) by simp
    moreover have "recompute_loop E s counts V (d # Q) = recompute_loop E s' ?counts (insert d V) (Q @ ?cs)"
      using ok ga view same(6) by (simp add: Let_def)
    ultimately show ?thesis
      using only_cache_trans [OF view(3)] by (simp add: recompute_result_only_cache [OF view(3)])
  next
    case bad
    obtain m where e: "e = Corrupted d m" using node_view_error bad by blast
    have "d \<in> reachable E s R" using inv bad(2) by (simp add: walk_inv_def reachable_def)
    then show ?thesis using 2 bad e ga view by (auto simp: recompute_result_def)
  qed
qed

end
