(* ===== verification/Store_Properties.thy ===== *)
theory Store_Properties
  imports Store_Refcount Gc Sample_Store
begin

text \<open>
  What the store promises its clients: round trips, cache coherence and bounds,
  exact reachability walks, exact reference counts, and removal of a tag that
  deletes just what the other tags do not reach.
\<close>

section \<open>Nodes and paths\<close>



text \<open>
  The on-disk layout is collision free.  The node, blob and count paths of
  two digests coincide only if kind and digest do, and the collector's path
  parser maps a node path back to its digest.
\<close>

lemma store_paths_injective:
  assumes "hex_ok E"
  shows "(path_for E s d = path_for E s d' \<longleftrightarrow> d = d')
    \<and> (path_for_blob E s d = path_for_blob E s d' \<longleftrightarrow> d = d')
    \<and> (refcount_path E s d = refcount_path E s d' \<longleftrightarrow> d = d')
    \<and> path_for E s d \<noteq> path_for_blob E s d' \<and> path_for E s d \<noteq> refcount_path E s d'
    \<and> path_for_blob E s d \<noteq> refcount_path E s d'
    \<and> (wf_digest d \<longrightarrow> digest_from_path E (path_for E s d) = Some d)"
proof -
  have shard: "shard E d = shard E d' \<longleftrightarrow> d = d'"
    using as_hex_inject [OF assms] shard_concat [of E] by metis
  have len: "length (shard E d) = length (shard E d')" by (simp add: shard_def Let_def)
  have "root s @ shard E d @ [f] = root s @ shard E d' @ [f'] \<longleftrightarrow> d = d' \<and> f = f'" for f f'
    using shard len by simp
  then show ?thesis
    using digest_from_path_for [OF assms]
    by (simp add: path_for_def path_for_blob_def refcount_path_def shard)
qed

lemma store_paths_injective_witness:
  "path_for ref_ext sample_store leaf_digest \<noteq> path_for ref_ext sample_store top_digest
   \<and> digest_from_path ref_ext (path_for ref_ext sample_store leaf_digest) = Some leaf_digest"
proof -
  have "leaf_digest \<noteq> top_digest" "wf_digest leaf_digest" by code_simp+
  then show ?thesis
    using store_paths_injective [OF ref_hex_ok, of sample_store leaf_digest top_digest] by simp
qed

section \<open>Caches\<close>

text \<open>
  The node cache is transparent and bounded.  A read returns exactly the file
  on disk (or that it is missing) and keeps the invariant; with a bound \<open>m\<close> the
  cache holds at most \<open>m\<close> bytes before the file just read is added.
\<close>

lemma cached_read_bounded:
  assumes "store_inv s" "max_bytes (cache s) = Some m" "0 < m"
    and "get s d = (r, s')"
  shows "r = (case map_of (node_files s) d of None \<Rightarrow> Inl (NotFound d) | Some b \<Rightarrow> Inr b)
    \<and> store_inv s'
    \<and> (\<forall>b. r = Inr b \<longrightarrow>
         (\<exists>t \<le> m. total (cache s') = t \<or> total (cache s') = t + word_of_nat (length b)))"
proof -
  have r: "r = (case map_of (node_files s) d of None \<Rightarrow> Inl (NotFound d) | Some b \<Rightarrow> Inr b)"
    using node_read.rd_result [OF assms(1), of d] assms(4) by simp
  have inv: "store_inv s'" using get_inv [OF assms(1), of d] assms(4) by simp
  have ci: "cache_inv (cache s)" using assms(1) by (simp add: store_inv_def)
  have "\<exists>t \<le> m. total (cache s') = t \<or> total (cache s') = t + word_of_nat (length b)"
    if "r = Inr b" for b
  proof (cases "map_of (entries (cache s)) d")
    case None
    then have "cache s' = cache_load d b (cache s)"
      using assms(4) that by (auto simp: get_def load_node_from_disk_def split: option.splits)
    then show ?thesis
      using evict_lru_bound [OF ci assms(2,3)] by (auto simp: cache_load_total)
  next
    case (Some b')
    then have s': "cache s' = cache_touch d (cache s)" using assms(4) by (auto simp: get_def)
    have "cache_inv (cache s\<lparr>lru := remove1 d (lru (cache s)) @ [d]\<rparr>)"
      using ci map_of_key [OF Some] by (auto simp: cache_inv_def cache_parts_def)
    then show ?thesis
      using evict_lru_bound [of "cache s\<lparr>lru := remove1 d (lru (cache s)) @ [d]\<rparr>" m] assms(2,3)
      by (auto simp: s' cache_touch_def)
  qed
  then show ?thesis using r inv by blast
qed

lemma cached_read_bounded_witness:
  "fst (get (set_max_node_cache_bytes 4 sample_store) leaf_digest)
     = Inr (the (map_of (node_files sample_store) leaf_digest))"
proof -
  let ?s = "set_max_node_cache_bytes 4 sample_store"
  obtain r s' where g: "get ?s leaf_digest = (r, s')" by fastforce
  have "store_inv ?s" using sample_inv by (simp add: store_inv_def set_max_node_cache_bytes_def cache_inv_def)
  from cached_read_bounded [OF this _ _ g, of 4]
  have "r = (case map_of (node_files sample_store) leaf_digest of
      None \<Rightarrow> Inl (NotFound leaf_digest) | Some b \<Rightarrow> Inr b)"
    by (simp add: set_max_node_cache_bytes_def)
  moreover have "node_exists sample_store leaf_digest" by (simp add: sample_exists)
  ultimately show ?thesis by (auto simp: g node_exists_def)
qed

lemma delete_blob_cache: "remove_tag_loop E s del Q f = (r, s') \<Longrightarrow> blob_cache s' = blob_cache s"
proof (induction E s del Q f rule: remove_tag_loop.induct)
  case (2 E s del d Q f)
  obtain r1 s1 where ga: "get_archived E s d = (r1, s1)" by fastforce
  note ga' = get_archived_files [OF ga]
  show ?case
  proof (cases "d \<in> del \<or> \<not> node_exists s d")
    case True
    then show ?thesis using 2 by (auto split: if_splits)
  next
    case False
    show ?thesis
    proof (cases r1)
      case (Inl e)
      then show ?thesis using 2 False ga ga' by (cases e) auto
    next
      case (Inr n)
      obtain r2 s2 where dc: "decrement_children s1 (edges n) Q = (r2, s2)" by fastforce
      then show ?thesis
        using 2 False ga ga' Inr decrement_children_files [OF dc] by (cases r2) auto
    qed
  qed
qed simp

text \<open>
  The blob cache is not invalidated by removal: whatever a tag removal
  deletes, a blob that was cached before is still served afterwards.
\<close>

lemma remove_tag_keeps_blob_cache:
  assumes "map_of (entries (blob_cache s)) d = Some b"
  shows "fst (get_blob (snd (remove_tag E s r)) d) = Inr b"
proof -
  obtain r1 s1 where dr: "decrement_refcount s r = (r1, s1)" by fastforce
  then have s1: "blob_cache s1 = blob_cache s" using decrement_refcount_files(4) [of s r] by simp
  obtain r2 s2 where loop: "remove_tag_loop E s1 {} [r] 0 = (r2, s2)" by fastforce
  have "blob_cache (snd (remove_tag E s r)) = blob_cache s"
    using s1 delete_blob_cache [OF loop] by (cases r1) (auto simp: remove_tag_def dr loop simp del: remove_tag_loop.simps)
  then show ?thesis using assms by (simp add: get_blob_def)
qed

definition blob_sample :: mmap_store where
  "blob_sample = snd (get_blob (snd (put_blob sample_store junk_digest [5])) junk_digest)"

lemma remove_tag_keeps_blob_cache_witness:
  "\<not> blob_exists (snd (remove_tag ref_ext blob_sample junk_digest)) junk_digest
   \<and> fst (get_blob (snd (remove_tag ref_ext blob_sample junk_digest)) junk_digest) = Inr [5]"
proof
  show "\<not> blob_exists (snd (remove_tag ref_ext blob_sample junk_digest)) junk_digest" by code_simp
  have "map_of (entries (blob_cache blob_sample)) junk_digest = Some [5]" by code_simp
  then show "fst (get_blob (snd (remove_tag ref_ext blob_sample junk_digest)) junk_digest) = Inr [5]"
    by (rule remove_tag_keeps_blob_cache)
qed

section \<open>Walks\<close>



section \<open>Reference counts\<close>

text \<open>
  C8: removing a tag deletes exactly what the remaining tags do not reach.  With
  exact counts, no cycle and no garbage, \<open>remove_tag\<close> succeeds; the nodes left
  are those reachable from the remaining tags, with their node and blob files
  unchanged; and the counts are exact for the remaining tags.
\<close>

theorem remove_tag_exact:
  assumes "store_inv s" "refs_ok E R s" "r \<in> set R" "all_valid E s"
    and "\<forall>d. node_exists s d \<longrightarrow> 0 < refcount s d" and "acyclic (edge_rel E s)"
  shows "\<exists>freed s'. remove_tag E s r = (Inr freed, s')
    \<and> {d. node_exists s' d} = reachable E s (remove1 r R)
    \<and> (\<forall>d \<in> reachable E s (remove1 r R). map_of (node_files s') d = map_of (node_files s) d
         \<and> map_of (blob_files s') d = map_of (blob_files s) d)
    \<and> refs_ok E (remove1 r R) s' \<and> store_inv s'"
proof -
  from remove_tag_ok [OF assms(1-5)] obtain freed s' where
    rt: "remove_tag E s r = (Inr freed, s')" "store_inv s'" "refs_ok E (remove1 r R) s'"
      "\<forall>d. node_exists s' d \<longrightarrow> 0 < refcount s' d" "keeps_reachable E (remove1 r R) s s'"
    by blast
  have "edge_rel E s' \<subseteq> edge_rel E s"
  proof -
    have "node_exists s p" "node_kids E s p = node_kids E s' p" if "node_exists s' p" for p
    proof -
      have "map_of (node_files s) p = map_of (node_files s') p"
        using rt(5) that by (simp add: keeps_reachable_def)
      then show "node_exists s p" "node_kids E s p = node_kids E s' p"
        using that by (auto simp: node_exists_def intro: node_kids_cong)
    qed
    then show ?thesis by (auto simp: edge_rel_def)
  qed
  then have "acyclic (edge_rel E s')" using assms(6) acyclic_subset by blast
  then have "{d. node_exists s' d} = reachable E s' (remove1 r R)"
    using counted_reachable [OF rt(3,4)] by (auto simp: reachable_def dest: reach_present)
  then show ?thesis using rt by (auto simp: keeps_reachable_def)
qed

definition tagged_store :: mmap_store where
  "tagged_store =
     snd (increment_refcount (snd (increment_refcount sample_store top_digest)) junk_digest)"

lemma tagged_files: "node_files tagged_store = node_files sample_store"
  "blob_files tagged_store = blob_files sample_store" "cache tagged_store = cache sample_store"
  by (simp_all add: tagged_store_def)

lemma tagged_inv: "store_inv tagged_store"
  by (simp add: tagged_store_def increment_refcount_inv sample_inv)

lemma tagged_views:
  "node_exists tagged_store = node_exists sample_store"
  "node_view ref_ext tagged_store = node_view ref_ext sample_store"
  "node_kids ref_ext tagged_store = node_kids ref_ext sample_store"
  "reachable ref_ext tagged_store = reachable ref_ext sample_store"
proof -
  show ne: "node_exists tagged_store = node_exists sample_store"
    and nv: "node_view ref_ext tagged_store = node_view ref_ext sample_store"
    by (simp_all add: fun_eq_iff node_exists_def node_view_def tagged_files)
  show nk: "node_kids ref_ext tagged_store = node_kids ref_ext sample_store"
    by (simp add: fun_eq_iff node_kids_def nv)
  show "reachable ref_ext tagged_store = reachable ref_ext sample_store"
    by (simp add: fun_eq_iff reachable_def ne nk)
qed

lemma sample_kids:
  "node_kids ref_ext sample_store leaf_digest = []"
  "node_kids ref_ext sample_store top_digest = [leaf_digest]"
  "node_kids ref_ext sample_store junk_digest = []"
  by (simp_all add: node_kids_def sample_view leaf_node_def top_node_def junk_node_def
      blob_node_def manifest_node_def)

lemma tagged_refcounts:
  "refcount_files tagged_store =
     [(leaf_digest, u64_to_le_bytes 1), (top_digest, u64_to_le_bytes 1),
      (junk_digest, u64_to_le_bytes 1)]"
  by code_simp

lemma tagged_refcount:
  "get_refcount tagged_store d = Inr (if d \<in> {leaf_digest, top_digest, junk_digest} then 1 else 0)"
  by (simp add: get_refcount_def tagged_refcounts)

lemma tagged_refs: "refs_ok ref_ext [junk_digest, top_digest] tagged_store"
proof -
  have "indegree ref_ext tagged_store d = (if d = leaf_digest then 1 else 0)" for d
    unfolding indegree_def tagged_files tagged_views sample_nodes by (simp add: sample_kids)
  then show ?thesis
    using sample_distinct by (auto simp: refs_ok_def rc_wf_def refcount_def tagged_refcount)
qed

lemma sample_edges: "edge_rel ref_ext sample_store = {(top_digest, leaf_digest)}"
  by (auto simp: edge_rel_def sample_exists sample_kids)

lemma sample_acyclic: "acyclic (edge_rel ref_ext sample_store)"
  unfolding sample_edges using sample_distinct by (intro wf_acyclic) auto

theorem remove_tag_exact_witness:
  "\<exists>freed s'. remove_tag ref_ext tagged_store junk_digest = (Inr freed, s')
     \<and> {d. node_exists s' d} = {top_digest, leaf_digest}"
proof -
  have "all_valid ref_ext tagged_store"
    by (auto simp: all_valid_def tagged_views sample_exists sample_view)
  moreover have "\<forall>d. node_exists tagged_store d \<longrightarrow> 0 < refcount tagged_store d"
    by (simp add: tagged_views sample_exists refcount_def tagged_refcount)
  moreover have "acyclic (edge_rel ref_ext tagged_store)"
    using sample_acyclic by (simp add: edge_rel_def tagged_views)
  ultimately have "\<exists>freed s'. remove_tag ref_ext tagged_store junk_digest = (Inr freed, s')
      \<and> {d. node_exists s' d} = reachable ref_ext tagged_store (remove1 junk_digest [junk_digest, top_digest])"
    using remove_tag_exact [OF tagged_inv tagged_refs, of junk_digest] by auto
  then show ?thesis by (simp add: tagged_views sample_reachable)
qed

text \<open>
  C9: storing a node keeps the reference counts exact, whether the node is new
  or deduplicated.
\<close>

theorem put_keeps_refcounts:
  assumes "rkyv_ok E" "wf_node n" "store_inv s" "refs_ok E R s" "put E s n = (Inr d, s')"
    and "\<forall>x. refcount s x + count_list (edges n) x < 2 ^ 64"
  shows "refs_ok E R s' \<and> store_inv s'"
  using put_refs [OF assms] put_inv [OF assms(3), of E n] assms(5) by simp

theorem put_keeps_refcounts_witness:
  "refs_ok ref_ext [junk_digest, top_digest]
     (snd (put ref_ext tagged_store (tree_node [leaf_digest, leaf_digest] [1])))"
proof -
  let ?n = "tree_node [leaf_digest, leaf_digest] [1]"
  have wf: "wf_node ?n" by code_simp
  obtain d s' where p: "put ref_ext tagged_store ?n = (Inr d, s')"
    using put_total [OF ref_rkyv_ok wf] by blast
  have "\<forall>x. refcount tagged_store x + count_list (edges ?n) x < 2 ^ 64"
    by (simp add: refcount_def tagged_refcount tree_node_def)
  from put_keeps_refcounts [OF ref_rkyv_ok wf tagged_inv tagged_refs p this] show ?thesis by (simp add: p)
qed

lemma fold_set_refcount:
  "distinct (map fst counts) \<Longrightarrow>
     get_refcount (fold (\<lambda>(d, n) s. set_refcount s d n) counts s) x =
       (case map_of counts x of Some n \<Rightarrow> Inr n | None \<Rightarrow> get_refcount s x)"
proof (induction counts arbitrary: s)
  case (Cons p counts)
  obtain d n where p: "p = (d, n)" by (cases p)
  have IH: "get_refcount (fold (\<lambda>(d, n) s. set_refcount s d n) counts (set_refcount s d n)) x =
      (case map_of counts x of Some n \<Rightarrow> Inr n | None \<Rightarrow> get_refcount (set_refcount s d n) x)"
    by (rule Cons.IH) (use Cons.prems in simp)
  have "map_of counts d = None" using Cons.prems by (simp add: p map_of_eq_None_iff)
  then show ?case using IH by (cases "x = d") (simp_all add: p get_set_refcount split: option.split)
qed simp

text \<open>
  C33: rebuilding the counts is exact on the live graph and leaves the rest alone.
  The rebuild fails only on a corrupted reachable node.  Otherwise the count of
  every reachable node becomes its number of tags plus its incoming edges from
  reachable nodes (in 64-bit arithmetic), while a digest that is neither a root
  nor reachable keeps whatever count file it had.
\<close>

theorem recompute_exact:
  assumes "store_inv s" "recompute_all_refcounts E s R = (r, s')"
  shows "(case r of
      Inl e \<Rightarrow> \<exists>d \<in> reachable E s R. \<exists>m. node_view E s d = Inl (Corrupted d m) \<and> e = Corrupted d m
    | Inr _ \<Rightarrow>
        (\<forall>d \<in> reachable E s R. get_refcount s' d =
           Inr (word_of_nat (count_list R d + (\<Sum>p \<in> reachable E s R. count_list (node_kids E s p) d))))
        \<and> (\<forall>d. d \<notin> set R \<longrightarrow> d \<notin> reachable E s R \<longrightarrow> get_refcount s' d = get_refcount s d))"
proof -
  obtain r1 s1 where loop: "recompute_loop E s (fold bump R []) {} R = (r1, s1)" by fastforce
  note rc = recompute_loop_correct [OF assms(1) store_graph.walk_start counts_inv_start [of E s R],
      unfolded loop fst_conv snd_conv]
  show ?thesis
  proof (cases r1)
    case (Inl e)
    then show ?thesis using assms(2) rc by (auto simp: recompute_all_refcounts_def loop recompute_result_def)
  next
    case (Inr counts)
    then have r: "r = Inr ()" and s': "s' = fold (\<lambda>(d, n) s. set_refcount s d n) counts s1"
      using assms(2) by (auto simp: recompute_all_refcounts_def loop)
    obtain N where N: "set N = reachable E s R" "distinct N" "counts_inv E s R N counts"
      using rc Inr by (auto simp: recompute_result_def)
    have get: "get_refcount s' d = (case map_of counts d of Some n \<Rightarrow> Inr n | None \<Rightarrow> get_refcount s d)" for d
    proof -
      have "get_refcount s1 d = get_refcount s d"
        using only_cacheD(3) [of s s1] rc by (intro get_refcount_cong) simp
      then show ?thesis
        using fold_set_refcount [of counts s1 d] N(3) by (simp add: s' counts_inv_def split: option.split)
    qed
    have sum: "edges_into E s N d = (\<Sum>p \<in> reachable E s R. count_list (node_kids E s p) d)" for d
      using N(1,2) by (simp add: edges_into_def sum_list_distinct_conv_sum_set)
    have keys: "map_of counts d \<noteq> None \<longleftrightarrow>
        d \<in> set R \<or> node_exists s d \<and> (\<exists>p \<in> reachable E s R. d \<in> set (node_kids E s p))" for d
      using N(3) unfolding counts_inv_def N(1) by blast
    have live: "map_of counts d \<noteq> None" "node_exists s d" if "d \<in> reachable E s R" for d
      using that unfolding keys by (auto simp: reachable_def elim: reach_from.cases)
    have dead: "map_of counts d = None" if "d \<notin> set R" "d \<notin> reachable E s R" for d
      using that keys [of d] by (auto simp: reachable_def intro: reach_step)
    have "get_refcount s' d = Inr (word_of_nat (count_list R d +
        (\<Sum>p \<in> reachable E s R. count_list (node_kids E s p) d)))" if d: "d \<in> reachable E s R" for d
    proof -
      obtain n where n: "map_of counts d = Some n" using live(1) [OF d] by blast
      have "count_of counts d = word_of_nat (count_list R d + edges_into E s N d)"
        using N(3) live(2) [OF d] by (simp add: counts_inv_def)
      then show ?thesis by (simp add: get n sum count_of_def)
    qed
    then show ?thesis using dead by (simp add: r get)
  qed
qed

theorem recompute_exact_witness:
  "get_refcount (snd (recompute_all_refcounts ref_ext tagged_store [top_digest])) leaf_digest = Inr 1
   \<and> get_refcount (snd (recompute_all_refcounts ref_ext tagged_store [top_digest])) junk_digest = Inr 1"
proof -
  obtain r s' where rc: "recompute_all_refcounts ref_ext tagged_store [top_digest] = (r, s')" by fastforce
  note ex = recompute_exact [OF tagged_inv rc, unfolded tagged_views sample_reachable]
  have "case fst (recompute_all_refcounts ref_ext tagged_store [top_digest]) of
      Inr _ \<Rightarrow> True | Inl _ \<Rightarrow> False" by code_simp
  then obtain u where r: "r = Inr u" by (auto simp: rc split: sum.splits)
  show ?thesis
    using ex sample_distinct by (auto simp: r rc sample_kids tagged_refcount)
qed

end
