(* ===== verification/Wire.thy ===== *)
theory Wire
  imports Pullrun_Prelude
begin

text \<open>
  Wire formats shared by the protocols: big-endian integers as the
  \<^verbatim>\<open>bytes\<close> buffers read and write them, UTF-8 validation as
  \<^verbatim>\<open>std::str::from_utf8\<close> performs it, and the contract of a self-delimiting
  codec (the locale \<open>stream_codec\<close>) from which injectivity and reading back a
  whole stream follow.
\<close>

section \<open>Big-endian integers\<close>

definition u32_to_be_bytes :: "u32 \<Rightarrow> bytes" where
  "u32_to_be_bytes w = rev (u32_to_le_bytes w)"

definition u32_from_be_bytes :: "bytes \<Rightarrow> u32" where
  "u32_from_be_bytes bs = u32_from_le_bytes (rev bs)"

definition u16_to_be_bytes :: "u16 \<Rightarrow> bytes" where
  "u16_to_be_bytes w = rev (to_le 2 (unat w))"

definition u16_from_be_bytes :: "bytes \<Rightarrow> u16" where
  "u16_from_be_bytes bs = word_of_nat (from_le (rev bs))"

lemma u32_be_length [simp]: "length (u32_to_be_bytes w) = 4"
  by (simp add: u32_to_be_bytes_def)

lemma u16_be_length [simp]: "length (u16_to_be_bytes w) = 2"
  by (simp add: u16_to_be_bytes_def)

lemma u32_be_roundtrip [simp, codec_simps]: "u32_from_be_bytes (u32_to_be_bytes w) = w"
  by (simp add: u32_from_be_bytes_def u32_to_be_bytes_def)

lemma u16_be_roundtrip [simp, codec_simps]: "u16_from_be_bytes (u16_to_be_bytes w) = w"
  using unsigned_less [of w, where ?'a=nat]
  by (simp add: u16_from_be_bytes_def u16_to_be_bytes_def from_le_to_le)

text \<open>Reading from the front of a buffer; the callers check the remaining length.\<close>

definition get_u32 :: "bytes \<Rightarrow> u32 \<times> bytes" where
  "get_u32 cur = (u32_from_be_bytes (take 4 cur), drop 4 cur)"

definition get_u16 :: "bytes \<Rightarrow> u16 \<times> bytes" where
  "get_u16 cur = (u16_from_be_bytes (take 2 cur), drop 2 cur)"

lemma get_u32_put [simp, codec_simps]: "get_u32 (u32_to_be_bytes w @ rest) = (w, rest)"
  by (simp add: get_u32_def)

lemma get_u16_put [simp, codec_simps]: "get_u16 (u16_to_be_bytes w @ rest) = (w, rest)"
  by (simp add: get_u16_def)

lemma get_u16_put_end [simp, codec_simps]: "get_u16 (u16_to_be_bytes w) = (w, [])"
  using get_u16_put [of w "[]"] by simp

lemma get_u32_put_end [simp, codec_simps]: "get_u32 (u32_to_be_bytes w) = (w, [])"
  using get_u32_put [of w "[]"] by simp

section \<open>UTF-8\<close>

definition cont_byte :: "byte \<Rightarrow> bool" where
  "cont_byte b \<longleftrightarrow> 0x80 \<le> b \<and> b \<le> 0xBF"

fun utf8_valid :: "bytes \<Rightarrow> bool" where
  "utf8_valid [] = True"
| "utf8_valid (b # bs) =
    (if b < 0x80 then utf8_valid bs
     else if 0xC2 \<le> b \<and> b \<le> 0xDF then
       (case bs of c1 # r \<Rightarrow> cont_byte c1 \<and> utf8_valid r | _ \<Rightarrow> False)
     else if 0xE0 \<le> b \<and> b \<le> 0xEF then
       (case bs of c1 # c2 # r \<Rightarrow>
          (if b = 0xE0 then 0xA0 \<le> c1 \<and> c1 \<le> 0xBF
           else if b = 0xED then 0x80 \<le> c1 \<and> c1 \<le> 0x9F else cont_byte c1)
          \<and> cont_byte c2 \<and> utf8_valid r
        | _ \<Rightarrow> False)
     else if 0xF0 \<le> b \<and> b \<le> 0xF4 then
       (case bs of c1 # c2 # c3 # r \<Rightarrow>
          (if b = 0xF0 then 0x90 \<le> c1 \<and> c1 \<le> 0xBF
           else if b = 0xF4 then 0x80 \<le> c1 \<and> c1 \<le> 0x8F else cont_byte c1)
          \<and> cont_byte c2 \<and> cont_byte c3 \<and> utf8_valid r
        | _ \<Rightarrow> False)
     else False)"

lemma utf8_ascii: "list_all (\<lambda>b. b < 0x80) bs \<Longrightarrow> utf8_valid bs"
  by (induction bs) simp_all

section \<open>Self-delimiting codecs\<close>

fun read_all :: "(bytes \<Rightarrow> ('e + 'a) \<times> bytes) \<Rightarrow> nat \<Rightarrow> bytes \<Rightarrow> ('e + 'a list) \<times> bytes" where
  "read_all rd 0 bs = (Inr [], bs)"
| "read_all rd (Suc n) bs =
    (case rd bs of
       (Inl e, r) \<Rightarrow> (Inl e, r)
     | (Inr x, r) \<Rightarrow>
         (case read_all rd n r of (Inl e, r') \<Rightarrow> (Inl e, r') | (Inr xs, r') \<Rightarrow> (Inr (x # xs), r')))"

locale stream_codec =
  fixes enc :: "'a \<Rightarrow> bytes"
    and rd :: "bytes \<Rightarrow> ('e + 'a) \<times> bytes"
    and valid :: "'a \<Rightarrow> bool"
  assumes rd_enc: "valid x \<Longrightarrow> rd (enc x @ rest) = (Inr x, rest)"
begin

lemma enc_prefix_free:
  "valid x \<Longrightarrow> valid y \<Longrightarrow> enc x @ r = enc y @ r' \<Longrightarrow> x = y \<and> r = r'"
  by (metis rd_enc old.prod.inject sum.inject(2))

lemma enc_inject: "valid x \<Longrightarrow> valid y \<Longrightarrow> enc x = enc y \<longleftrightarrow> x = y"
  by (metis enc_prefix_free)

lemma read_all_enc:
  "list_all valid xs \<Longrightarrow> read_all rd (length xs) (concat (map enc xs) @ rest) = (Inr xs, rest)"
  by (induction xs) (simp_all add: rd_enc)

lemma read_all_enc_error:
  "list_all valid xs \<Longrightarrow> rd bad = (Inl e, r) \<Longrightarrow>
     read_all rd (Suc (length xs)) (concat (map enc xs) @ bad) = (Inl e, r)"
  by (induction xs) (simp_all add: rd_enc)

end

interpretation u32_stream: stream_codec
  u32_to_be_bytes "\<lambda>bs. case get_u32 bs of (w, r) \<Rightarrow> (Inr w, r)" "\<lambda>_. True"
  by unfold_locales simp

interpretation u16_stream: stream_codec
  u16_to_be_bytes "\<lambda>bs. case get_u16 bs of (w, r) \<Rightarrow> (Inr w, r)" "\<lambda>_. True"
  by unfold_locales simp

end
