(* ===== verification/Vsock_Frame.thy ===== *)
theory Vsock_Frame
  imports Wire
begin

text \<open>
  The host/guest frame protocol of \<^verbatim>\<open>pullrun-vsock/src/lib.rs\<close>: frames, their
  payload encoding and decoding, the length-prefixed wire form, and reading a
  frame from a byte stream.  A Rust string is its UTF-8 bytes.  A call of
  \<^verbatim>\<open>Buf::get_u8\<close> on an empty buffer panics: this is the fault \<open>Panic\<close>.
\<close>

unbundle bit_operations_syntax

section \<open>Frames\<close>

datatype frame_type =
    TInitHello | TWorkloadSpec | TWorkloadStdout | TWorkloadStderr | TWorkloadStdin
  | TStdinEof | TWorkloadExit | TError | TWindowSize

fun frame_type_byte :: "frame_type \<Rightarrow> byte" where
  "frame_type_byte TInitHello = 0x01"
| "frame_type_byte TWorkloadSpec = 0x02"
| "frame_type_byte TWorkloadStdout = 0x03"
| "frame_type_byte TWorkloadStderr = 0x04"
| "frame_type_byte TWorkloadStdin = 0x05"
| "frame_type_byte TStdinEof = 0x06"
| "frame_type_byte TWorkloadExit = 0x07"
| "frame_type_byte TError = 0x08"
| "frame_type_byte TWindowSize = 0x09"

definition from_u8 :: "byte \<Rightarrow> frame_type option" where
  "from_u8 b =
    (if b = 0x01 then Some TInitHello
     else if b = 0x02 then Some TWorkloadSpec
     else if b = 0x03 then Some TWorkloadStdout
     else if b = 0x04 then Some TWorkloadStderr
     else if b = 0x05 then Some TWorkloadStdin
     else if b = 0x06 then Some TStdinEof
     else if b = 0x07 then Some TWorkloadExit
     else if b = 0x08 then Some TError
     else if b = 0x09 then Some TWindowSize
     else None)"

record vsock_mount =
  tag :: bytes
  destination :: bytes
  read_only :: bool

record workload_spec =
  command :: "bytes list"
  env :: "bytes list"
  working_dir :: bytes
  tty :: bool
  rows :: u32
  cols :: u32
  mounts :: "vsock_mount list"

datatype frame =
    InitHello bytes u32
  | WorkloadSpec workload_spec
  | WorkloadStdout bytes
  | WorkloadStderr bytes
  | WorkloadStdin bytes
  | StdinEof
  | WorkloadExit "u32 option" "u32 option"
  | ErrorFrame bytes
  | WindowSize u16 u16

fun frame_type_of :: "frame \<Rightarrow> frame_type" where
  "frame_type_of (InitHello _ _) = TInitHello"
| "frame_type_of (WorkloadSpec _) = TWorkloadSpec"
| "frame_type_of (WorkloadStdout _) = TWorkloadStdout"
| "frame_type_of (WorkloadStderr _) = TWorkloadStderr"
| "frame_type_of (WorkloadStdin _) = TWorkloadStdin"
| "frame_type_of StdinEof = TStdinEof"
| "frame_type_of (WorkloadExit _ _) = TWorkloadExit"
| "frame_type_of (ErrorFrame _) = TError"
| "frame_type_of (WindowSize _ _) = TWindowSize"

datatype protocol_error =
    UnexpectedEof frame_type
  | PayloadTooLarge u32
  | Truncated frame_type nat nat
  | BadUtf8 frame_type
  | IoError
  | Panic

definition MAX_PAYLOAD :: u32 where
  "MAX_PAYLOAD = 16 * 1024 * 1024"

section \<open>Encoding\<close>

definition write_length_prefixed_string :: "bytes \<Rightarrow> bytes" where
  "write_length_prefixed_string s = u32_to_be_bytes (word_of_nat (length s)) @ s"

definition put_bool :: "bool \<Rightarrow> bytes" where
  "put_bool b = [if b then 1 else 0]"

definition write_mount :: "vsock_mount \<Rightarrow> bytes" where
  "write_mount m =
     write_length_prefixed_string (tag m) @ write_length_prefixed_string (destination m)
     @ put_bool (read_only m)"

definition put_opt :: "u32 option \<Rightarrow> bytes" where
  "put_opt v = (case v of Some c \<Rightarrow> u32_to_be_bytes c | None \<Rightarrow> [])"

definition encode_spec :: "workload_spec \<Rightarrow> bytes" where
  "encode_spec w =
     u32_to_be_bytes (word_of_nat (length (command w)))
     @ concat (map write_length_prefixed_string (command w))
     @ u32_to_be_bytes (word_of_nat (length (env w)))
     @ concat (map write_length_prefixed_string (env w))
     @ write_length_prefixed_string (working_dir w)
     @ put_bool (tty w)
     @ u32_to_be_bytes (rows w)
     @ u32_to_be_bytes (cols w)
     @ u32_to_be_bytes (word_of_nat (length (mounts w)))
     @ concat (map write_mount (mounts w))"

fun encode_payload :: "frame \<Rightarrow> bytes" where
  "encode_payload (InitHello workload_id init_pid) =
     u32_to_be_bytes init_pid @ write_length_prefixed_string workload_id"
| "encode_payload (WorkloadSpec w) = encode_spec w"
| "encode_payload (WorkloadStdout b) = b"
| "encode_payload (WorkloadStderr b) = b"
| "encode_payload (WorkloadStdin b) = b"
| "encode_payload StdinEof = []"
| "encode_payload (WorkloadExit exit_code sig) =
     ((if exit_code \<noteq> None then 0x01 else 0) OR (if sig \<noteq> None then 0x02 else 0))
       # put_opt exit_code @ put_opt sig"
| "encode_payload (ErrorFrame msg) = write_length_prefixed_string msg"
| "encode_payload (WindowSize r c) = u16_to_be_bytes r @ u16_to_be_bytes c"

definition encode :: "frame \<Rightarrow> bytes" where
  "encode f =
    (let payload = encode_payload f
     in u32_to_be_bytes (word_of_nat (length payload)) @ [frame_type_byte (frame_type_of f)]
          @ payload)"

section \<open>Decoding\<close>

definition read_length_prefixed_string ::
  "frame_type \<Rightarrow> bytes \<Rightarrow> (protocol_error + bytes) \<times> bytes" where
  "read_length_prefixed_string ty cur =
    (if length cur < 4 then (Inl (Truncated ty 4 (length cur)), cur)
     else
       (let (w, cur1) = get_u32 cur; len = unat w
        in if length cur1 < len then (Inl (Truncated ty len (length cur1)), cur1)
           else if utf8_valid (take len cur1) then (Inr (take len cur1), drop len cur1)
           else (Inl (BadUtf8 ty), drop len cur1)))"

text \<open>The read of the read-only byte of a mount has no length check.\<close>

definition read_mount :: "frame_type \<Rightarrow> bytes \<Rightarrow> (protocol_error + vsock_mount) \<times> bytes" where
  "read_mount ty cur =
    (case read_length_prefixed_string ty cur of
       (Inl e, r) \<Rightarrow> (Inl e, r)
     | (Inr t, r1) \<Rightarrow>
         (case read_length_prefixed_string ty r1 of
            (Inl e, r) \<Rightarrow> (Inl e, r)
          | (Inr d, r2) \<Rightarrow>
              (case r2 of
                 [] \<Rightarrow> (Inl Panic, [])
               | b # r3 \<Rightarrow> (Inr \<lparr>tag = t, destination = d, read_only = (b \<noteq> 0)\<rparr>, r3))))"

definition opt_u32 :: "bytes \<Rightarrow> u32 \<times> bytes" where
  "opt_u32 cur = (if length cur \<ge> 4 then get_u32 cur else (0, cur))"

definition decode_tail ::
  "frame_type \<Rightarrow> bytes list \<Rightarrow> bytes list \<Rightarrow> bytes \<Rightarrow> bytes \<Rightarrow> protocol_error + frame" where
  "decode_tail ty cmd environ wd cur =
    (let (is_tty, cur1) = (case cur of b # r \<Rightarrow> (b \<noteq> 0, r) | [] \<Rightarrow> (False, []));
         (nrows, cur2) = opt_u32 cur1;
         (ncols, cur3) = opt_u32 cur2;
         spec = \<lparr>command = cmd, env = environ, working_dir = wd, tty = is_tty, rows = nrows,
                 cols = ncols, mounts = []\<rparr>
     in if length cur3 \<ge> 4 then
          (let (n, cur4) = get_u32 cur3
           in case fst (read_all (read_mount ty) (unat n) cur4) of
                Inl e \<Rightarrow> Inl e
              | Inr ms \<Rightarrow> Inr (WorkloadSpec (spec\<lparr>mounts := ms\<rparr>)))
        else Inr (WorkloadSpec spec))"

definition read_strings :: "frame_type \<Rightarrow> bytes \<Rightarrow> (protocol_error + bytes list) \<times> bytes" where
  "read_strings ty cur =
    (if length cur < 4 then (Inl (Truncated ty 4 (length cur)), cur)
     else (let (n, cur1) = get_u32 cur
           in read_all (read_length_prefixed_string ty) (unat n) cur1))"

definition decode_spec :: "frame_type \<Rightarrow> bytes \<Rightarrow> protocol_error + frame" where
  "decode_spec ty cur =
    (case read_strings ty cur of
       (Inl e, _) \<Rightarrow> Inl e
     | (Inr cmd, cur1) \<Rightarrow>
         (case read_strings ty cur1 of
            (Inl e, _) \<Rightarrow> Inl e
          | (Inr environ, cur2) \<Rightarrow>
              (case read_length_prefixed_string ty cur2 of
                 (Inl e, _) \<Rightarrow> Inl e
               | (Inr wd, cur3) \<Rightarrow> decode_tail ty cmd environ wd cur3)))"

definition read_opt ::
  "frame_type \<Rightarrow> bool \<Rightarrow> bytes \<Rightarrow> protocol_error + (u32 option \<times> bytes)" where
  "read_opt ty has cur =
    (if has then
       (if length cur < 4 then Inl (Truncated ty 4 (length cur))
        else (let (v, r) = get_u32 cur in Inr (Some v, r)))
     else Inr (None, cur))"

definition decode_exit :: "frame_type \<Rightarrow> bytes \<Rightarrow> protocol_error + frame" where
  "decode_exit ty cur =
    (case cur of
       [] \<Rightarrow> Inl (Truncated ty 1 0)
     | flags # cur1 \<Rightarrow>
         (case read_opt ty (flags AND 0x01 \<noteq> 0) cur1 of
            Inl e \<Rightarrow> Inl e
          | Inr (code, cur2) \<Rightarrow>
              (case read_opt ty (flags AND 0x02 \<noteq> 0) cur2 of
                 Inl e \<Rightarrow> Inl e
               | Inr (sig, _) \<Rightarrow> Inr (WorkloadExit code sig))))"

fun decode_payload :: "frame_type \<Rightarrow> bytes \<Rightarrow> protocol_error + frame" where
  "decode_payload TInitHello cur =
    (if length cur < 4 then Inl (Truncated TInitHello 4 (length cur))
     else
       (let (pid, cur1) = get_u32 cur
        in case read_length_prefixed_string TInitHello cur1 of
             (Inl e, _) \<Rightarrow> Inl e
           | (Inr wid, _) \<Rightarrow> Inr (InitHello wid pid)))"
| "decode_payload TWorkloadSpec cur = decode_spec TWorkloadSpec cur"
| "decode_payload TWorkloadStdout cur = Inr (WorkloadStdout cur)"
| "decode_payload TWorkloadStderr cur = Inr (WorkloadStderr cur)"
| "decode_payload TWorkloadStdin cur = Inr (WorkloadStdin cur)"
| "decode_payload TStdinEof cur = Inr StdinEof"
| "decode_payload TWorkloadExit cur = decode_exit TWorkloadExit cur"
| "decode_payload TError cur =
    (case read_length_prefixed_string TError cur of
       (Inl e, _) \<Rightarrow> Inl e
     | (Inr msg, _) \<Rightarrow> Inr (ErrorFrame msg))"
| "decode_payload TWindowSize cur =
    (if length cur < 4 then Inl (Truncated TWindowSize 4 (length cur))
     else (let (r, cur1) = get_u16 cur; (c, _) = get_u16 cur1 in Inr (WindowSize r c)))"

definition decode :: "bytes \<Rightarrow> frame_type \<Rightarrow> protocol_error + frame" where
  "decode payload ty = decode_payload ty payload"

text \<open>
  Reading from a stream that holds the given bytes and then ends; the second
  component is what is left unread.
\<close>

definition read_frame :: "bytes \<Rightarrow> (protocol_error + frame) \<times> bytes" where
  "read_frame r =
    (if length r < 5 then (Inl (UnexpectedEof TInitHello), [])
     else
       (let len = fst (get_u32 r); ty_byte = r ! 4; r1 = drop 5 r
        in if len > MAX_PAYLOAD then (Inl (PayloadTooLarge len), r1)
           else
             (case from_u8 ty_byte of
                None \<Rightarrow> (Inl (Truncated TInitHello 0 0), r1)
              | Some ty \<Rightarrow>
                  if length r1 < unat len then (Inl IoError, [])
                  else (decode_payload ty (take (unat len) r1), drop (unat len) r1))))"

definition write_frame :: "bytes \<Rightarrow> frame \<Rightarrow> bytes" where
  "write_frame w f = w @ encode f"

section \<open>Well-formed frames\<close>

text \<open>
  What every Rust value satisfies (strings are UTF-8) and that no length exceeds
  the 32 bits it is written in.
\<close>

definition wf_str :: "bytes \<Rightarrow> bool" where
  "wf_str s \<longleftrightarrow> utf8_valid s \<and> length s < 2 ^ 32"

definition wf_mount :: "vsock_mount \<Rightarrow> bool" where
  "wf_mount m \<longleftrightarrow> wf_str (tag m) \<and> wf_str (destination m)"

definition wf_spec :: "workload_spec \<Rightarrow> bool" where
  "wf_spec w \<longleftrightarrow>
     list_all wf_str (command w) \<and> length (command w) < 2 ^ 32
     \<and> list_all wf_str (env w) \<and> length (env w) < 2 ^ 32 \<and> wf_str (working_dir w)
     \<and> list_all wf_mount (mounts w) \<and> length (mounts w) < 2 ^ 32"

fun wf_frame :: "frame \<Rightarrow> bool" where
  "wf_frame (InitHello wid pid) = wf_str wid"
| "wf_frame (WorkloadSpec w) = wf_spec w"
| "wf_frame (ErrorFrame msg) = wf_str msg"
| "wf_frame _ = True"

section \<open>Round trips\<close>

lemma unat_len: "n < 2 ^ 32 \<Longrightarrow> unat (word_of_nat n :: u32) = n"
  by (rule unat_word_of_nat_u32)

lemma read_string_write:
  "wf_str s \<Longrightarrow> read_length_prefixed_string ty (write_length_prefixed_string s @ rest) = (Inr s, rest)"
  by (simp add: read_length_prefixed_string_def write_length_prefixed_string_def wf_str_def unat_len)

interpretation str_stream: stream_codec
  write_length_prefixed_string "read_length_prefixed_string ty" wf_str for ty
  by unfold_locales (rule read_string_write)

lemma read_mount_write: "wf_mount m \<Longrightarrow> read_mount ty (write_mount m @ rest) = (Inr m, rest)"
  by (cases m) (simp add: read_mount_def write_mount_def wf_mount_def read_string_write put_bool_def)

interpretation mount_stream: stream_codec write_mount "read_mount ty" wf_mount for ty
  by unfold_locales (rule read_mount_write)

lemma read_strings_write:
  assumes "list_all wf_str xs" "length xs < 2 ^ 32"
  shows "read_strings ty (u32_to_be_bytes (word_of_nat (length xs))
     @ concat (map write_length_prefixed_string xs) @ rest) = (Inr xs, rest)"
  using str_stream.read_all_enc [OF assms(1), of ty rest]
  by (simp add: read_strings_def unat_len [OF assms(2)])

lemma opt_u32_put [simp]: "opt_u32 (u32_to_be_bytes w @ rest) = (w, rest)"
  by (simp add: opt_u32_def)

lemma decode_tail_write:
  assumes "list_all wf_mount (mounts w)" "length (mounts w) < 2 ^ 32"
  shows "decode_tail ty (command w) (env w) (working_dir w)
     (put_bool (tty w) @ u32_to_be_bytes (rows w) @ u32_to_be_bytes (cols w)
      @ u32_to_be_bytes (word_of_nat (length (mounts w))) @ concat (map write_mount (mounts w)))
     = Inr (WorkloadSpec w)"
  using mount_stream.read_all_enc [OF assms(1), of ty "[]"]
  by (simp add: decode_tail_def put_bool_def unat_len [OF assms(2)])

lemma decode_spec_encode: "wf_spec w \<Longrightarrow> decode_spec ty (encode_spec w) = Inr (WorkloadSpec w)"
  by (simp add: decode_spec_def encode_spec_def wf_spec_def read_strings_write read_string_write
      decode_tail_write)

lemma read_opt_put [simp]: "read_opt ty (v \<noteq> None) (put_opt v @ rest) = Inr (v, rest)"
  by (cases v) (simp_all add: read_opt_def put_opt_def)

lemma exit_flags:
  "((if p then 1 else 0) OR (if q then 2 else 0) :: byte) AND 1 \<noteq> 0 \<longleftrightarrow> p"
  "((if p then 1 else 0) OR (if q then 2 else 0) :: byte) AND 2 \<noteq> 0 \<longleftrightarrow> q"
  by (cases p; cases q; simp)+

lemma decode_exit_encode:
  "decode_exit ty (encode_payload (WorkloadExit c g)) = Inr (WorkloadExit c g)"
  using read_opt_put [of ty g "[]"]
  by (simp add: decode_exit_def exit_flags del: not_None_eq)

lemma decode_encode_payload:
  "wf_frame f \<Longrightarrow> decode_payload (frame_type_of f) (encode_payload f) = Inr f"
proof (induction f rule: encode_payload.induct)
  case (1 wid pid)
  then show ?case using read_string_write [of wid TInitHello "[]"]
    by (simp add: write_length_prefixed_string_def)
next
  case (7 c g)
  then show ?case using decode_exit_encode by simp
next
  case (8 msg)
  then show ?case using read_string_write [of msg TError "[]"] by simp
qed (simp_all add: decode_spec_encode)

lemma from_u8_byte [simp]: "from_u8 (frame_type_byte t) = Some t"
  by (cases t) (simp_all add: from_u8_def)

lemma from_u8_Some: "from_u8 b = Some t \<longleftrightarrow> b = frame_type_byte t"
  by (cases t) (auto simp: from_u8_def split: if_splits)

definition sendable :: "frame \<Rightarrow> bool" where
  "sendable f \<longleftrightarrow> wf_frame f \<and> length (encode_payload f) \<le> unat MAX_PAYLOAD"

lemma read_frame_encode:
  assumes "sendable f"
  shows "read_frame (encode f @ rest) = (Inr f, rest)"
proof -
  let ?p = "encode_payload f"
  have max: "unat MAX_PAYLOAD = 16777216" by (simp add: MAX_PAYLOAD_def)
  have len: "unat (word_of_nat (length ?p) :: u32) = length ?p"
    using assms by (intro unat_len) (simp add: sendable_def max)
  have le: "\<not> (word_of_nat (length ?p) :: u32) > MAX_PAYLOAD"
    using assms by (simp add: word_less_nat_alt len sendable_def)
  have nth: "(u32_to_be_bytes w @ [b] @ xs) ! 4 = b" "drop 5 (u32_to_be_bytes w @ [b] @ xs) = xs"
    for w b and xs :: bytes
    by (simp_all add: nth_append)
  have enc: "encode f @ rest = u32_to_be_bytes (word_of_nat (length ?p))
      @ [frame_type_byte (frame_type_of f)] @ ?p @ rest"
    by (simp add: encode_def Let_def)
  show ?thesis
    unfolding read_frame_def enc nth Let_def
    using assms le by (simp add: len sendable_def decode_encode_payload)
qed

interpretation frame_stream: stream_codec encode read_frame sendable
  by unfold_locales (rule read_frame_encode)

section \<open>Properties\<close>

text \<open>
  C19: what is written is read.  Any sequence of frames whose payloads are within
  the 16 MiB cap, written one after the other, is read back frame by frame with
  nothing lost, whatever follows on the stream.
\<close>

theorem frames_roundtrip:
  assumes "list_all sendable fs"
  shows "read_all read_frame (length fs) (fold (\<lambda>f w. write_frame w f) fs [] @ rest) = (Inr fs, rest)"
proof -
  have "fold (\<lambda>f w. write_frame w f) fs w = w @ concat (map encode fs)" for w
    by (induction fs arbitrary: w) (simp_all add: write_frame_def)
  then show ?thesis using frame_stream.read_all_enc [OF assms] by simp
qed

lemma max_payload_nat: "unat MAX_PAYLOAD = 16777216"
  by (simp add: MAX_PAYLOAD_def)

lemmas frame_eval = sendable_def max_payload_nat wf_spec_def wf_mount_def wf_str_def encode_spec_def
  write_mount_def write_length_prefixed_string_def put_bool_def put_opt_def cont_byte_def

definition sample_frames :: "frame list" where
  "sample_frames =
    [InitHello [119, 49] 7,
     WorkloadSpec \<lparr>command = [[47, 98]], env = [], working_dir = [47], tty = True, rows = 24,
       cols = 80, mounts = [\<lparr>tag = [118], destination = [47, 100], read_only = True\<rparr>]\<rparr>,
     WorkloadStdout [104, 105], StdinEof, WorkloadExit (Some 0) None, WindowSize 24 80]"

theorem frames_roundtrip_witness:
  "read_all read_frame 6 (fold (\<lambda>f w. write_frame w f) sample_frames [] @ [0, 1])
     = (Inr sample_frames, [0, 1])"
proof -
  have "list_all sendable sample_frames" by (simp add: sample_frames_def frame_eval)
  moreover have "length sample_frames = 6" by (simp add: sample_frames_def)
  ultimately show ?thesis using frames_roundtrip [of sample_frames "[0, 1]"] by simp
qed

text \<open>
  The wire form is unambiguous: two frames (within the cap) with the same
  encoding, or with encodings of which one is a prefix of the other's stream, are
  equal.
\<close>

lemma encode_unambiguous:
  assumes "sendable f" "sendable g" "encode f @ r = encode g @ r'"
  shows "f = g \<and> r = r'"
  using assms by (rule frame_stream.enc_prefix_free)

lemma encode_unambiguous_witness: "encode (WorkloadStdout [1]) \<noteq> encode (WorkloadStderr [1])"
proof
  assume "encode (WorkloadStdout [1]) = encode (WorkloadStderr [1])"
  then have "encode (WorkloadStdout [1]) @ [] = encode (WorkloadStderr [1]) @ []" by simp
  moreover have "sendable (WorkloadStdout [1])" "sendable (WorkloadStderr [1])"
    by (simp_all add: frame_eval)
  ultimately show False using encode_unambiguous by blast
qed



lemma no_panic_string: "fst (read_length_prefixed_string ty cur) \<noteq> Inl Panic"
  by (auto simp: read_length_prefixed_string_def Let_def split: prod.splits)

lemma butlast_write_mount:
  "butlast (write_mount m) =
     write_length_prefixed_string (tag m) @ write_length_prefixed_string (destination m)"
  by (simp add: write_mount_def put_bool_def butlast_append)

lemma read_mount_short:
  "wf_mount m \<Longrightarrow> read_mount ty (butlast (write_mount m)) = (Inl Panic, [])"
  using read_string_write [of "destination m" ty "[]"]
  by (simp add: butlast_write_mount read_mount_def wf_mount_def read_string_write)

lemma decode_spec_short:
  assumes "wf_spec w" "mounts w \<noteq> []"
  shows "decode_spec ty (butlast (encode_spec w)) = Inl Panic"
proof -
  obtain ms m where ms: "mounts w = ms @ [m]" using assms(2) by (metis append_butlast_last_id)
  have wf: "list_all wf_mount ms" "wf_mount m" "Suc (length ms) < 2 ^ 32"
    using assms(1) by (auto simp: wf_spec_def ms)
  have ne: "write_mount m \<noteq> []" by (simp add: write_mount_def put_bool_def)
  have tail: "decode_tail ty c e d
     (put_bool (tty w) @ u32_to_be_bytes (rows w) @ u32_to_be_bytes (cols w)
      @ u32_to_be_bytes (word_of_nat (Suc (length ms)))
      @ concat (map write_mount ms) @ butlast (write_mount m)) = Inl Panic" for c e d
    using mount_stream.read_all_enc_error [OF wf(1) read_mount_short [OF wf(2)], of ty]
    by (simp add: decode_tail_def put_bool_def unat_len [OF wf(3)] del: of_nat_Suc)
  show ?thesis
    using assms(1) tail
    by (simp add: decode_spec_def encode_spec_def wf_spec_def read_strings_write read_string_write
        ms butlast_append ne del: of_nat_Suc)
qed

text \<open>
  Decoding is total except for one unchecked read.  Only a workload
  specification can make the decoder panic, and it does so on every encoded
  specification with a mount that loses its last byte.
\<close>

lemma decode_panics:
  shows "(decode payload ty = Inl Panic \<longrightarrow> ty = TWorkloadSpec)
    \<and> (wf_spec w \<and> mounts w \<noteq> [] \<longrightarrow>
         decode (butlast (encode_payload (WorkloadSpec w))) TWorkloadSpec = Inl Panic)"
proof -
  have "ty = TWorkloadSpec" if "decode payload ty = Inl Panic"
    using that no_panic_string
    by (cases ty) (auto simp: decode_def decode_exit_def read_opt_def Let_def
        split: if_splits prod.splits sum.splits list.splits dest: arg_cong [where f = fst])
  then show ?thesis by (simp add: decode_def decode_spec_short)
qed

lemma decode_panics_witness:
  "decode (butlast (encode_payload (sample_frames ! 1))) TWorkloadSpec = Inl Panic"
proof -
  obtain w where w: "sample_frames ! 1 = WorkloadSpec w" "wf_spec w" "mounts w \<noteq> []"
    by (simp add: sample_frames_def frame_eval)
  then show ?thesis using decode_panics [of "[]" TStdinEof w] by simp
qed

end
