(* ===== verification/Rust_Parse.thy ===== *)
theory Rust_Parse
  imports Pullrun_Prelude
begin

text \<open>
  Number and address parsing of the Rust standard library as the sources call
  it: \<^verbatim>\<open>str::parse\<close> for unsigned integers (an optional plus sign, decimal
  digits, no overflow), \<^verbatim>\<open>u32::from_str_radix\<close> in base 16,
  \<^verbatim>\<open>Ipv4Addr::from_str\<close>, \<^verbatim>\<open>split_whitespace\<close> and
  \<^verbatim>\<open>swap_bytes\<close>.
\<close>

definition dec_digit :: "char \<Rightarrow> nat option" where
  "dec_digit c =
    (let n = of_char c :: nat in if 48 \<le> n \<and> n \<le> 57 then Some (n - 48) else None)"

definition hexa_digit :: "char \<Rightarrow> nat option" where
  "hexa_digit c =
    (let n = of_char c :: nat
     in if 48 \<le> n \<and> n \<le> 57 then Some (n - 48)
        else if 97 \<le> n \<and> n \<le> 102 then Some (n - 87)
        else if 65 \<le> n \<and> n \<le> 70 then Some (n - 55)
        else None)"

fun digits_value :: "(char \<Rightarrow> nat option) \<Rightarrow> nat \<Rightarrow> nat \<Rightarrow> string \<Rightarrow> nat option" where
  "digits_value dig radix acc [] = Some acc"
| "digits_value dig radix acc (c # s) =
    (case dig c of None \<Rightarrow> None | Some d \<Rightarrow> digits_value dig radix (radix * acc + d) s)"

definition parse_radix :: "(char \<Rightarrow> nat option) \<Rightarrow> nat \<Rightarrow> nat \<Rightarrow> string \<Rightarrow> nat option" where
  "parse_radix dig radix bound s =
    (let t = (case s of c # r \<Rightarrow> if c = CHR ''+'' then r else s | [] \<Rightarrow> [])
     in if t = [] then None
        else case digits_value dig radix 0 t of
               None \<Rightarrow> None
             | Some n \<Rightarrow> if n < bound then Some n else None)"

definition parse_u32 :: "string \<Rightarrow> u32 option" where
  "parse_u32 s = map_option word_of_nat (parse_radix dec_digit 10 4294967296 s)"

definition parse_u16 :: "string \<Rightarrow> u16 option" where
  "parse_u16 s = map_option word_of_nat (parse_radix dec_digit 10 65536 s)"

definition parse_u64 :: "string \<Rightarrow> u64 option" where
  "parse_u64 s = map_option word_of_nat (parse_radix dec_digit 10 18446744073709551616 s)"

definition parse_hex_u32 :: "string \<Rightarrow> u32 option" where
  "parse_hex_u32 s = map_option word_of_nat (parse_radix hexa_digit 16 4294967296 s)"

definition parse_octet :: "string \<Rightarrow> nat option" where
  "parse_octet s =
    (if s = [] \<or> length s > 3 \<or> (length s > 1 \<and> hd s = CHR ''0'') then None
     else case digits_value dec_digit 10 0 s of
            None \<Rightarrow> None
          | Some n \<Rightarrow> if n < 256 then Some n else None)"

definition parse_ipv4 :: "string \<Rightarrow> u32 option" where
  "parse_ipv4 s =
    (case map parse_octet (split_on (CHR ''.'') s) of
       [Some a, Some b, Some c, Some d] \<Rightarrow>
         Some (word_of_nat (((a * 256 + b) * 256 + c) * 256 + d))
     | _ \<Rightarrow> None)"

fun split_ws :: "string \<Rightarrow> string \<Rightarrow> string list" where
  "split_ws acc [] = (if acc = [] then [] else [rev acc])"
| "split_ws acc (c # s) =
    (if is_space c then (if acc = [] then split_ws [] s else rev acc # split_ws [] s)
     else split_ws (c # acc) s)"

definition split_whitespace :: "string \<Rightarrow> string list" where
  "split_whitespace s = split_ws [] s"

definition swap_bytes :: "u32 \<Rightarrow> u32" where
  "swap_bytes w = u32_from_le_bytes (rev (u32_to_le_bytes w))"

lemma parse_u32_value:
  "parse_u32 s = Some w \<Longrightarrow> \<exists>n. parse_radix dec_digit 10 4294967296 s = Some n \<and> n < 2 ^ 32 \<and> unat w = n"
proof -
  assume "parse_u32 s = Some w"
  then obtain n where n: "parse_radix dec_digit 10 4294967296 s = Some n" "w = word_of_nat n"
    by (auto simp: parse_u32_def)
  then have "n < 2 ^ 32"
    by (auto simp: parse_radix_def Let_def split: option.splits if_splits)
  with n show ?thesis by (auto simp: unat_word_of_nat_u32)
qed

lemma split_ws_nonempty: "p \<in> set (split_ws acc s) \<Longrightarrow> p \<noteq> []"
  by (induction acc s rule: split_ws.induct) (auto split: if_splits)

end
