(* ===== verification/Ipam.thy ===== *)
theory Ipam
  imports Rust_Parse
begin

text \<open>
  IP address management, \<^verbatim>\<open>pullrun-net/src/ipam.rs\<close>.  Addresses are 32-bit
  words; arithmetic wraps as in a release build, and a shift by 32 bits is a
  shift by 0.  The routing table \<^verbatim>\<open>/proc/net/route\<close> is an argument (\<open>None\<close>
  when it cannot be read).
\<close>

unbundle bit_operations_syntax

record ip_range =
  base :: u32
  size :: u32

datatype cidr_error = InvalidCidr string | InvalidIp string | InvalidPrefix string | PrefixTooLong u32

definition shl32 :: "nat \<Rightarrow> u32" where
  "shl32 n = push_bit (n mod 32) 1"

definition range_from_cidr :: "string \<Rightarrow> cidr_error + ip_range" where
  "range_from_cidr cidr =
    (case split_on (CHR ''/'') cidr of
       [a, p] \<Rightarrow>
         (case parse_ipv4 a of
            None \<Rightarrow> Inl (InvalidIp a)
          | Some ip_int \<Rightarrow>
              (case parse_u32 p of
                 None \<Rightarrow> Inl (InvalidPrefix p)
               | Some prefix \<Rightarrow>
                   if prefix > 32 then Inl (PrefixTooLong prefix)
                   else
                     (let mask = (if prefix = 0 then 0 else NOT (shl32 (32 - unat prefix) - 1))
                      in Inr \<lparr>base = ip_int AND mask, size = shl32 (32 - unat prefix)\<rparr>)))
     | _ \<Rightarrow> Inl (InvalidCidr cidr))"

definition to_ip :: "ip_range \<Rightarrow> u32 \<Rightarrow> u32" where
  "to_ip r offset = base r + offset"

record ipam =
  range :: ip_range
  next_host :: u32
  next_subnet :: u32
  subnets :: "(string \<times> ip_range) list"
  next_in_subnet :: "(u32 \<times> u32) list"

definition ipam_clone :: "ipam \<Rightarrow> ipam" where
  "ipam_clone s = s\<lparr>subnets := [], next_in_subnet := []\<rparr>"

definition ipam_new :: "ip_range \<Rightarrow> ipam" where
  "ipam_new r =
    \<lparr>range = r, next_host = 2, next_subnet = 0, subnets = [], next_in_subnet = []\<rparr>"

definition ipam_from_cidr :: "string \<Rightarrow> cidr_error + ipam" where
  "ipam_from_cidr cidr =
    (case range_from_cidr cidr of Inl e \<Rightarrow> Inl e | Inr r \<Rightarrow> Inr (ipam_new r))"

definition allocate :: "ipam \<Rightarrow> u32 option \<times> ipam" where
  "allocate s =
    (let current = next_host s
     in if current \<ge> size (range s) - 1 then (None, s)
        else (Some (base (range s) + current), s\<lparr>next_host := current + 1\<rparr>))"

definition route_subnet :: "u32 \<Rightarrow> u32 \<Rightarrow> string \<Rightarrow> u32 option" where
  "route_subnet b sz line =
    (let fields = split_whitespace line
     in if length fields < 8 then None
        else
          (case (parse_hex_u32 (fields ! 1), parse_hex_u32 (fields ! 7)) of
             (Some d, Some m) \<Rightarrow>
               (let dest = swap_bytes d; mask = swap_bytes m
                in if mask \<noteq> 0xFFFFFF00 then None
                   else if dest \<ge> b \<and> dest < b + sz then Some dest else None)
           | _ \<Rightarrow> None))"

definition live_subnets_in_range :: "string option \<Rightarrow> u32 \<Rightarrow> u32 \<Rightarrow> u32 list" where
  "live_subnets_in_range route b sz =
    (case route of
       None \<Rightarrow> []
     | Some contents \<Rightarrow> List.map_filter (route_subnet b sz) (drop 1 (str_lines contents)))"

definition subnet_taken :: "u32 \<Rightarrow> (string \<times> ip_range) list \<Rightarrow> bool" where
  "subnet_taken b subs \<longleftrightarrow> list_ex (\<lambda>(_, r). base r = b) subs"

fun subnet_loop :: "nat \<Rightarrow> u32 list \<Rightarrow> string \<Rightarrow> ipam \<Rightarrow> ip_range option \<times> ipam" where
  "subnet_loop 0 live key s = (None, s)"
| "subnet_loop (Suc n) live key s =
    (let idx = next_subnet s;
         s1 = s\<lparr>next_subnet := idx + 1\<rparr>
     in if (idx + 1) * 256 > size (range s) then (None, s1)
        else
          (let subnet = \<lparr>base = base (range s) + idx * 256, size = 256\<rparr>
           in if base subnet \<in> set live then subnet_loop n live key s1
              else if subnet_taken (base subnet) (subnets s) then subnet_loop n live key s1
              else (Some subnet, s1\<lparr>subnets := AList.update key subnet (subnets s)\<rparr>)))"

definition subnet_for :: "string option \<Rightarrow> string \<Rightarrow> ipam \<Rightarrow> ip_range option \<times> ipam" where
  "subnet_for route key s =
    (case map_of (subnets s) key of
       Some existing \<Rightarrow> (Some existing, s)
     | None \<Rightarrow>
         subnet_loop 64 (live_subnets_in_range route (base (range s)) (size (range s))) key s)"

definition allocate_in :: "ip_range \<Rightarrow> ipam \<Rightarrow> u32 option \<times> ipam" where
  "allocate_in subnet s =
    (let current = (case map_of (next_in_subnet s) (base subnet) of Some c \<Rightarrow> c | None \<Rightarrow> 2);
         s1 = s\<lparr>next_in_subnet := AList.update (base subnet) current (next_in_subnet s)\<rparr>
     in if current \<ge> size subnet - 1 then (None, s1)
        else (Some (base subnet + current),
              s1\<lparr>next_in_subnet := AList.update (base subnet) (current + 1) (next_in_subnet s1)\<rparr>))"

text \<open>
  The address a container gets on a bridge (\<^verbatim>\<open>pullrun-exec/src/container.rs\<close>):
  the default bridge uses the whole range, every other bridge its own subnet; the
  second component of the result is the gateway.
\<close>

definition DEFAULT_BRIDGE_NAME :: string where
  "DEFAULT_BRIDGE_NAME = ''pullrun-br0''"

definition DEFAULT_GATEWAY :: u32 where
  "DEFAULT_GATEWAY = 0x0A2A0001"

definition bridge_address ::
  "string option \<Rightarrow> string option \<Rightarrow> ipam \<Rightarrow> (u32 \<times> u32) option \<times> ipam" where
  "bridge_address route bridge s =
    (let bridge_name = (case bridge of Some b \<Rightarrow> b | None \<Rightarrow> DEFAULT_BRIDGE_NAME);
         (subnet, s1) = (if bridge_name = DEFAULT_BRIDGE_NAME then (None, s)
                         else subnet_for route bridge_name s);
         (ip, s2) = (case subnet of Some sub \<Rightarrow> allocate_in sub s1 | None \<Rightarrow> allocate s1);
         gw = (case subnet of Some sub \<Rightarrow> base sub + 1 | None \<Rightarrow> DEFAULT_GATEWAY)
     in (map_option (\<lambda>a. (a, gw)) ip, s2))"

definition release :: "u32 \<Rightarrow> ipam \<Rightarrow> ipam" where
  "release ip s = s"

definition gateway :: "ipam \<Rightarrow> u32" where
  "gateway s = base (range s) + 1"

section \<open>Host addresses\<close>

text \<open>All the addresses \<open>n\<close> calls of an allocator hand out.\<close>

fun allocs :: "('s \<Rightarrow> u32 option \<times> 's) \<Rightarrow> nat \<Rightarrow> 's \<Rightarrow> u32 list" where
  "allocs alloc 0 s = []"
| "allocs alloc (Suc n) s =
    (case alloc s of
       (Some a, s') \<Rightarrow> a # allocs alloc n s'
     | (None, s') \<Rightarrow> allocs alloc n s')"

definition wf_range :: "ip_range \<Rightarrow> bool" where
  "wf_range r \<longleftrightarrow> unat (base r) + unat (size r) \<le> 2 ^ 32 \<and> 4 \<le> size r"

locale bump_allocator =
  fixes alloc :: "'s \<Rightarrow> u32 option \<times> 's"
    and ctr :: "'s \<Rightarrow> u32"
    and rng :: "'s \<Rightarrow> ip_range"
    and inv :: "'s \<Rightarrow> bool"
  assumes rng_wf: "inv s \<Longrightarrow> wf_range (rng s)"
    and ctr_min: "inv s \<Longrightarrow> 2 \<le> ctr s"
    and alloc_Some: "inv s \<Longrightarrow> alloc s = (Some a, s') \<Longrightarrow>
          a = base (rng s) + ctr s \<and> ctr s < size (rng s) - 1 \<and> ctr s' = ctr s + 1
          \<and> rng s' = rng s \<and> inv s'"
    and alloc_None: "inv s \<Longrightarrow> alloc s = (None, s') \<Longrightarrow>
          size (rng s) - 1 \<le> ctr s \<and> ctr s' = ctr s \<and> rng s' = rng s \<and> inv s'"
begin

lemma unat_size:
  assumes "inv s"
  shows "4 \<le> unat (size (rng s))" "unat (size (rng s) - 1) = unat (size (rng s)) - 1"
proof -
  show "4 \<le> unat (size (rng s))"
    using rng_wf [OF assms] by (simp add: wf_range_def word_le_nat_alt)
  then have "size (rng s) \<noteq> 0" by auto
  then show "unat (size (rng s) - 1) = unat (size (rng s)) - 1" by (metis One_nat_def unat_minus_one)
qed

lemma step_nat:
  assumes "inv s" "alloc s = (Some a, s')"
  shows "unat a = unat (base (rng s)) + unat (ctr s)" "unat (ctr s') = Suc (unat (ctr s))"
    "unat (ctr s) < unat (size (rng s)) - 1" "inv s'" "rng s' = rng s"
proof -
  note st = alloc_Some [OF assms]
  have fits: "unat (base (rng s)) + unat (size (rng s)) \<le> 2 ^ 32"
    using rng_wf [OF assms(1)] by (simp add: wf_range_def)
  show lt: "unat (ctr s) < unat (size (rng s)) - 1"
    using st unat_size [OF assms(1)] by (simp add: word_less_nat_alt)
  show "unat a = unat (base (rng s)) + unat (ctr s)" using st lt fits by (simp add: unat_add_u32)
  show "unat (ctr s') = Suc (unat (ctr s))" using st lt fits by (simp add: unat_add_u32)
  show "inv s'" "rng s' = rng s" using st by simp_all
qed

text \<open>
  The addresses are pairwise distinct, and none is the network, gateway or
  broadcast address.
\<close>

lemma allocs_spec:
  "inv s \<Longrightarrow> distinct (allocs alloc n s) \<and>
     (\<forall>a \<in> set (allocs alloc n s). unat (base (rng s)) + unat (ctr s) \<le> unat a
        \<and> unat a + 1 < unat (base (rng s)) + unat (size (rng s)))"
proof (induction n arbitrary: s)
  case (Suc n)
  obtain r s' where a: "alloc s = (r, s')" by fastforce
  show ?case
  proof (cases r)
    case None
    note st = alloc_None [OF Suc.prems a [unfolded None]]
    then show ?thesis using Suc.IH [of s'] a None by simp
  next
    case (Some x)
    note st = step_nat [OF Suc.prems a [unfolded Some]]
    note IH = Suc.IH [OF st(4)]
    have "x \<notin> set (allocs alloc n s')" using IH st by fastforce
    then show ?thesis using IH st a Some by force
  qed
qed simp

lemma allocs_hosts:
  assumes "inv s"
  shows "distinct (allocs alloc n s)"
    "a \<in> set (allocs alloc n s) \<Longrightarrow>
       unat (base (rng s)) + 2 \<le> unat a \<and> unat a + 1 < unat (base (rng s)) + unat (size (rng s))"
  using allocs_spec [OF assms, of n] ctr_min [OF assms] by (auto simp: word_le_nat_alt)

text \<open>Nothing is wasted: an allocator hands out every host address in order.\<close>

lemma allocs_all:
  "inv s \<Longrightarrow> unat (ctr s) + n \<le> unat (size (rng s)) - 1 \<Longrightarrow>
     map unat (allocs alloc n s)
       = [unat (base (rng s)) + unat (ctr s) ..< unat (base (rng s)) + unat (ctr s) + n]"
proof (induction n arbitrary: s)
  case (Suc n)
  obtain r s' where a: "alloc s = (r, s')" by fastforce
  have "ctr s < size (rng s) - 1"
    using Suc.prems unat_size [OF Suc.prems(1)] by (simp add: word_less_nat_alt)
  then obtain x where r: "r = Some x"
    using alloc_None [OF Suc.prems(1)] a by (cases r) auto
  note st = step_nat [OF Suc.prems(1) a [unfolded r]]
  have "map unat (allocs alloc n s')
      = [unat (base (rng s')) + unat (ctr s') ..< unat (base (rng s')) + unat (ctr s') + n]"
    by (rule Suc.IH [OF st(4)]) (use Suc.prems st in simp)
  then show ?case using a r st by (simp add: upt_conv_Cons)
qed simp

end

definition subnet_counter :: "ip_range \<Rightarrow> ipam \<Rightarrow> u32" where
  "subnet_counter subnet s =
    (case map_of (next_in_subnet s) (base subnet) of Some c \<Rightarrow> c | None \<Rightarrow> 2)"

lemma succ_ge_2: "2 \<le> c \<Longrightarrow> \<not> m \<le> c \<Longrightarrow> (2 :: u32) \<le> c + 1"
  using unat_u32_less [of m] by (simp add: word_le_nat_alt word_less_nat_alt unat_add_u32)

interpretation range_hosts: bump_allocator
  allocate next_host range "\<lambda>s. wf_range (range s) \<and> 2 \<le> next_host s"
  by unfold_locales (auto simp: allocate_def Let_def intro: succ_ge_2 split: if_splits)

interpretation subnet_hosts: bump_allocator
  "allocate_in subnet" "subnet_counter subnet" "\<lambda>_. subnet"
  "\<lambda>s. wf_range subnet \<and> 2 \<le> subnet_counter subnet s" for subnet
  by unfold_locales
    (auto simp: allocate_in_def subnet_counter_def Let_def intro: succ_ge_2 split: if_splits option.splits)

section \<open>Subnets\<close>

definition subnet_at :: "ipam \<Rightarrow> nat \<Rightarrow> ip_range \<Rightarrow> bool" where
  "subnet_at s i r \<longleftrightarrow>
     size r = 256 \<and> unat (base r) = unat (base (range s)) + 256 * i
     \<and> 256 * (i + 1) \<le> unat (size (range s))"

definition subnet_inv :: "ipam \<Rightarrow> bool" where
  "subnet_inv s \<longleftrightarrow>
     unat (base (range s)) + unat (size (range s)) \<le> 2 ^ 32
     \<and> (\<forall>k r. map_of (subnets s) k = Some r \<longrightarrow> (\<exists>i < unat (next_subnet s). subnet_at s i r))
     \<and> (\<forall>k k' r r'. map_of (subnets s) k = Some r \<longrightarrow> map_of (subnets s) k' = Some r' \<longrightarrow>
          base r = base r' \<longrightarrow> k = k')"

lemma subnet_inv_at: "subnet_inv s \<Longrightarrow> map_of (subnets s) k = Some r \<Longrightarrow> \<exists>i. subnet_at s i r"
  unfolding subnet_inv_def by blast

lemma subnet_inv_inj:
  "subnet_inv s \<Longrightarrow> map_of (subnets s) k = Some r \<Longrightarrow> map_of (subnets s) k' = Some r' \<Longrightarrow>
     k \<noteq> k' \<Longrightarrow> base r \<noteq> base r'"
  unfolding subnet_inv_def by blast

lemma ipam_new_subnets: "wf_range r \<Longrightarrow> subnet_inv (ipam_new r)"
  by (simp add: subnet_inv_def ipam_new_def wf_range_def)

lemma subnet_at_cong: "range s' = range s \<Longrightarrow> subnet_at s' i r = subnet_at s i r"
  by (simp add: subnet_at_def)

lemma subnet_index:
  assumes "unat (idx :: u32) < 2 ^ 24 - 1"
  shows "unat (idx + 1) = unat idx + 1" "unat ((idx + 1) * 256) = 256 * (unat idx + 1)"
    "unat (idx * 256) = 256 * unat idx"
proof -
  show 1: "unat (idx + 1) = unat idx + 1" using assms by (simp add: unat_add_u32)
  show "unat ((idx + 1) * 256) = 256 * (unat idx + 1)"
    by (subst unat_mult_u32) (use assms 1 in simp_all)
  show "unat (idx * 256) = 256 * unat idx" using assms by (simp add: unat_mult_u32)
qed

lemma subnet_inv_bump:
  assumes "subnet_inv s" "unat (next_subnet s) < 2 ^ 24 - 1"
  shows "subnet_inv (s\<lparr>next_subnet := next_subnet s + 1\<rparr>)"
proof -
  have at: "subnet_at (s\<lparr>next_subnet := n\<rparr>) = subnet_at s" for n
    by (simp add: fun_eq_iff subnet_at_def)
  show ?thesis
    using assms(1) subnet_index(1) [OF assms(2)] unfolding subnet_inv_def
    by (simp add: at) (metis less_SucI)
qed

lemma fresh_subnet_at:
  assumes "subnet_inv s" "unat (next_subnet s) < 2 ^ 24 - 1"
    and "\<not> (next_subnet s + 1) * 256 > size (range s)"
  shows "subnet_at s (unat (next_subnet s))
    \<lparr>base = base (range s) + next_subnet s * 256, size = 256\<rparr>"
proof -
  note ix = subnet_index [OF assms(2)]
  have le: "256 * (unat (next_subnet s) + 1) \<le> unat (size (range s))"
    using assms(3) ix by (simp add: word_less_nat_alt)
  then have "unat (base (range s)) + 256 * unat (next_subnet s) < 2 ^ 32"
    using assms(1) by (simp add: subnet_inv_def)
  then show ?thesis using le ix by (simp add: subnet_at_def unat_add_u32)
qed

lemma subnet_loop_spec:
  "subnet_inv s \<Longrightarrow> map_of (subnets s) key = None \<Longrightarrow> unat (next_subnet s) + n < 2 ^ 24 - 1 \<Longrightarrow>
   subnet_loop n live key s = (r, s') \<Longrightarrow>
   subnet_inv s' \<and> range s' = range s \<and> unat (next_subnet s') \<le> unat (next_subnet s) + n
     \<and> (case r of
          None \<Rightarrow> subnets s' = subnets s
        | Some sub \<Rightarrow> base sub \<notin> set live \<and> map_of (subnets s') = (map_of (subnets s))(key \<mapsto> sub))"
proof (induction n arbitrary: s)
  case (Suc n)
  let ?s1 = "s\<lparr>next_subnet := next_subnet s + 1\<rparr>"
  let ?sub = "\<lparr>base = base (range s) + next_subnet s * 256, size = 256\<rparr> :: ip_range"
  have lt: "unat (next_subnet s) < 2 ^ 24 - 1" using Suc.prems(3) by simp
  note ix = subnet_index(1) [OF lt] and inv1 = subnet_inv_bump [OF Suc.prems(1) lt]
  consider (full) "(next_subnet s + 1) * 256 > size (range s)"
    | (skip) "\<not> (next_subnet s + 1) * 256 > size (range s)"
        "base ?sub \<in> set live \<or> subnet_taken (base ?sub) (subnets s)"
    | (take) "\<not> (next_subnet s + 1) * 256 > size (range s)" "base ?sub \<notin> set live"
        "\<not> subnet_taken (base ?sub) (subnets s)" by blast
  then show ?case
  proof cases
    case full
    then have "r = None" "s' = ?s1" using Suc.prems(4) by (simp_all add: Let_def)
    then show ?thesis using inv1 ix by simp
  next
    case skip
    then have step: "subnet_loop n live key ?s1 = (r, s')" using Suc.prems(4) by (auto simp: Let_def split: if_splits)
    have "subnet_inv s' \<and> range s' = range ?s1 \<and> unat (next_subnet s') \<le> unat (next_subnet ?s1) + n
      \<and> (case r of None \<Rightarrow> subnets s' = subnets ?s1
         | Some sub \<Rightarrow> base sub \<notin> set live \<and> map_of (subnets s') = (map_of (subnets ?s1))(key \<mapsto> sub))"
      by (rule Suc.IH [OF inv1 _ _ step]) (use Suc.prems(2,3) ix in simp_all)
    then show ?thesis using ix by (simp split: option.splits)
  next
    case take
    have r: "r = Some ?sub" "s' = ?s1\<lparr>subnets := AList.update key ?sub (subnets s)\<rparr>"
      using take Suc.prems(4) by (auto simp: Let_def split: if_splits)
    have other: "base r' \<noteq> base ?sub" "base ?sub \<noteq> base r'"
      if "map_of (subnets s) k = Some r'" for k r'
      using take(3) map_of_SomeD [OF that] by (auto simp: subnet_taken_def list_ex_iff)
    have "subnet_at s (unat (next_subnet s)) ?sub"
      by (rule fresh_subnet_at [OF Suc.prems(1) lt take(1)])
    then have "subnet_inv s'"
      using inv1 Suc.prems(1,2) other ix unfolding subnet_inv_def
      by (auto simp: r subnet_at_def split: if_splits)
    then show ?thesis using take r ix by simp
  qed
qed simp

section \<open>Concurrent allocation\<close>

text \<open>
  Several threads in the compare-and-exchange loop of \<^verbatim>\<open>allocate\<close>: each step is
  one atomic access of the shared counter.  \<open>loaded\<close> holds the value a thread
  read in its current iteration, \<open>granted\<close> the addresses returned so far.
\<close>

record alloc_sys =
  counter :: u32
  loaded :: "nat \<Rightarrow> u32 option"
  granted :: "u32 list"

inductive alloc_step :: "ip_range \<Rightarrow> alloc_sys \<Rightarrow> alloc_sys \<Rightarrow> bool" for r :: ip_range where
  load: "loaded s t = None \<Longrightarrow>
    alloc_step r s (s\<lparr>loaded := (loaded s)(t \<mapsto> counter s)\<rparr>)"
| full: "loaded s t = Some c \<Longrightarrow> c \<ge> size r - 1 \<Longrightarrow>
    alloc_step r s (s\<lparr>loaded := (loaded s)(t := None)\<rparr>)"
| exchange: "loaded s t = Some c \<Longrightarrow> \<not> c \<ge> size r - 1 \<Longrightarrow> counter s = c \<Longrightarrow>
    alloc_step r s
      (s\<lparr>counter := c + 1, loaded := (loaded s)(t := None), granted := granted s @ [base r + c]\<rparr>)"
| retry: "loaded s t = Some c \<Longrightarrow> \<not> c \<ge> size r - 1 \<Longrightarrow> counter s \<noteq> c \<Longrightarrow>
    alloc_step r s (s\<lparr>loaded := (loaded s)(t := None)\<rparr>)"

definition alloc_init :: alloc_sys where
  "alloc_init = \<lparr>counter = 2, loaded = (\<lambda>_. None), granted = []\<rparr>"

inductive alloc_run :: "ip_range \<Rightarrow> alloc_sys \<Rightarrow> bool" for r :: ip_range where
  start: "alloc_run r alloc_init"
| more: "alloc_run r s \<Longrightarrow> alloc_step r s s' \<Longrightarrow> alloc_run r s'"

lemma alloc_run_inv:
  "alloc_run r s \<Longrightarrow> wf_range r \<Longrightarrow>
     2 \<le> unat (counter s) \<and> unat (counter s) \<le> unat (size r) - 1
     \<and> map unat (granted s) = [unat (base r) + 2 ..< unat (base r) + unat (counter s)]"
proof (induction rule: alloc_run.induct)
  case start
  then show ?case
    by (auto simp: alloc_init_def wf_range_def word_le_nat_alt)
next
  case (more s s')
  have inv: "2 \<le> unat (counter s)" "unat (counter s) \<le> unat (size r) - 1"
    "map unat (granted s) = [unat (base r) + 2 ..< unat (base r) + unat (counter s)]"
    using more by auto
  have sz: "size r \<noteq> 0" "unat (base r) + unat (size r) \<le> 2 ^ 32"
    using more.prems by (auto simp: wf_range_def)
  from more.hyps(2) show ?case
  proof cases
    case (exchange t c)
    have lt: "unat c < unat (size r) - 1"
      using exchange(3) unat_minus_one [OF sz(1)] by (simp add: word_le_nat_alt)
    have "unat (c + 1) = unat c + 1" "unat (base r + c) = unat (base r) + unat c"
      using lt sz(2) by (simp_all add: unat_add_u32)
    then show ?thesis using inv lt exchange by simp
  qed (use inv in simp_all)
qed

section \<open>Properties\<close>

text \<open>
  C21: host addresses are never handed out twice.  From a well-formed range, any
  number of allocations returns pairwise distinct addresses, all strictly between
  the gateway (base + 1) and the broadcast address; the allocator of a subnet
  does the same for the subnet.
\<close>

theorem allocations_distinct:
  assumes "wf_range (range s)" "2 \<le> next_host s"
    and "wf_range subnet" "2 \<le> subnet_counter subnet s"
  shows "distinct (allocs allocate n s) \<and> distinct (allocs (allocate_in subnet) n s)
    \<and> (\<forall>a \<in> set (allocs allocate n s). a \<noteq> gateway s
         \<and> unat (base (range s)) + 2 \<le> unat a \<and> unat a + 1 < unat (base (range s)) + unat (size (range s)))
    \<and> (\<forall>a \<in> set (allocs (allocate_in subnet) n s).
         unat (base subnet) + 2 \<le> unat a \<and> unat a + 1 < unat (base subnet) + unat (size subnet))"
proof -
  have gw: "unat (gateway s) = unat (base (range s)) + 1"
    using assms(1) by (simp add: gateway_def wf_range_def word_le_nat_alt unat_add_u32)
  have host: "unat (base (range s)) + 2 \<le> unat a \<and> unat a + 1 < unat (base (range s)) + unat (size (range s))"
    if "a \<in> set (allocs allocate n s)" for a
    using range_hosts.allocs_hosts(2) [of s a n] assms(1,2) that by simp
  moreover have "a \<noteq> gateway s" if "a \<in> set (allocs allocate n s)" for a
    using host [OF that] gw by auto
  ultimately show ?thesis
    using range_hosts.allocs_hosts(1) [of s n] subnet_hosts.allocs_hosts [where subnet = subnet and s = s and n = n] assms by auto
qed

theorem allocations_distinct_witness:
  "distinct (allocs allocate 5 (ipam_new \<lparr>base = 0x0A000000, size = 8\<rparr>))"
  using allocations_distinct [of "ipam_new \<lparr>base = 0x0A000000, size = 8\<rparr>"
      "\<lparr>base = 0x0A000000, size = 8\<rparr>" 5]
  by (simp add: ipam_new_def wf_range_def subnet_counter_def)

text \<open>
  C22: the lock-free loop is linearizable.  In every interleaving of any number of
  threads the addresses granted so far are the consecutive host addresses from
  base + 2 up to the shared counter, so no two threads ever receive the same one.
\<close>

theorem concurrent_allocations_distinct:
  assumes "alloc_run r s" "wf_range r"
  shows "distinct (granted s)
    \<and> map unat (granted s) = [unat (base r) + 2 ..< unat (base r) + unat (counter s)]
    \<and> unat (counter s) < unat (size r)"
proof -
  note inv = alloc_run_inv [OF assms]
  have "distinct (map unat (granted s))" using inv by simp
  then have "distinct (granted s)" by (simp add: distinct_map)
  moreover have "0 < unat (size r)" using assms(2) by (auto simp: wf_range_def word_le_nat_alt)
  ultimately show ?thesis using inv by auto
qed

theorem concurrent_allocations_distinct_witness:
  "\<exists>s. alloc_run \<lparr>base = 100, size = 8\<rparr> s \<and> granted s = [102] \<and> distinct (granted s)"
proof -
  let ?r = "\<lparr>base = 100, size = 8\<rparr> :: ip_range"
  let ?s1 = "alloc_init\<lparr>loaded := (loaded alloc_init)(0 \<mapsto> counter alloc_init)\<rparr>"
  let ?s2 = "?s1\<lparr>counter := 2 + 1, loaded := (loaded ?s1)(0 := None), granted := granted ?s1 @ [base ?r + 2]\<rparr>"
  have "alloc_step ?r alloc_init ?s1" by (rule alloc_step.load) (simp add: alloc_init_def)
  then have "alloc_run ?r ?s1" by (rule alloc_run.more [OF alloc_run.start])
  moreover have "alloc_step ?r ?s1 ?s2"
    by (rule alloc_step.exchange) (simp_all add: alloc_init_def)
  ultimately have run: "alloc_run ?r ?s2" by (rule alloc_run.more)
  have "wf_range ?r" by (simp add: wf_range_def)
  from concurrent_allocations_distinct [OF run this] run show ?thesis
    by (intro exI [of _ ?s2]) (simp add: alloc_init_def)
qed

text \<open>
  C23: bridge subnets are stable and disjoint.  A subnet handed out for a key lies
  inside the range, is not one the host already routes, shares no address with
  the subnet of any other key, and is returned again for the same key, as long as
  fewer than 2 to the 24 indices have been consumed.
\<close>

theorem subnets_disjoint:
  assumes "subnet_inv s" "unat (next_subnet s) + 64 < 2 ^ 24 - 1"
    and "subnet_for route key s = (Some sub, s')"
  shows "subnet_inv s' \<and> subnet_for route' key s' = (Some sub, s')
    \<and> unat (base (range s)) \<le> unat (base sub)
    \<and> unat (base sub) + 256 \<le> unat (base (range s)) + unat (size (range s))
    \<and> (map_of (subnets s) key = None \<longrightarrow>
         base sub \<notin> set (live_subnets_in_range route (base (range s)) (size (range s))))
    \<and> (\<forall>key' sub' a. key' \<noteq> key \<longrightarrow> map_of (subnets s') key' = Some sub' \<longrightarrow>
         \<not> (unat (base sub) \<le> a \<and> a < unat (base sub) + 256
            \<and> unat (base sub') \<le> a \<and> a < unat (base sub') + 256))"
proof -
  have res: "subnet_inv s' \<and> range s' = range s \<and> map_of (subnets s') key = Some sub
      \<and> (map_of (subnets s) key = None \<longrightarrow>
           base sub \<notin> set (live_subnets_in_range route (base (range s)) (size (range s))))"
    using assms subnet_loop_spec [OF assms(1) _ assms(2), of key]
    by (fastforce simp: subnet_for_def split: option.splits)
  then obtain i where i: "subnet_at s' i sub" using subnet_inv_at by blast
  have disj: "\<not> (unat (base sub) \<le> a \<and> a < unat (base sub) + 256
      \<and> unat (base sub') \<le> a \<and> a < unat (base sub') + 256)"
    if other: "key' \<noteq> key" "map_of (subnets s') key' = Some sub'" for key' sub' a
  proof -
    obtain j where j: "subnet_at s' j sub'" using res other(2) subnet_inv_at by blast
    have "base sub \<noteq> base sub'" using res other subnet_inv_inj [of s' key sub key' sub'] by simp
    then have "unat (base sub) \<noteq> unat (base sub')" by (metis unsigned_word_eqI)
    then have "i \<noteq> j" using i j by (auto simp: subnet_at_def)
    then show ?thesis using i j by (auto simp: subnet_at_def)
  qed
  have "subnet_for route' key s' = (Some sub, s')" using res by (simp add: subnet_for_def)
  moreover have "unat (base (range s)) \<le> unat (base sub)
      \<and> unat (base sub) + 256 \<le> unat (base (range s)) + unat (size (range s))"
    using i res by (simp add: subnet_at_def)
  ultimately show ?thesis using res disj by blast
qed

lemma first_subnet:
  assumes "256 \<le> size r"
  shows "subnet_for None key (ipam_new r) =
    (Some \<lparr>base = base r, size = 256\<rparr>,
     (ipam_new r)\<lparr>next_subnet := 1, subnets := [(key, \<lparr>base = base r, size = 256\<rparr>)]\<rparr>)"
proof -
  have loop: "subnet_loop 64 = subnet_loop (Suc 63)" by simp
  show ?thesis
    using assms unfolding subnet_for_def loop subnet_loop.simps
    by (simp add: ipam_new_def live_subnets_in_range_def subnet_taken_def Let_def not_less)
qed

theorem subnets_disjoint_witness:
  "\<exists>sub s'. subnet_for None ''pod-a'' (ipam_new \<lparr>base = 0x0A000000, size = 0x10000\<rparr>) = (Some sub, s')
     \<and> subnet_for None ''pod-a'' s' = (Some sub, s') \<and> unat (base sub) = 0x0A000000"
proof -
  let ?s = "ipam_new \<lparr>base = 0x0A000000, size = 0x10000\<rparr>"
  let ?sub = "\<lparr>base = 0x0A000000, size = 256\<rparr> :: ip_range"
  have r: "subnet_for None ''pod-a'' ?s
      = (Some ?sub, ?s\<lparr>next_subnet := 1, subnets := [(''pod-a'', ?sub)]\<rparr>)"
    using first_subnet [of "\<lparr>base = 0x0A000000, size = 0x10000\<rparr>" "''pod-a''"]
    by (simp add: ipam_new_def)
  have "subnet_inv ?s" by (rule ipam_new_subnets) (simp add: wf_range_def)
  moreover have "unat (next_subnet ?s) + 64 < 2 ^ 24 - 1" by (simp add: ipam_new_def)
  ultimately show ?thesis using subnets_disjoint [OF _ _ r, of None] r by auto
qed



lemma less_mod_bound: "0 < m \<Longrightarrow> n < n - n mod m + (m :: nat)"
  using mod_less_divisor [of m n] by linarith

lemma aligned_fits:
  assumes "0 < m" "m dvd (t :: nat)" "n < t"
  shows "n - n mod m + m \<le> t"
proof -
  obtain q where q: "t = m * q" using assms(2) by blast
  have "n div m < q" using assms by (simp add: q less_mult_imp_div_less mult.commute)
  then have "m * (n div m + 1) \<le> m * q" by (intro mult_le_mono2) simp
  then show ?thesis by (simp add: q minus_mod_eq_mult_div)
qed

lemma split_on_join: "split_on c s = [a, b] \<Longrightarrow> s = a @ [c] @ b"
proof (induction s arbitrary: a)
  case (Cons d s)
  show ?case
  proof (cases "d = c")
    case True
    then have "a = []" "split_on c s = [b]" using Cons.prems by auto
    moreover have "c \<notin> set s \<or> length (split_on c s) \<noteq> 1" for s
      by (induction s) (auto split: list.splits)
    ultimately have "split_on c s = [s]" by (metis length_Cons list.size(3) One_nat_def split_on_no_sep)
    then show ?thesis using True \<open>a = []\<close> \<open>split_on c s = [b]\<close> by simp
  next
    case False
    then obtain x where "split_on c s = [x, b]" "a = d # x"
      using Cons.prems by (auto split: list.splits)
    then show ?thesis using Cons.IH by simp
  qed
qed simp

lemma unat_power_u32: "k < 32 \<Longrightarrow> unat (2 ^ k :: u32) = 2 ^ k"
proof -
  assume k: "k < 32"
  have "(2 :: u32) ^ k = word_of_nat (2 ^ k)" by simp
  moreover have "(2 :: nat) ^ k < 2 ^ 32" using k by (rule power_strict_increasing) simp
  ultimately show ?thesis by (metis unat_word_of_nat_u32)
qed

lemma shl32_eq: "0 < p \<Longrightarrow> shl32 (32 - p) = 2 ^ (32 - p)"
  by (simp add: shl32_def)

lemma and_not_mask_nat:
  "unat (ip AND NOT (2 ^ k - 1) :: u32) = unat ip - unat ip mod 2 ^ k"
proof -
  have "ip AND NOT (take_bit k ip) = ip AND NOT (mask k)"
    by (rule bit_word_eqI) (auto simp: bit_simps)
  moreover have "ip - take_bit k ip = ip AND NOT (take_bit k ip)"
    by (rule disjunctive_diff) (simp add: bit_take_bit_iff)
  ultimately have eq: "ip AND NOT (2 ^ k - 1) = ip - take_bit k ip" by (simp add: mask_eq_decr_exp)
  have tb: "unat (take_bit k ip) = unat ip mod 2 ^ k"
    unfolding unsigned_take_bit_eq by (rule take_bit_eq_mod)
  have "take_bit k ip \<le> ip" by (simp add: word_le_nat_alt tb)
  then show ?thesis by (simp add: eq unat_sub tb)
qed

text \<open>
  Parsing a CIDR block.  An accepted block with a prefix of at least 1 gives a
  range whose size is the power of two of the host bits, whose base is a multiple
  of the size, which contains the address and does not wrap around; the prefix 0
  gives the base 0 and (by the shift of 32 bits) the size 1.
\<close>

lemma cidr_range:
  assumes "range_from_cidr cidr = Inr r"
  shows "\<exists>a p ip prefix. cidr = a @ ''/'' @ p \<and> parse_ipv4 a = Some ip \<and> parse_u32 p = Some prefix
    \<and> unat prefix \<le> 32
    \<and> (if unat prefix = 0 then base r = 0 \<and> size r = 1
       else unat (size r) = 2 ^ (32 - unat prefix) \<and> unat (size r) dvd unat (base r)
         \<and> unat (base r) \<le> unat ip \<and> unat ip < unat (base r) + unat (size r)
         \<and> unat (base r) + unat (size r) \<le> 2 ^ 32)"
proof -
  obtain a p ip prefix where parts: "split_on (CHR ''/'') cidr = [a, p]" "parse_ipv4 a = Some ip"
      "parse_u32 p = Some prefix" "\<not> prefix > 32"
    and r: "r = \<lparr>base = ip AND (if prefix = 0 then 0 else NOT (shl32 (32 - unat prefix) - 1)),
              size = shl32 (32 - unat prefix)\<rparr>"
    using assms by (auto simp: range_from_cidr_def Let_def split: list.splits option.splits if_splits)
  have cidr: "cidr = a @ ''/'' @ p"
    using parts(1) split_on_join [of "CHR ''/''" cidr] by simp
  have p32: "unat prefix \<le> 32" using parts(4) by (simp add: word_less_nat_alt)
  show ?thesis
  proof (cases "unat prefix = 0")
    case True
    then have "prefix = 0" by (simp add: unsigned_eq_0_iff)
    then have "base r = 0 \<and> size r = 1" by (simp add: r shl32_def)
    then show ?thesis using cidr parts p32 True
      by (intro exI [of _ a] exI [of _ p] exI [of _ ip] exI [of _ prefix]) simp
  next
    case False
    let ?k = "32 - unat prefix"
    have k: "?k < 32" "prefix \<noteq> 0" using False p32 by auto
    have sz: "unat (size r) = 2 ^ ?k"
      using False by (simp add: r shl32_eq unat_power_u32 [OF k(1)])
    have b: "unat (base r) = unat ip - unat ip mod 2 ^ ?k"
      using False k(2) by (simp add: r shl32_eq and_not_mask_nat)
    have dvd: "unat (size r) dvd unat (base r)" unfolding sz b by (simp add: dvd_minus_mod)
    have "(2 :: nat) ^ ?k dvd 2 ^ 32" by (rule le_imp_power_dvd) (use k in simp)
    moreover have "unat ip < 2 ^ 32" by (rule unat_u32_less)
    ultimately have "unat (base r) + unat (size r) \<le> 2 ^ 32"
      using aligned_fits [of "2 ^ ?k" "2 ^ 32" "unat ip"] unfolding sz b by simp
    moreover have "unat (base r) \<le> unat ip" "unat ip < unat (base r) + unat (size r)"
      unfolding sz b using less_mod_bound [of "2 ^ ?k" "unat ip"] by simp_all
    ultimately show ?thesis using cidr parts p32 False sz dvd
      by (intro exI [of _ a] exI [of _ p] exI [of _ ip] exI [of _ prefix]) simp
  qed
qed

lemma cidr_range_witness:
  "\<exists>r. range_from_cidr ''10.42.0.0/16'' = Inr r
    \<and> (\<exists>a p ip prefix. ''10.42.0.0/16'' = a @ ''/'' @ p \<and> parse_ipv4 a = Some ip
      \<and> parse_u32 p = Some prefix \<and> unat prefix \<le> 32
      \<and> (if unat prefix = 0 then base r = 0 \<and> size r = 1
         else unat (size r) = 2 ^ (32 - unat prefix) \<and> unat (size r) dvd unat (base r)
           \<and> unat (base r) \<le> unat ip \<and> unat ip < unat (base r) + unat (size r)
           \<and> unat (base r) + unat (size r) \<le> 2 ^ 32))"
proof -
  have "range_from_cidr ''10.42.0.0/16'' = Inr (projr (range_from_cidr ''10.42.0.0/16''))"
    by (simp add: range_from_cidr_def parse_ipv4_def parse_octet_def parse_u32_def parse_radix_def
        dec_digit_def word_less_nat_alt Let_def)
  from cidr_range [OF this] this show ?thesis by blast
qed

end
