(* ===== verification/Bloom_Filter.thy ===== *)
theory Bloom_Filter
  imports Reference_Crates
begin

text \<open>
  Bloom filters and block deltas: \<^verbatim>\<open>pullrun-sync/src/bloom.rs\<close> and
  \<^verbatim>\<open>pullrun-sync/src/delta.rs\<close>.  Words are 64-bit, hashes wrap, and a
  remainder by zero or an index out of range is a panic (\<open>None\<close>).  The sizes
  chosen by \<^verbatim>\<open>optimal\<close> come from floating-point logarithms; the two raw
  values are arguments and only their clamping to at least 1 is modelled.
\<close>

unbundle bit_operations_syntax

definition as_bytes :: "string \<Rightarrow> bytes" where
  "as_bytes s = map (\<lambda>c. word_of_nat (of_char c)) s"

record bloom_filter =
  bits :: "u64 list"
  bloom_k :: u32
  bloom_m :: u64
  num_items :: u64

definition word_count :: "u64 \<Rightarrow> nat" where
  "word_count m = unat m div 64 + (if unat m mod 64 = 0 then 0 else 1)"

definition bloom_new :: "u64 \<Rightarrow> u32 \<Rightarrow> bloom_filter" where
  "bloom_new m k =
    \<lparr>bits = replicate (word_count m) 0, bloom_k = k, bloom_m = m, num_items = 0\<rparr>"

definition bloom_optimal :: "u64 \<Rightarrow> u32 \<Rightarrow> bloom_filter" where
  "bloom_optimal raw_m raw_k = bloom_new (max raw_m 1) (max raw_k 1)"

definition hash_seed :: "ext \<Rightarrow> string \<Rightarrow> u64 \<Rightarrow> u64" where
  "hash_seed E item seed =
    u64_from_le_bytes (take 8 (sha256 E (as_bytes item @ u64_to_le_bytes seed)))"

definition hash_pair :: "ext \<Rightarrow> string \<Rightarrow> u64 \<times> u64" where
  "hash_pair E item = (hash_seed E item 0, hash_seed E item 1)"

definition g_i :: "u64 \<Rightarrow> u64 \<Rightarrow> u32 \<Rightarrow> u64 \<Rightarrow> u64" where
  "g_i h1 h2 i m = ((h1 + ucast i) * h2) mod m"

fun insert_loop :: "u64 \<Rightarrow> u64 \<Rightarrow> u64 \<Rightarrow> u32 \<Rightarrow> nat \<Rightarrow> u64 list \<Rightarrow> u64 list option" where
  "insert_loop h1 h2 m i 0 bs = Some bs"
| "insert_loop h1 h2 m i (Suc n) bs =
    (if m = 0 then None
     else let bit_no = g_i h1 h2 i m;
              word = unat (bit_no div 64);
              offset = unat (bit_no mod 64)
          in if word < length bs
             then insert_loop h1 h2 m (i + 1) n (bs[word := bs ! word OR push_bit offset 1])
             else None)"

definition bloom_insert :: "ext \<Rightarrow> bloom_filter \<Rightarrow> string \<Rightarrow> bloom_filter option" where
  "bloom_insert E f item =
    (case hash_pair E item of
       (h1, h2) \<Rightarrow>
         map_option (\<lambda>bs. f\<lparr>bits := bs, num_items := num_items f + 1\<rparr>)
           (insert_loop h1 h2 (bloom_m f) 0 (unat (bloom_k f)) (bits f)))"

fun contains_loop :: "u64 \<Rightarrow> u64 \<Rightarrow> u64 \<Rightarrow> u32 \<Rightarrow> nat \<Rightarrow> u64 list \<Rightarrow> bool option" where
  "contains_loop h1 h2 m i 0 bs = Some True"
| "contains_loop h1 h2 m i (Suc n) bs =
    (if m = 0 then None
     else let bit_no = g_i h1 h2 i m;
              word = unat (bit_no div 64);
              offset = unat (bit_no mod 64)
          in if word < length bs
             then (if bs ! word AND push_bit offset 1 = 0 then Some False
                   else contains_loop h1 h2 m (i + 1) n bs)
             else None)"

definition bloom_contains :: "ext \<Rightarrow> bloom_filter \<Rightarrow> string \<Rightarrow> bool option" where
  "bloom_contains E f item =
    (case hash_pair E item of
       (h1, h2) \<Rightarrow> contains_loop h1 h2 (bloom_m f) 0 (unat (bloom_k f)) (bits f))"

definition bloom_merge :: "bloom_filter \<Rightarrow> bloom_filter \<Rightarrow> bloom_filter option" where
  "bloom_merge f g =
    (if length (bits f) = length (bits g) \<and> bloom_k f = bloom_k g
     then Some (f\<lparr>bits := map2 (\<lambda>a b. a OR b) (bits f) (bits g),
                  num_items := max (num_items f) (num_items g)\<rparr>)
     else None)"

definition to_bytes :: "bloom_filter \<Rightarrow> bytes" where
  "to_bytes f =
    u64_to_le_bytes (bloom_m f) @ u32_to_le_bytes (bloom_k f)
      @ concat (map u64_to_le_bytes (bits f))"

definition from_bytes :: "bytes \<Rightarrow> (bloom_filter \<times> nat) option" where
  "from_bytes data =
    (if length data < 12 then None
     else let m = u64_from_le_bytes (take 8 data);
              k = u32_from_le_bytes (take 4 (drop 8 data));
              expected_len = 12 + word_count m * 8
          in if length data < expected_len then None
             else Some (\<lparr>bits = map (\<lambda>i. u64_from_le_bytes (take 8 (drop (12 + i * 8) data)))
                                  [0..<word_count m],
                         bloom_k = k, bloom_m = m, num_items = 0\<rparr>, expected_len))"

definition bloom_clear :: "bloom_filter \<Rightarrow> bloom_filter" where
  "bloom_clear f = f\<lparr>bits := replicate (length (bits f)) 0, num_items := 0\<rparr>"

fun compute_delta :: "ext \<Rightarrow> string list \<Rightarrow> bloom_filter \<Rightarrow> string list option" where
  "compute_delta E [] peer_filter = Some []"
| "compute_delta E (d # local_blobs) peer_filter =
    (case bloom_contains E peer_filter d of
       None \<Rightarrow> None
     | Some present \<Rightarrow>
         map_option (\<lambda>ds. if present then ds else d # ds)
           (compute_delta E local_blobs peer_filter))"

section \<open>Filters as sets of bit positions\<close>

text \<open>
  The abstraction of a filter is the set of its bits.  An insertion adds the
  positions of the item, a query asks whether they are all there, a merge is a
  union; from these four equations everything else about filters follows.
\<close>

definition bloom_inv :: "bloom_filter \<Rightarrow> bool" where
  "bloom_inv f \<longleftrightarrow> bloom_m f \<noteq> 0 \<and> length (bits f) = word_count (bloom_m f)"

definition bit_at :: "u64 list \<Rightarrow> nat \<Rightarrow> bool" where
  "bit_at bs p \<longleftrightarrow> p div 64 < length bs \<and> bit (bs ! (p div 64)) (p mod 64)"

definition bit_set :: "bloom_filter \<Rightarrow> nat set" where
  "bit_set f = {p. bit_at (bits f) p}"

definition positions :: "ext \<Rightarrow> u64 \<Rightarrow> u32 \<Rightarrow> string \<Rightarrow> nat set" where
  "positions E m k item =
    (\<lambda>i. unat (g_i (hash_seed E item 0) (hash_seed E item 1) (word_of_nat i) m)) ` {..<unat k}"

lemma g_i_less: "m \<noteq> 0 \<Longrightarrow> unat (g_i h1 h2 i m) < unat m"
  by (simp add: g_i_def unat_mod unat_gt_0)

lemma word_count_pos: "n < unat m \<Longrightarrow> n div 64 < word_count m"
proof -
  assume n: "n < unat m"
  show "n div 64 < word_count m"
  proof (cases "unat m mod 64 = 0")
    case True
    then have "unat m = unat m div 64 * 64" by (simp add: mod_0_imp_dvd)
    then show ?thesis
      using less_mult_imp_div_less [of n "unat m div 64" 64] n True by (simp add: word_count_def)
  next
    case False
    then show ?thesis using div_le_mono [of n "unat m" 64] n by (simp add: word_count_def)
  qed
qed

lemma unat_div64 [simp]: "unat ((w :: u64) div 64) = unat w div 64"
  by (simp add: unat_div)

lemma unat_mod64 [simp]: "unat ((w :: u64) mod 64) = unat w mod 64"
  by (simp add: unat_mod)

lemma bit_at_set:
  assumes "p div 64 < length bs"
  shows "bit_at (bs[p div 64 := bs ! (p div 64) OR push_bit (p mod 64) 1]) q
    \<longleftrightarrow> q = p \<or> bit_at bs q"
proof (cases "q div 64 = p div 64")
  case True
  have "q = p \<longleftrightarrow> q mod 64 = p mod 64" using True by (metis div_mult_mod_eq)
  moreover have "bit (push_bit (p mod 64) (1 :: u64)) (q mod 64) \<longleftrightarrow> q mod 64 = p mod 64"
    by (auto simp: bit_exp_iff)
  ultimately show ?thesis using True assms by (auto simp: bit_at_def bit_or_iff)
next
  case False
  then show ?thesis by (auto simp: bit_at_def)
qed

lemma and_bit_zero: "(w :: u64) AND push_bit n 1 = 0 \<longleftrightarrow> \<not> bit w n" if "n < 64"
proof -
  have "w AND push_bit n 1 = (if bit w n then push_bit n 1 else 0)"
    by (rule bit_eqI) (auto simp: bit_simps)
  moreover have "push_bit n 1 \<noteq> (0 :: u64)"
    using that by (simp add: push_bit_eq_0_iff)
  ultimately show ?thesis by simp
qed

lemma bit_in_range:
  "m \<noteq> 0 \<Longrightarrow> length bs = word_count m \<Longrightarrow> unat (g_i h1 h2 i m) div 64 < length bs"
  using word_count_pos [OF g_i_less] by simp

lemma next_index: "i + 1 + word_of_nat j = i + word_of_nat (Suc j)" for i :: u32
  by simp

lemma insert_loop_ok:
  assumes "m \<noteq> 0" "length bs = word_count m"
  shows "\<exists>bs'. insert_loop h1 h2 m i n bs = Some bs' \<and> length bs' = length bs
      \<and> (\<forall>p. bit_at bs' p \<longleftrightarrow>
            bit_at bs p \<or> (\<exists>j < n. p = unat (g_i h1 h2 (i + word_of_nat j) m)))"
  using assms(2)
proof (induction n arbitrary: i bs)
  case (Suc n)
  let ?p = "unat (g_i h1 h2 i m)"
  have p: "?p div 64 < length bs" using assms(1) Suc.prems by (rule bit_in_range)
  let ?bs = "bs[?p div 64 := bs ! (?p div 64) OR push_bit (?p mod 64) 1]"
  obtain bs' where bs': "insert_loop h1 h2 m (i + 1) n ?bs = Some bs'" "length bs' = length bs"
      "\<And>p. bit_at bs' p \<longleftrightarrow> bit_at ?bs p
         \<or> (\<exists>j < n. p = unat (g_i h1 h2 (i + word_of_nat (Suc j)) m))"
    using Suc.IH [of ?bs "i + 1"] Suc.prems unfolding next_index by auto
  have "bit_at bs' q \<longleftrightarrow> bit_at bs q
         \<or> (\<exists>j < Suc n. q = unat (g_i h1 h2 (i + word_of_nat j) m))" for q
    unfolding bs'(3) bit_at_set [OF p] Ex_less_Suc2 by auto
  with bs' p assms(1) show ?case by (simp add: Let_def)
qed simp

lemma contains_loop_ok:
  assumes "m \<noteq> 0" "length bs = word_count m"
  shows "contains_loop h1 h2 m i n bs =
      Some (\<forall>j < n. bit_at bs (unat (g_i h1 h2 (i + word_of_nat j) m)))"
proof (induction n arbitrary: i)
  case (Suc n)
  let ?p = "unat (g_i h1 h2 i m)"
  have p: "?p div 64 < length bs" using assms by (rule bit_in_range)
  then have "bs ! (?p div 64) AND push_bit (?p mod 64) 1 = 0 \<longleftrightarrow> \<not> bit_at bs ?p"
    by (subst and_bit_zero) (simp_all add: bit_at_def)
  moreover have "contains_loop h1 h2 m (i + 1) n bs =
      Some (\<forall>j < n. bit_at bs (unat (g_i h1 h2 (i + word_of_nat (Suc j)) m)))"
    using Suc.IH [of "i + 1"] unfolding next_index .
  ultimately show ?case
    using p assms(1) by (simp add: Let_def All_less_Suc2 del: push_bit_of_1 of_nat_Suc)
qed simp

lemma insert_ok:
  assumes "bloom_inv f"
  obtains f' where "bloom_insert E f x = Some f'" "bloom_inv f'"
    "bloom_m f' = bloom_m f" "bloom_k f' = bloom_k f"
    "bit_set f' = bit_set f \<union> positions E (bloom_m f) (bloom_k f) x"
proof -
  obtain bs' where bs': "insert_loop (hash_seed E x 0) (hash_seed E x 1) (bloom_m f) 0
        (unat (bloom_k f)) (bits f) = Some bs'" "length bs' = length (bits f)"
      "\<forall>p. bit_at bs' p \<longleftrightarrow> bit_at (bits f) p \<or> (\<exists>j < unat (bloom_k f).
          p = unat (g_i (hash_seed E x 0) (hash_seed E x 1) (0 + word_of_nat j) (bloom_m f)))"
    using insert_loop_ok assms unfolding bloom_inv_def by blast
  show ?thesis
    by (rule that [of "f\<lparr>bits := bs', num_items := num_items f + 1\<rparr>"])
      (use assms bs' in \<open>auto simp: bloom_insert_def hash_pair_def bloom_inv_def bit_set_def positions_def\<close>)
qed

lemma contains_ok:
  assumes "bloom_inv f"
  shows "bloom_contains E f x = Some (positions E (bloom_m f) (bloom_k f) x \<subseteq> bit_set f)"
  using assms
  by (auto simp: bloom_contains_def hash_pair_def bloom_inv_def contains_loop_ok bit_set_def positions_def)

lemma new_ok:
  assumes "m \<noteq> 0"
  shows "bloom_inv (bloom_new m k)" "bit_set (bloom_new m k) = {}"
    "bloom_m (bloom_new m k) = m" "bloom_k (bloom_new m k) = k"
  using assms by (auto simp: bloom_inv_def bloom_new_def bit_set_def bit_at_def)

lemma clear_ok:
  assumes "bloom_inv f"
  shows "bloom_inv (bloom_clear f)" "bit_set (bloom_clear f) = {}"
    "bloom_m (bloom_clear f) = bloom_m f" "bloom_k (bloom_clear f) = bloom_k f"
  using assms by (auto simp: bloom_inv_def bloom_clear_def bit_set_def bit_at_def)

lemma merge_ok:
  assumes "bloom_inv f" "bloom_inv g" "bloom_merge f g = Some h"
  shows "bloom_inv h" "bit_set h = bit_set f \<union> bit_set g"
    "bloom_m h = bloom_m f" "bloom_k h = bloom_k f"
  using assms
  by (auto simp: bloom_merge_def bloom_inv_def bit_set_def bit_at_def bit_or_iff split: if_splits)

section \<open>Serialized filters\<close>

lemma length_concat_words: "length (concat (map u64_to_le_bytes ws)) = 8 * length ws"
  by (induction ws) auto

lemma words_at:
  "i < length ws \<Longrightarrow>
     u64_from_le_bytes (take 8 (drop (i * 8) (concat (map u64_to_le_bytes ws) @ rest))) = ws ! i"
proof (induction ws arbitrary: i)
  case (Cons w ws)
  show ?case
  proof (cases i)
    case (Suc j)
    have "drop (i * 8) (concat (map u64_to_le_bytes (w # ws)) @ rest)
        = drop (j * 8) (drop 8 (u64_to_le_bytes w @ concat (map u64_to_le_bytes ws) @ rest))"
      unfolding Suc drop_drop by (simp add: add.commute)
    also have "\<dots> = drop (j * 8) (concat (map u64_to_le_bytes ws) @ rest)"
      by (subst (2) drop_append) simp
    finally show ?thesis using Cons Suc by (simp del: drop_append take_append concat.simps)
  qed simp
qed simp

lemma from_to_bytes [codec_simps]:
  assumes "length (bits f) = word_count (bloom_m f)"
  shows "from_bytes (to_bytes f @ rest) = Some (f\<lparr>num_items := 0\<rparr>, length (to_bytes f))"
proof -
  let ?ws = "concat (map u64_to_le_bytes (bits f)) @ rest"
  let ?data = "to_bytes f @ rest"
  have m: "u64_from_le_bytes (take 8 ?data) = bloom_m f"
    and k: "u32_from_le_bytes (take 4 (drop 8 ?data)) = bloom_k f"
    by (simp_all add: to_bytes_def)
  have "drop (12 + i) ?data = drop i ?ws" for i
    by (simp add: to_bytes_def)
  then have ws: "map (\<lambda>i. u64_from_le_bytes (take 8 (drop (12 + i * 8) ?data))) [0..<word_count (bloom_m f)]
      = bits f"
    unfolding assms [symmetric]
    by (intro nth_equalityI) (simp_all add: words_at del: drop_append take_append)
  have len: "length (to_bytes f) = 12 + word_count (bloom_m f) * 8"
    by (simp add: to_bytes_def length_concat_words assms)
  show ?thesis
    unfolding from_bytes_def Let_def m k ws len by (simp add: len)
qed

section \<open>The contract of a membership filter\<close>

text \<open>
  What the users of a filter rely on: an insertion adds the marks of the item to
  the footprint, a join is the union, a query tests inclusion.  A filter
  represents a set of items when its footprint is the union of their marks.
\<close>

locale membership_filter =
  fixes inv :: "'f \<Rightarrow> bool"
    and add :: "'f \<Rightarrow> 'i \<Rightarrow> 'f option"
    and join :: "'f \<Rightarrow> 'f \<Rightarrow> 'f option"
    and member :: "'f \<Rightarrow> 'i \<Rightarrow> bool option"
    and footprint :: "'f \<Rightarrow> 'p set"
    and marks :: "'i \<Rightarrow> 'p set"
  assumes add_law: "inv f \<Longrightarrow>
      \<exists>f'. add f x = Some f' \<and> inv f' \<and> footprint f' = footprint f \<union> marks x"
    and join_law: "inv f \<Longrightarrow> inv g \<Longrightarrow> join f g = Some h \<Longrightarrow>
      inv h \<and> footprint h = footprint f \<union> footprint g"
    and member_law: "inv f \<Longrightarrow> member f x = Some (marks x \<subseteq> footprint f)"
begin

lemma add_represents:
  "inv f \<Longrightarrow> footprint f = \<Union> (marks ` S) \<Longrightarrow> add f x = Some f' \<Longrightarrow>
     inv f' \<and> footprint f' = \<Union> (marks ` insert x S)"
  using add_law [of f x] by auto

lemma join_represents:
  "inv f \<Longrightarrow> footprint f = \<Union> (marks ` S) \<Longrightarrow> inv g \<Longrightarrow> footprint g = \<Union> (marks ` T) \<Longrightarrow>
     join f g = Some h \<Longrightarrow> inv h \<and> footprint h = \<Union> (marks ` (S \<union> T))"
  using join_law [of f g h] by auto

lemma member_represents:
  assumes "inv f" "footprint f = \<Union> (marks ` S)"
  shows "member f x = Some (marks x \<subseteq> \<Union> (marks ` S))"
    and "x \<in> S \<Longrightarrow> member f x = Some True"
  using assms member_law [of f x] by auto

end

definition bloom_shape :: "u64 \<Rightarrow> u32 \<Rightarrow> bloom_filter \<Rightarrow> bool" where
  "bloom_shape m k f \<longleftrightarrow> bloom_inv f \<and> bloom_m f = m \<and> bloom_k f = k"

interpretation bloom: membership_filter
  "bloom_shape m k" "bloom_insert E" bloom_merge "bloom_contains E" bit_set "positions E m k" for E m k
proof
  fix f x assume "bloom_shape m k f"
  then have "bloom_inv f" "bloom_m f = m" "bloom_k f = k" by (simp_all add: bloom_shape_def)
  then show "\<exists>f'. bloom_insert E f x = Some f' \<and> bloom_shape m k f'
      \<and> bit_set f' = bit_set f \<union> positions E m k x"
    using insert_ok [of f E x] by (metis bloom_shape_def)
next
  fix f g h assume "bloom_shape m k f" "bloom_shape m k g" "bloom_merge f g = Some h"
  then show "bloom_shape m k h \<and> bit_set h = bit_set f \<union> bit_set g"
    using merge_ok [of f g h] by (simp add: bloom_shape_def)
next
  fix f x assume "bloom_shape m k f"
  then show "bloom_contains E f x = Some (positions E m k x \<subseteq> bit_set f)"
    using contains_ok [of f E x] by (simp add: bloom_shape_def)
qed

text \<open>The filters a program can build, with the items that went into them.\<close>

inductive bloom_built :: "ext \<Rightarrow> u64 \<Rightarrow> u32 \<Rightarrow> string set \<Rightarrow> bloom_filter \<Rightarrow> bool"
  for E m k where
  built_new: "bloom_built E m k {} (bloom_new m k)"
| built_insert: "bloom_built E m k S f \<Longrightarrow> bloom_insert E f x = Some f' \<Longrightarrow>
    bloom_built E m k (insert x S) f'"
| built_merge: "bloom_built E m k S f \<Longrightarrow> bloom_built E m k T g \<Longrightarrow> bloom_merge f g = Some h \<Longrightarrow>
    bloom_built E m k (S \<union> T) h"
| built_transfer: "bloom_built E m k S f \<Longrightarrow> from_bytes (to_bytes f @ rest) = Some (f', n) \<Longrightarrow>
    bloom_built E m k S f'"
| built_clear: "bloom_built E m k S f \<Longrightarrow> bloom_built E m k {} (bloom_clear f)"

lemma transfer_shape:
  "bloom_shape m k f \<Longrightarrow> from_bytes (to_bytes f @ rest) = Some (f', n) \<Longrightarrow>
     bloom_shape m k f' \<and> bit_set f' = bit_set f"
proof -
  assume shape: "bloom_shape m k f" and "from_bytes (to_bytes f @ rest) = Some (f', n)"
  then have "f' = f\<lparr>num_items := 0\<rparr>"
    using from_to_bytes [of f rest] by (simp add: bloom_shape_def bloom_inv_def)
  then show ?thesis using shape by (auto simp: bloom_shape_def bloom_inv_def bit_set_def)
qed

lemma bloom_built_represents:
  assumes "bloom_built E m k S f" "m \<noteq> 0"
  shows "bloom_shape m k f \<and> bit_set f = \<Union> (positions E m k ` S)"
  using assms(1)
proof (induction rule: bloom_built.induct)
  case built_new
  then show ?case using assms(2) by (simp add: bloom_shape_def new_ok)
next
  case (built_insert S f x f')
  then show ?case by (intro bloom.add_represents [of m k f E S x f']) auto
next
  case (built_merge S f T g h)
  then show ?case by (intro bloom.join_represents [of m k f E S g T h]) auto
next
  case (built_transfer S f rest f' n)
  then show ?case using transfer_shape [of m k f rest f' n] by auto
next
  case (built_clear S f)
  then show ?case by (simp add: bloom_shape_def clear_ok)
qed

lemma compute_delta_eq:
  assumes "bloom_inv f"
  shows "compute_delta E ds f = Some (filter (\<lambda>d. bloom_contains E f d \<noteq> Some True) ds)"
  by (induction ds) (simp_all add: contains_ok [OF assms])



lemma u64_bytes_inverse: "length bs = 8 \<Longrightarrow> u64_to_le_bytes (u64_from_le_bytes bs) = bs"
  using to_le_from_le [of bs] from_le_less [of bs]
  by (simp add: u64_to_le_bytes_def u64_from_le_bytes_def unat_word_of_nat_u64)

lemma u32_bytes_inverse: "length bs = 4 \<Longrightarrow> u32_to_le_bytes (u32_from_le_bytes bs) = bs"
  using to_le_from_le [of bs] from_le_less [of bs]
  by (simp add: u32_to_le_bytes_def u32_from_le_bytes_def unat_word_of_nat_u32)

lemma words_concat:
  "c + n * 8 \<le> length xs \<Longrightarrow>
     concat (map (\<lambda>i. u64_to_le_bytes (u64_from_le_bytes (take 8 (drop (c + i * 8) xs)))) [0..<n])
       = take (n * 8) (drop c xs)"
proof (induction n)
  case (Suc n)
  have "u64_to_le_bytes (u64_from_le_bytes (take 8 (drop (c + n * 8) xs))) = take 8 (drop (c + n * 8) xs)"
    using Suc.prems by (intro u64_bytes_inverse) simp
  moreover have "take (n * 8) (drop c xs) @ take 8 (drop (n * 8) (drop c xs)) = take (n * 8 + 8) (drop c xs)"
    by (rule take_add [symmetric])
  ultimately show ?case using Suc by (simp add: add.commute)
qed simp

text \<open>
  C25: the wire form of a filter is faithful.  Encoding a filter and decoding it in
  front of any other bytes gives the filter back (with the item count, which is
  not transmitted, reset) and the number of bytes used; and whatever decoding
  accepts is the encoding of its result, of exactly the announced length.
\<close>

theorem bloom_bytes_roundtrip:
  "(length (bits f) = word_count (bloom_m f) \<longrightarrow>
      from_bytes (to_bytes f @ rest) = Some (f\<lparr>num_items := 0\<rparr>, length (to_bytes f)))
    \<and> (from_bytes data = Some (g, n) \<longrightarrow>
      n \<le> length data \<and> to_bytes g = take n data \<and> length (bits g) = word_count (bloom_m g))"
proof (intro conjI impI)
  show "from_bytes (to_bytes f @ rest) = Some (f\<lparr>num_items := 0\<rparr>, length (to_bytes f))"
    if "length (bits f) = word_count (bloom_m f)"
    using that by (rule from_to_bytes)
next
  assume parsed: "from_bytes data = Some (g, n)"
  let ?m = "u64_from_le_bytes (take 8 data)"
  have n: "n = 12 + word_count ?m * 8" "12 + word_count ?m * 8 \<le> length data"
    and g: "bloom_m g = ?m" "bloom_k g = u32_from_le_bytes (take 4 (drop 8 data))"
      "bits g = map (\<lambda>i. u64_from_le_bytes (take 8 (drop (12 + i * 8) data))) [0..<word_count ?m]"
    using parsed by (auto simp: from_bytes_def Let_def split: if_splits)
  show "n \<le> length data" "length (bits g) = word_count (bloom_m g)" using n g by simp_all
  have "concat (map u64_to_le_bytes (bits g)) = take (word_count ?m * 8) (drop 12 data)"
    using words_concat [OF n(2)] by (simp add: g(3) comp_def)
  moreover have "u64_to_le_bytes (bloom_m g) = take 8 data"
    "u32_to_le_bytes (bloom_k g) = take 4 (drop 8 data)"
    using n(2) by (simp_all add: g u64_bytes_inverse u32_bytes_inverse)
  ultimately have "to_bytes g = take 8 data @ take 4 (drop 8 data) @ take (word_count ?m * 8) (drop 12 data)"
    by (simp add: to_bytes_def)
  also have "\<dots> = take n data"
    unfolding n(1) using take_add [of 8 4 data] take_add [of 12 "word_count ?m * 8" data] by simp
  finally show "to_bytes g = take n data" .
qed

theorem bloom_bytes_roundtrip_witness:
  "length (bits (bloom_new 64 2)) = word_count (bloom_m (bloom_new 64 2))
    \<and> from_bytes (to_bytes (bloom_new 64 2) @ [7]) = Some (bloom_new 64 2, 20)
    \<and> to_bytes (bloom_new 64 2) = take 20 (to_bytes (bloom_new 64 2) @ [7])"
proof -
  have "length (bits (bloom_new 64 2)) = word_count (bloom_m (bloom_new 64 2))"
    by (simp add: bloom_new_def)
  moreover from this have "from_bytes (to_bytes (bloom_new 64 2) @ [7]) = Some (bloom_new 64 2, 20)"
    using bloom_bytes_roundtrip [of "bloom_new 64 2" "[7]"]
    by (simp add: bloom_new_def to_bytes_def word_count_def)
  ultimately show ?thesis
    using bloom_bytes_roundtrip
      [of "bloom_new 64 2" "[7]" "to_bytes (bloom_new 64 2) @ [7]" "bloom_new 64 2" 20] by blast
qed

end
