(* ===== verification/Peer_Directory.thy ===== *)
theory Peer_Directory
  imports Bloom_Filter
begin

text \<open>
  Who the peers are and what they hold: the registrar
  (\<^verbatim>\<open>pullrun-sync/src/registrar.rs\<close>), multicast discovery
  (\<^verbatim>\<open>discovery.rs\<close>) and the gossip of Bloom filters (\<^verbatim>\<open>gossip.rs\<close>).
  Hash maps are association lists whose order stands for the enumeration order.
  Wall-clock seconds are 64-bit words; monotonic instants are integers in
  nanoseconds.  The parsing of announcements by \<^verbatim>\<open>serde_json\<close> and of socket
  addresses, the random choice of gossip partners and the answers of the remote
  side are arguments.
\<close>

section \<open>Registrar\<close>

record peer_registration =
  reg_node_id :: string
  reg_sync_addr :: string
  last_seen_unix_secs :: u64

type_synonym registrar = "(string \<times> peer_registration) list"

definition PEER_TTL_SECS :: u64 where "PEER_TTL_SECS = 120"

definition saturating_sub :: "u64 \<Rightarrow> u64 \<Rightarrow> u64" where
  "saturating_sub a b = (if b \<le> a then a - b else 0)"

definition evict_stale :: "u64 \<Rightarrow> registrar \<Rightarrow> registrar" where
  "evict_stale now peers =
    (let cutoff = saturating_sub now PEER_TTL_SECS
     in filter (\<lambda>(nid, p). last_seen_unix_secs p \<ge> cutoff) peers)"

definition peer_count_i32 :: "registrar \<Rightarrow> 32 word" where
  "peer_count_i32 peers = word_of_nat (length peers)"

definition register :: "u64 \<Rightarrow> string \<Rightarrow> string \<Rightarrow> registrar \<Rightarrow> 32 word \<times> registrar" where
  "register now node_id addr peers =
    (let reg = \<lparr>reg_node_id = node_id, reg_sync_addr = addr, last_seen_unix_secs = now\<rparr>;
         peers' = AList.update node_id reg peers
     in (peer_count_i32 peers', peers'))"

definition lookup_peer :: "string \<Rightarrow> registrar \<Rightarrow> peer_registration option \<times> bool" where
  "lookup_peer node_id peers = (map_of peers node_id, map_of peers node_id \<noteq> None)"

definition list_peers :: "registrar \<Rightarrow> peer_registration list" where
  "list_peers peers = map snd peers"

definition heartbeat :: "u64 \<Rightarrow> string \<Rightarrow> registrar \<Rightarrow> 32 word \<times> registrar" where
  "heartbeat now node_id peers =
    (let peers' = (case map_of peers node_id of
                     None \<Rightarrow> peers
                   | Some e \<Rightarrow> AList.update node_id (e\<lparr>last_seen_unix_secs := now\<rparr>) peers)
     in (peer_count_i32 peers', peers'))"

definition deregister :: "string \<Rightarrow> registrar \<Rightarrow> registrar" where
  "deregister node_id peers = AList.delete node_id peers"

section \<open>Discovery\<close>

record node_announcement =
  ann_node_id :: string
  ann_sync_addr :: string
  ann_version :: u32

record 'a peer_info =
  peer_node_id :: string
  peer_addr :: 'a
  last_seen :: int

record 'a discovery =
  own_node_id :: string
  disc_peers :: "(string \<times> 'a peer_info) list"
  rate_limiter :: "(string \<times> int) list"

definition secs :: "int \<Rightarrow> int" where "secs n = n * 1000000000"

definition PEER_TIMEOUT :: int where "PEER_TIMEOUT = secs 90"

definition duration_since :: "int \<Rightarrow> int \<Rightarrow> int" where
  "duration_since later earlier = max 0 (later - earlier)"

definition discovery_new :: "string \<Rightarrow> 'a discovery" where
  "discovery_new node_id = \<lparr>own_node_id = node_id, disc_peers = [], rate_limiter = []\<rparr>"

definition evict_peers :: "int \<Rightarrow> 'a discovery \<Rightarrow> 'a discovery" where
  "evict_peers now s =
    s\<lparr>disc_peers := filter (\<lambda>(nid, info). last_seen info \<ge> now - PEER_TIMEOUT) (disc_peers s)\<rparr>"

definition receive_announcement ::
    "(string \<Rightarrow> 'a option) \<Rightarrow> int \<Rightarrow> string \<Rightarrow> node_announcement option \<Rightarrow> 'a discovery \<Rightarrow> 'a discovery" where
  "receive_announcement parse_addr now src parsed s =
    (case parsed of
       None \<Rightarrow> s
     | Some ann \<Rightarrow>
         if ann_node_id ann = own_node_id s then s
         else if (case map_of (rate_limiter s) src of
                    None \<Rightarrow> False
                  | Some t \<Rightarrow> duration_since now t < secs 10) then s
         else
           (let s1 = s\<lparr>rate_limiter := AList.update src now (rate_limiter s)\<rparr>
            in case parse_addr (ann_sync_addr ann) of
                 None \<Rightarrow> s1
               | Some addr \<Rightarrow>
                   s1\<lparr>disc_peers := AList.update (ann_node_id ann)
                        \<lparr>peer_node_id = ann_node_id ann, peer_addr = addr, last_seen = now\<rparr>
                        (disc_peers s1)\<rparr>))"

definition get_peers :: "'a discovery \<Rightarrow> 'a peer_info list" where
  "get_peers s = map snd (disc_peers s)"

definition get_peer_count :: "'a discovery \<Rightarrow> nat" where
  "get_peer_count s = length (disc_peers s)"

definition generate_node_id :: "ext \<Rightarrow> bytes \<Rightarrow> string" where
  "generate_node_id E random8 = ''pullrun-'' @ hex_encode E random8"

section \<open>Gossip\<close>

record peer_bloom_info =
  info_node_id :: string
  info_sync_addr :: string
  bloom_bytes :: bytes
  info_bloom_k :: u32
  info_bloom_m :: u64
  last_updated :: int

type_synonym peer_bloom_cache = "(string \<times> peer_bloom_info) list"

definition CACHE_TTL :: int where "CACHE_TTL = secs 300"

definition cache_update ::
    "string \<Rightarrow> string \<Rightarrow> peer_bloom_info \<Rightarrow> peer_bloom_cache \<Rightarrow> peer_bloom_cache" where
  "cache_update node_id addr info c =
    (case map_of c node_id of
       Some e \<Rightarrow>
         AList.update node_id
           (e\<lparr>bloom_bytes := bloom_bytes info, info_bloom_k := info_bloom_k info,
              info_bloom_m := info_bloom_m info, last_updated := last_updated info,
              info_sync_addr := addr\<rparr>) c
     | None \<Rightarrow> AList.update node_id info c)"

definition peer_match :: "ext \<Rightarrow> int \<Rightarrow> string \<Rightarrow> peer_bloom_info \<Rightarrow> bool option" where
  "peer_match E now d info =
    (if duration_since now (last_updated info) > CACHE_TTL then Some False
     else case from_bytes (bloom_bytes info) of
            Some (bf, _) \<Rightarrow> bloom_contains E bf d
          | None \<Rightarrow> Some False)"

fun find_peers_with_blob ::
    "ext \<Rightarrow> int \<Rightarrow> string \<Rightarrow> peer_bloom_cache \<Rightarrow> (string \<times> string) list option" where
  "find_peers_with_blob E now d [] = Some []"
| "find_peers_with_blob E now d ((nid, info) # c) =
    (case peer_match E now d info of
       None \<Rightarrow> None
     | Some hit \<Rightarrow>
         map_option (\<lambda>ps. if hit then (info_node_id info, info_sync_addr info) # ps else ps)
           (find_peers_with_blob E now d c))"

definition bloom_peer_count :: "int \<Rightarrow> peer_bloom_cache \<Rightarrow> nat" where
  "bloom_peer_count now c =
    length (filter (\<lambda>(nid, info). duration_since now (last_updated info) \<le> CACHE_TTL) c)"

definition remove_stale :: "int \<Rightarrow> peer_bloom_cache \<Rightarrow> peer_bloom_cache" where
  "remove_stale now c = filter (\<lambda>(nid, info). duration_since now (last_updated info) \<le> CACHE_TTL) c"

record have_blobs_response =
  resp_bloom_filter :: bytes
  resp_bloom_k :: "32 word"
  resp_bloom_m :: "32 word"

text \<open>
  One exchange of a round.  The request goes through the one client the gossip
  task was created with; \<open>answer\<close> is what comes back (\<open>None\<close> for an error).
\<close>

definition gossip_exchange ::
    "int \<Rightarrow> have_blobs_response option \<Rightarrow> string \<times> string \<Rightarrow> peer_bloom_cache \<Rightarrow> peer_bloom_cache" where
  "gossip_exchange now answer peer c =
    (case answer of
       None \<Rightarrow> c
     | Some resp \<Rightarrow>
         cache_update (fst peer) (snd peer)
           \<lparr>info_node_id = fst peer, info_sync_addr = snd peer,
            bloom_bytes = resp_bloom_filter resp, info_bloom_k = resp_bloom_k resp,
            info_bloom_m = scast (resp_bloom_m resp), last_updated = now\<rparr> c)"

fun gossip_exchanges ::
    "int \<Rightarrow> (nat \<Rightarrow> have_blobs_response option) \<Rightarrow> nat \<Rightarrow> (string \<times> string) list \<Rightarrow>
     peer_bloom_cache \<Rightarrow> peer_bloom_cache" where
  "gossip_exchanges now answers i [] c = c"
| "gossip_exchanges now answers i (peer # selected) c =
    gossip_exchanges now answers (Suc i) selected (gossip_exchange now (answers i) peer c)"

definition round_size :: "'p list \<Rightarrow> nat" where
  "round_size peers = unat (min (max (word_of_nat (length peers) :: u32) 1) 3)"

definition gossip_round ::
    "int \<Rightarrow> (nat \<Rightarrow> (string \<times> string) list \<Rightarrow> (string \<times> string) list) \<Rightarrow>
     (nat \<Rightarrow> have_blobs_response option) \<Rightarrow> (string \<times> string) list \<Rightarrow> peer_bloom_cache \<Rightarrow> peer_bloom_cache" where
  "gossip_round now choose_multiple answers peers c =
    (if peers = [] then remove_stale now c
     else let selected = choose_multiple (round_size peers) peers
          in remove_stale now (gossip_exchanges now answers 0 selected c))"

section \<open>The registrar as a state machine\<close>

datatype reg_event = Register string string | Heartbeat string | Deregister string | Evict

definition reg_step :: "u64 \<Rightarrow> reg_event \<Rightarrow> registrar \<Rightarrow> registrar" where
  "reg_step now ev peers =
    (case ev of
       Register n a \<Rightarrow> snd (register now n a peers)
     | Heartbeat n \<Rightarrow> snd (heartbeat now n peers)
     | Deregister n \<Rightarrow> deregister n peers
     | Evict \<Rightarrow> evict_stale now peers)"

fun reg_run :: "(u64 \<times> reg_event) list \<Rightarrow> registrar \<Rightarrow> registrar" where
  "reg_run [] peers = peers"
| "reg_run ((t, ev) # evs) peers = reg_run evs (reg_step t ev peers)"

text \<open>
  The time of the last contact of a node in a run, and the condition that every
  eviction pass finds a contact of the node within the time to live.
\<close>

fun last_contact :: "string \<Rightarrow> u64 \<Rightarrow> (u64 \<times> reg_event) list \<Rightarrow> u64" where
  "last_contact n t0 [] = t0"
| "last_contact n t0 ((t, ev) # evs) =
    last_contact n (if ev = Heartbeat n \<or> (\<exists>a. ev = Register n a) then t else t0) evs"

fun timely :: "string \<Rightarrow> u64 \<Rightarrow> (u64 \<times> reg_event) list \<Rightarrow> bool" where
  "timely n t0 [] = True"
| "timely n t0 ((t, Register n' a) # evs) = timely n (if n' = n then t else t0) evs"
| "timely n t0 ((t, Heartbeat n') # evs) = timely n (if n' = n then t else t0) evs"
| "timely n t0 ((t, Deregister n') # evs) = (n' \<noteq> n \<and> timely n t0 evs)"
| "timely n t0 ((t, Evict) # evs) = (saturating_sub t PEER_TTL_SECS \<le> t0 \<and> timely n t0 evs)"

lemma map_of_filter_snd:
  "distinct (map fst xs) \<Longrightarrow>
     map_of (filter (\<lambda>(a, b). P b) xs) k = (case map_of xs k of Some v \<Rightarrow> if P v then Some v else None | None \<Rightarrow> None)"
  by (induction xs) (auto split: option.splits simp: map_of_eq_None_iff dest: map_of_SomeD)

lemma map_of_filter_mono:
  "map_of xs k = Some v \<Longrightarrow> P v \<Longrightarrow> \<exists>w. map_of (filter (\<lambda>(a, b). P b) xs) k = Some w"
  by (induction xs) auto

lemma filter_distinct_fst: "distinct (map fst xs) \<Longrightarrow> distinct (map fst (filter P xs))"
  by (induction xs) auto

lemma reg_step_distinct [inv_intros]:
  "distinct (map fst s) \<Longrightarrow> distinct (map fst (reg_step t ev s))"
  by (auto simp: reg_step_def register_def heartbeat_def deregister_def evict_stale_def Let_def
      filter_distinct_fst split: reg_event.split option.split)

lemma reg_run_distinct [inv_intros]:
  "distinct (map fst s) \<Longrightarrow> distinct (map fst (reg_run evs s))"
  by (induction evs s rule: reg_run.induct) (simp_all add: reg_step_distinct)

lemma reg_step_lookup:
  assumes "distinct (map fst s)"
  shows "map_of (reg_step t ev s) n =
    (case ev of
       Register n' a \<Rightarrow>
         if n' = n then Some \<lparr>reg_node_id = n, reg_sync_addr = a, last_seen_unix_secs = t\<rparr> else map_of s n
     | Heartbeat n' \<Rightarrow>
         if n' = n then map_option (\<lambda>e. e\<lparr>last_seen_unix_secs := t\<rparr>) (map_of s n) else map_of s n
     | Deregister n' \<Rightarrow> if n' = n then None else map_of s n
     | Evict \<Rightarrow> (case map_of s n of
                   Some v \<Rightarrow> if saturating_sub t PEER_TTL_SECS \<le> last_seen_unix_secs v then Some v else None
                 | None \<Rightarrow> None))"
proof (cases ev)
  case Evict
  then show ?thesis
    unfolding reg_step_def evict_stale_def Let_def reg_event.case
    by (rule ssubst) (use map_of_filter_snd [OF assms] in simp)
qed (simp_all add: reg_step_def register_def heartbeat_def deregister_def Let_def split: option.split)

lemma reg_run_live:
  assumes "distinct (map fst s)" "map_of s n = Some p" "timely n (last_seen_unix_secs p) evs"
  shows "\<exists>q. map_of (reg_run evs s) n = Some q
    \<and> last_seen_unix_secs q = last_contact n (last_seen_unix_secs p) evs"
  using assms
proof (induction evs arbitrary: s p)
  case (Cons e evs)
  obtain t ev where e: "e = (t, ev)" by force
  obtain q where q: "map_of (reg_step t ev s) n = Some q"
      "last_seen_unix_secs q = last_contact n (last_seen_unix_secs p) [(t, ev)]"
      "timely n (last_seen_unix_secs q) evs"
    using reg_step_lookup [OF Cons.prems(1), of t ev n] Cons.prems(2,3) unfolding e
    by (cases ev) (auto split: if_splits)
  have "\<exists>r. map_of (reg_run evs (reg_step t ev s)) n = Some r
      \<and> last_seen_unix_secs r = last_contact n (last_seen_unix_secs q) evs"
    using Cons.IH [OF reg_step_distinct [OF Cons.prems(1)] q(1,3)] .
  then show ?case using q(2) by (simp add: e)
qed simp

lemma reg_run_absent:
  assumes "map_of s n = None" "\<forall>t a. (t, Register n a) \<notin> set evs"
  shows "map_of (reg_run evs s) n = None"
  using assms
proof (induction evs arbitrary: s)
  case (Cons e evs)
  obtain t ev where e: "e = (t, ev)" by force
  have "map_of (filter P s) n = None" for P using Cons.prems(1) by (auto simp: map_of_eq_None_iff)
  then have "map_of (reg_step t ev s) n = None"
    using Cons.prems unfolding e
    by (auto simp: reg_step_def register_def heartbeat_def deregister_def evict_stale_def Let_def
        split: reg_event.split option.split)
  then show ?case using Cons unfolding e by simp
qed simp

lemma evict_stale_recent:
  "p \<in> set (list_peers (reg_step t Evict s)) \<Longrightarrow> saturating_sub t PEER_TTL_SECS \<le> last_seen_unix_secs p"
  by (auto simp: reg_step_def evict_stale_def list_peers_def Let_def)

text \<open>
  C26: the registrar keeps the live peers and drops the dead ones.  A node that
  registers and contacts the registrar often enough that every eviction pass finds
  a contact at most 120 seconds old stays registered, with the time of its last
  contact, whatever the other nodes do; after an eviction pass no peer older than
  that is listed; and a node that has been dropped is not brought back by its
  heartbeats, only by registering again.
\<close>

theorem registrar_live:
  assumes "distinct (map fst s)"
  shows "(timely n t0 evs \<longrightarrow>
      (\<exists>p. map_of (reg_run ((t0, Register n a) # evs) s) n = Some p
        \<and> last_seen_unix_secs p = last_contact n t0 evs))
    \<and> (\<forall>p \<in> set (list_peers (reg_run (evs @ [(t, Evict)]) s)).
        saturating_sub t PEER_TTL_SECS \<le> last_seen_unix_secs p)
    \<and> (map_of s n = None \<longrightarrow> (\<forall>t a. (t, Register n a) \<notin> set evs) \<longrightarrow> map_of (reg_run evs s) n = None)"
proof (intro conjI impI ballI)
  assume "timely n t0 evs"
  moreover have "map_of (reg_step t0 (Register n a) s) n
      = Some \<lparr>reg_node_id = n, reg_sync_addr = a, last_seen_unix_secs = t0\<rparr>"
    using reg_step_lookup [OF assms] by simp
  ultimately show "\<exists>p. map_of (reg_run ((t0, Register n a) # evs) s) n = Some p
      \<and> last_seen_unix_secs p = last_contact n t0 evs"
    using reg_run_live [OF reg_step_distinct [OF assms], of t0 "Register n a" n _ evs] by simp
next
  have run: "reg_run (es @ [(t, Evict)]) s = reg_step t Evict (reg_run es s)" for es s
    by (induction es s rule: reg_run.induct) simp_all
  fix p assume "p \<in> set (list_peers (reg_run (evs @ [(t, Evict)]) s))"
  then show "saturating_sub t PEER_TTL_SECS \<le> last_seen_unix_secs p"
    unfolding run by (rule evict_stale_recent)
next
  assume "map_of s n = None" "\<forall>t a. (t, Register n a) \<notin> set evs"
  then show "map_of (reg_run evs s) n = None" by (rule reg_run_absent)
qed

theorem registrar_live_witness:
  "distinct (map fst ([] :: registrar))
    \<and> (\<exists>p. map_of (reg_run [(100, Register ''n1'' ''a''), (130, Heartbeat ''n1''), (140, Register ''n2'' ''b''),
           (240, Evict)] []) ''n1'' = Some p \<and> last_seen_unix_secs p = 130)"
proof -
  have d: "distinct (map fst ([] :: registrar))" by simp
  have "timely ''n1'' 100 [(130, Heartbeat ''n1''), (140, Register ''n2'' ''b''), (240, Evict)]"
    "last_contact ''n1'' 100 [(130, Heartbeat ''n1''), (140, Register ''n2'' ''b''), (240, Evict)] = 130"
    by (simp_all add: saturating_sub_def PEER_TTL_SECS_def)
  with registrar_live [OF d, of "''n1''" 100 _ "''a''"] d show ?thesis by metis
qed

section \<open>What gossip learns\<close>

lemma find_peers_eq:
  "find_peers_with_blob E now d c =
    (if \<exists>i \<in> snd ` set c. peer_match E now d i = None then None
     else Some (map (\<lambda>(n, i). (info_node_id i, info_sync_addr i))
       (filter (\<lambda>(n, i). peer_match E now d i = Some True) c)))"
  by (induction E now d c rule: find_peers_with_blob.induct) (auto split: option.splits)

lemma cache_update_lookup [simp]:
  "map_of (cache_update n a i c) = (map_of c)(n \<mapsto> (case map_of c n of
       Some e \<Rightarrow> i\<lparr>info_node_id := info_node_id e, info_sync_addr := a\<rparr> | None \<Rightarrow> i))"
  by (auto simp: cache_update_def split: option.split)

lemma exchanges_other:
  "n \<notin> fst ` set sel \<Longrightarrow> map_of (gossip_exchanges now ans i sel c) n = map_of c n"
  by (induction now ans i sel c rule: gossip_exchanges.induct)
    (auto simp: gossip_exchange_def split: option.splits)

text \<open>The entries a gossip task stores are filed under the node id they name.\<close>

definition cache_named :: "peer_bloom_cache \<Rightarrow> bool" where
  "cache_named c \<longleftrightarrow> (\<forall>n i. map_of c n = Some i \<longrightarrow> info_node_id i = n)"

lemma exchange_named [inv_intros]:
  "cache_named c \<Longrightarrow> cache_named (gossip_exchange now ans peer c)"
  by (auto simp: gossip_exchange_def cache_named_def split: option.splits if_splits)

lemma exchanges_named [inv_intros]:
  "cache_named c \<Longrightarrow> cache_named (gossip_exchanges now ans i sel c)"
  by (induction now ans i sel c rule: gossip_exchanges.induct) (simp_all add: exchange_named)

lemma exchanges_selected:
  assumes "cache_named c" "distinct (map fst sel)" "peer \<in> set sel"
    and "\<forall>i. \<exists>r. ans i = Some r \<and> resp_bloom_filter r = b"
  shows "\<exists>e. map_of (gossip_exchanges now ans i sel c) (fst peer) = Some e
    \<and> info_node_id e = fst peer \<and> info_sync_addr e = snd peer \<and> bloom_bytes e = b \<and> last_updated e = now"
  using assms
proof (induction sel arbitrary: i c)
  case (Cons p sel)
  show ?case
  proof (cases "p = peer")
    case True
    obtain r where r: "ans i = Some r" "resp_bloom_filter r = b" using Cons.prems(4) by blast
    have "fst peer \<notin> fst ` set sel" using Cons.prems(2) True by auto
    then show ?thesis using r Cons.prems(1) True
      by (auto simp: exchanges_other gossip_exchange_def cache_named_def split: option.split)
  next
    case False
    then show ?thesis using Cons exchange_named [OF Cons.prems(1)] by simp
  qed
qed simp

lemma remove_stale_member:
  "(n, e) \<in> set c \<Longrightarrow> last_updated e = now \<Longrightarrow> (n, e) \<in> set (remove_stale now c)"
  by (simp add: remove_stale_def duration_since_def CACHE_TTL_def secs_def)

lemma fresh_match:
  assumes "bloom_built E m k S f" "m \<noteq> 0" "x \<in> S" "bloom_bytes e = to_bytes f"
    and "duration_since t (last_updated e) \<le> CACHE_TTL"
  shows "peer_match E t x e = Some True"
proof -
  have "bloom_shape m k f" using bloom_built_represents [OF assms(1,2)] by simp
  then have len: "length (bits f) = word_count (bloom_m f)" by (simp add: bloom_shape_def bloom_inv_def)
  have parsed: "from_bytes (to_bytes f @ []) = Some (f\<lparr>num_items := 0\<rparr>, length (to_bytes f))"
    using len by (rule from_to_bytes)
  have "bloom_built E m k S (f\<lparr>num_items := 0\<rparr>)"
    using assms(1) parsed by (rule built_transfer)
  then have "bloom_contains E (f\<lparr>num_items := 0\<rparr>) x = Some True"
    using bloom.member_represents(2) [of m k "f\<lparr>num_items := 0\<rparr>" E S x]
      bloom_built_represents [of E m k S "f\<lparr>num_items := 0\<rparr>"] assms(2,3) by simp
  with parsed assms(4,5) show ?thesis by (simp add: peer_match_def)
qed

lemma gossip_round_finds:
  assumes "bloom_built E m k S f" "m \<noteq> 0" "x \<in> S"
    and "cache_named c" "distinct (map fst (pick (round_size peers) peers))"
    and "peers \<noteq> []" "peer \<in> set (pick (round_size peers) peers)"
    and "\<forall>i. \<exists>r. answers i = Some r \<and> resp_bloom_filter r = to_bytes f"
    and "now \<le> t" "t - now \<le> CACHE_TTL"
  shows "case find_peers_with_blob E t x (gossip_round now pick answers peers c) of
      Some ps \<Rightarrow> peer \<in> set ps
    | None \<Rightarrow> \<exists>i \<in> snd ` set (gossip_round now pick answers peers c). peer_match E t x i = None"
proof -
  let ?sel = "pick (round_size peers) peers"
  obtain e where e: "map_of (gossip_exchanges now answers 0 ?sel c) (fst peer) = Some e"
      "info_node_id e = fst peer" "info_sync_addr e = snd peer" "bloom_bytes e = to_bytes f"
      "last_updated e = now"
    using exchanges_selected [OF assms(4,5,7,8)] by blast
  then have mem: "(fst peer, e) \<in> set (gossip_round now pick answers peers c)"
    using remove_stale_member assms(6) by (auto simp: gossip_round_def Let_def dest: map_of_SomeD)
  have "peer_match E t x e = Some True"
    using assms(9,10) e(4,5)
    by (intro fresh_match [OF assms(1-3)]) (simp_all add: duration_since_def CACHE_TTL_def secs_def)
  then have "peer \<in> (\<lambda>(n, i). (info_node_id i, info_sync_addr i)) `
      set (filter (\<lambda>(n, i). peer_match E t x i = Some True) (gossip_round now pick answers peers c))"
    using mem e(2,3) by (intro image_eqI [of _ _ "(fst peer, e)"]) simp_all
  then show ?thesis by (simp add: find_peers_eq)
qed

text \<open>
  A peer that answers with twelve bytes announcing a filter of no bits makes every
  lookup panic while its entry is fresh.
\<close>

lemma zero_filter_panics:
  assumes "k \<noteq> 0" "bloom_bytes e = u64_to_le_bytes 0 @ u32_to_le_bytes k" "e \<in> snd ` set c"
    and "duration_since t (last_updated e) \<le> CACHE_TTL"
  shows "find_peers_with_blob E t x c = None"
proof -
  have "from_bytes (bloom_bytes e) = Some (bloom_new 0 k, 12)"
    using from_to_bytes [of "bloom_new 0 k" "[]"] assms(2)
    by (simp add: to_bytes_def bloom_new_def word_count_def)
  moreover have "bloom_contains E (bloom_new 0 k) x = None"
    using assms(1) by (cases "unat k") (simp_all add: bloom_contains_def hash_pair_def bloom_new_def
        unsigned_eq_0_iff)
  ultimately have "peer_match E t x e = None" using assms(4) by (simp add: peer_match_def)
  then show ?thesis using assms(3) by (auto simp: find_peers_eq)
qed

end
