(* ===== verification/Rust_Text.thy ===== *)
theory Rust_Text
  imports Rust_Parse "HOL-Library.List_Lexorder" "HOL-Library.Char_ord"
begin

text \<open>
  More of the Rust string library: ASCII case folding and character classes,
  joining, cutting at the first or last separator, decimal rendering, and string
  searches.  Strings are lists of UTF-8 bytes; character classes are those of
  ASCII text.  The facts relate cutting and joining.
\<close>

definition code :: "char \<Rightarrow> nat" where
  "code c = of_char c"

definition is_ascii_digit :: "char \<Rightarrow> bool" where
  "is_ascii_digit c \<longleftrightarrow> 48 \<le> code c \<and> code c \<le> 57"

definition is_ascii_upper :: "char \<Rightarrow> bool" where
  "is_ascii_upper c \<longleftrightarrow> 65 \<le> code c \<and> code c \<le> 90"

definition is_ascii_lower :: "char \<Rightarrow> bool" where
  "is_ascii_lower c \<longleftrightarrow> 97 \<le> code c \<and> code c \<le> 122"

definition is_alphanumeric :: "char \<Rightarrow> bool" where
  "is_alphanumeric c \<longleftrightarrow> is_ascii_digit c \<or> is_ascii_upper c \<or> is_ascii_lower c"

definition is_ascii_hexdigit :: "char \<Rightarrow> bool" where
  "is_ascii_hexdigit c \<longleftrightarrow>
    is_ascii_digit c \<or> (65 \<le> code c \<and> code c \<le> 70) \<or> (97 \<le> code c \<and> code c \<le> 102)"

definition lower_char :: "char \<Rightarrow> char" where
  "lower_char c = (if is_ascii_upper c then char_of (code c + 32) else c)"

definition upper_char :: "char \<Rightarrow> char" where
  "upper_char c = (if is_ascii_lower c then char_of (code c - 32) else c)"

definition to_lowercase :: "string \<Rightarrow> string" where
  "to_lowercase s = map lower_char s"

definition to_uppercase :: "string \<Rightarrow> string" where
  "to_uppercase s = map upper_char s"

definition eq_ignore_ascii_case :: "string \<Rightarrow> string \<Rightarrow> bool" where
  "eq_ignore_ascii_case a b \<longleftrightarrow> to_lowercase a = to_lowercase b"

fun join :: "string \<Rightarrow> string list \<Rightarrow> string" where
  "join sep [] = []"
| "join sep [p] = p"
| "join sep (p # q # ps) = p @ sep @ join sep (q # ps)"

definition rsplit_once :: "char \<Rightarrow> string \<Rightarrow> (string \<times> string) option" where
  "rsplit_once c s =
    (case split_once c (rev s) of None \<Rightarrow> None | Some (b, a) \<Rightarrow> Some (rev a, rev b))"

definition strip_suffix :: "string \<Rightarrow> string \<Rightarrow> string option" where
  "strip_suffix p s = map_option rev (strip_prefix (rev p) (rev s))"

fun dec_digits :: "nat \<Rightarrow> nat \<Rightarrow> string" where
  "dec_digits 0 n = []"
| "dec_digits (Suc fuel) n =
    (if n < 10 then [char_of (48 + n)]
     else dec_digits fuel (n div 10) @ [char_of (48 + n mod 10)])"

definition nat_to_string :: "nat \<Rightarrow> string" where
  "nat_to_string n = dec_digits (Suc n) n"

text \<open>\<^verbatim>\<open>sort\<close> and \<^verbatim>\<open>dedup\<close> on strings: bytewise lexicographic order.\<close>

definition sort_strings :: "string list \<Rightarrow> string list" where
  "sort_strings xs = sort xs"

definition dedup :: "string list \<Rightarrow> string list" where
  "dedup xs = remdups_adj xs"

lemma set_dedup_sort [simp]: "set (dedup (sort_strings xs)) = set xs"
  by (simp add: dedup_def sort_strings_def)

lemma distinct_dedup_sort [simp]: "distinct (dedup (sort_strings xs))"
proof -
  have "distinct (remdups_adj ys)" if "sorted ys" for ys :: "string list"
    using that by (induction ys rule: remdups_adj.induct) auto
  then show ?thesis by (simp add: dedup_def sort_strings_def)
qed

lemma join_cons: "ps \<noteq> [] \<Longrightarrow> join sep (p # ps) = p @ sep @ join sep ps"
  by (cases ps) auto

lemma join_split_on [simp]: "join [c] (split_on c s) = s"
proof (induction s)
  case (Cons d s)
  obtain p ps where s: "split_on c s = p # ps" by (cases "split_on c s") auto
  then show ?case using Cons by (cases ps) auto
qed simp

lemma split_on_join_pieces:
  "ps \<noteq> [] \<Longrightarrow> \<forall>p \<in> set ps. c \<notin> set p \<Longrightarrow> split_on c (join [c] ps) = ps"
proof (induction ps)
  case (Cons p ps)
  then show ?case by (cases "ps = []") (simp_all add: split_on_no_sep split_on_append join_cons)
qed simp

lemma rsplit_once_append [simp]: "c \<notin> set b \<Longrightarrow> rsplit_once c (a @ c # b) = Some (a, b)"
  by (simp add: rsplit_once_def)

lemma rsplit_once_None: "rsplit_once c s = None \<longleftrightarrow> c \<notin> set s"
  using split_once_None [of c "rev s"] by (auto simp: rsplit_once_def split: option.splits)

lemma strip_suffix_Some: "strip_suffix p s = Some r \<longleftrightarrow> s = r @ p"
  by (auto simp: strip_suffix_def strip_prefix_Some) (metis rev_append rev_rev_ident)

lemma split_on_first: "hd (split_on c s) = takeWhile (\<lambda>d. d \<noteq> c) s"
  by (induction s) (auto split: list.splits)

lemma not_space_alnum: "is_alphanumeric c \<Longrightarrow> c \<noteq> CHR ''/'' \<and> c \<noteq> CHR ''.'' \<and> \<not> is_space c"
  by (auto simp: is_alphanumeric_def is_ascii_digit_def is_ascii_upper_def is_ascii_lower_def
      code_def is_space_def)

section \<open>Decimal numerals\<close>

lemma digits_value_append:
  "digits_value dig r acc (a @ b) =
    (case digits_value dig r acc a of None \<Rightarrow> None | Some n \<Rightarrow> digits_value dig r n b)"
  by (induction a arbitrary: acc) (auto split: option.splits)

lemma dec_digit_of_nat: "d < 10 \<Longrightarrow> dec_digit (char_of (48 + d)) = Some d"
  by (simp add: dec_digit_def)

lemma digits_value_decimal: "n < f \<Longrightarrow> digits_value dec_digit 10 0 (dec_digits f n) = Some n"
proof (induction f arbitrary: n)
  case (Suc f)
  show ?case
  proof (cases "n < 10")
    case False
    then have "n div 10 < f" using Suc.prems by linarith
    with Suc.IH False show ?thesis by (simp add: digits_value_append dec_digit_of_nat)
  qed (simp add: dec_digit_of_nat)
qed simp

lemma decimal_digit: "c \<in> set (nat_to_string n) \<Longrightarrow> is_ascii_digit c"
proof -
  have "c \<in> set (dec_digits f n) \<Longrightarrow> is_ascii_digit c" for f n
    by (induction f arbitrary: n) (auto simp: is_ascii_digit_def code_def split: if_splits)
  then show "c \<in> set (nat_to_string n) \<Longrightarrow> is_ascii_digit c" unfolding nat_to_string_def by blast
qed

lemma decimal_nonempty [simp]: "nat_to_string n \<noteq> []"
  by (simp add: nat_to_string_def)

lemma parse_radix_decimal: "n < b \<Longrightarrow> parse_radix dec_digit 10 b (nat_to_string n) = Some n"
proof -
  assume n: "n < b"
  define s where "s = nat_to_string n"
  have "hd s \<noteq> CHR ''+''"
    using decimal_digit [of "hd s" n] by (auto simp: s_def is_ascii_digit_def code_def)
  moreover have "s \<noteq> []" by (simp add: s_def)
  moreover have "digits_value dec_digit 10 0 s = Some n"
    unfolding s_def nat_to_string_def by (rule digits_value_decimal) simp
  ultimately show ?thesis
    using n unfolding s_def [symmetric] by (cases s) (simp_all add: parse_radix_def Let_def)
qed

lemma parse_u16_decimal [simp]: "parse_u16 (nat_to_string (unat w)) = Some w"
  using parse_radix_decimal [of "unat w" 65536] unsigned_less [of w, where ?'a = nat]
  by (simp add: parse_u16_def)

lemma parse_u32_decimal [simp]: "parse_u32 (nat_to_string (unat w)) = Some w"
  using parse_radix_decimal [of "unat w" 4294967296] unsigned_less [of w, where ?'a = nat]
  by (simp add: parse_u32_def)

lemma parse_u64_decimal [simp]: "parse_u64 (nat_to_string (unat w)) = Some w"
  using parse_radix_decimal [of "unat w" 18446744073709551616] unsigned_less [of w, where ?'a = nat]
  by (simp add: parse_u64_def)

end
