(* ===== verification/Oci_Types.thy ===== *)
theory Oci_Types
  imports Dag_Store Rust_Text
begin

text \<open>
  The data types of \<^verbatim>\<open>pullrun-oci/src/puller.rs\<close>: media types, errors,
  descriptors, manifests, image configurations, indexes and pulled images.  Hash
  maps are association lists, JSON values a datatype.
\<close>

datatype json =
    JNull
  | JBool bool
  | JNumber string
  | JString string
  | JArray "json list"
  | JObject "(string \<times> json) list"

type_synonym str_map = "(string \<times> string) list"

section \<open>Media types\<close>

definition IMAGE_INDEX :: string where
  "IMAGE_INDEX = ''application/vnd.oci.image.index.v1+json''"
definition IMAGE_MANIFEST :: string where
  "IMAGE_MANIFEST = ''application/vnd.oci.image.manifest.v1+json''"
definition IMAGE_CONFIG :: string where
  "IMAGE_CONFIG = ''application/vnd.oci.image.config.v1+json''"
definition EMPTY_JSON :: string where
  "EMPTY_JSON = ''application/vnd.oci.empty.v1+json''"
definition LAYER_TAR :: string where
  "LAYER_TAR = ''application/vnd.oci.image.layer.v1.tar''"
definition LAYER_TAR_GZIP :: string where
  "LAYER_TAR_GZIP = ''application/vnd.oci.image.layer.v1.tar+gzip''"
definition LAYER_TAR_ZSTD :: string where
  "LAYER_TAR_ZSTD = ''application/vnd.oci.image.layer.v1.tar+zstd''"
definition LAYER_NONDIST_TAR :: string where
  "LAYER_NONDIST_TAR = ''application/vnd.oci.image.layer.nondistributable.v1.tar''"
definition LAYER_NONDIST_GZIP :: string where
  "LAYER_NONDIST_GZIP = ''application/vnd.oci.image.layer.nondistributable.v1.tar+gzip''"
definition LAYER_NONDIST_ZSTD :: string where
  "LAYER_NONDIST_ZSTD = ''application/vnd.oci.image.layer.nondistributable.v1.tar+zstd''"

datatype compression_format = Gzip | Zstd

fun compression_media_type :: "compression_format \<Rightarrow> string" where
  "compression_media_type Gzip = LAYER_TAR_GZIP"
| "compression_media_type Zstd = LAYER_TAR_ZSTD"

section \<open>Descriptors, manifests and configurations\<close>

datatype oci_error =
    Http string
  | OciStore store_error
  | OciIo string
  | Json string
  | InvalidManifest string
  | LayerNotFound string
  | UnsupportedMediaType string
  | OciDigestMismatch string digest_error
  | Other string

record oci_platform =
  architecture :: string
  os :: string
  os_version :: "string option"
  os_features :: "string list option"
  variant :: "string option"

record oci_descriptor =
  media_type :: string
  desc_digest :: string
  desc_size :: u64
  urls :: "string list option"
  desc_annotations :: "str_map option"
  desc_data :: "string option"
  platform :: "oci_platform option"
  artifact_type :: "string option"

record oci_manifest =
  schema_version :: u32
  manifest_media_type :: string
  manifest_artifact_type :: "string option"
  config :: oci_descriptor
  layers :: "oci_descriptor list"
  subject :: "oci_descriptor option"
  manifest_annotations :: "str_map option"

record oci_runtime_config =
  user :: "string option"
  exposed_ports :: "(string \<times> json) list option"
  env :: "string list option"
  entrypoint :: "string list option"
  cmd :: "string list option"
  volumes :: "(string \<times> json) list option"
  working_dir :: "string option"
  labels :: "str_map option"
  stop_signal :: "string option"
  args_escaped :: bool

record oci_root_fs =
  fs_type :: string
  diff_ids :: "string list"

record oci_history_entry =
  history_created :: "string option"
  created_by :: "string option"
  history_comment :: "string option"
  empty_layer :: "bool option"

record oci_image_config =
  created :: "string option"
  author :: "string option"
  cfg_architecture :: string
  cfg_os :: string
  cfg_os_version :: "string option"
  cfg_os_features :: "string list option"
  cfg_variant :: "string option"
  runtime_config :: "oci_runtime_config option"
  rootfs :: oci_root_fs
  history :: "oci_history_entry list option"

record oci_image_index =
  index_schema_version :: u32
  index_media_type :: string
  index_artifact_type :: "string option"
  index_manifests :: "oci_descriptor list"
  index_subject :: "oci_descriptor option"
  index_annotations :: "str_map option"

record oci_auth =
  username :: "string option"
  password :: "string option"
  registry_token :: "string option"

record pulled_image =
  manifest :: oci_manifest
  image_config :: oci_image_config
  config_digest :: digest
  layer_blobs :: "(digest \<times> bytes \<times> string) list"

record pulled_image_list =
  images :: "pulled_image list"
  list_bytes :: bytes
  child_descriptors :: "oci_descriptor list"

definition empty_json_descriptor :: oci_descriptor where
  "empty_json_descriptor =
    \<lparr>media_type = EMPTY_JSON,
     desc_digest = ''sha256:44136fa355b3678a1146ad16f7e8649e94fb4fc21fe77e8310c060f61caaff8a'',
     desc_size = 2, urls = None, desc_annotations = None, desc_data = None, platform = None,
     artifact_type = None\<rparr>"

definition plain_descriptor :: "string \<Rightarrow> string \<Rightarrow> u64 \<Rightarrow> oci_descriptor" where
  "plain_descriptor mt d n =
    \<lparr>media_type = mt, desc_digest = d, desc_size = n, urls = None, desc_annotations = None,
     desc_data = None, platform = None, artifact_type = None\<rparr>"

end
