(* ===== verification/Oci_Puller.thy ===== *)
theory Oci_Puller
  imports Oci_Types Reference_Crates
begin

text \<open>
  Pulling images from a registry, \<^verbatim>\<open>pullrun-oci/src/puller.rs\<close>: image
  references, registry URLs, tokens, manifests (with the choice of a platform
  inside an index), configurations and layer blobs.  The HTTP client, the JSON
  decoders of \<^verbatim>\<open>serde_json\<close>, gzip and base64 are the fields of the
  parameter record \<open>oci_env\<close>.  Following index entries is a recursion that need
  not end; it is a partial function whose value \<open>None\<close> means that it never
  returns.
\<close>

section \<open>Environment\<close>

record http_request =
  url :: string
  accept :: "string list"
  authorization :: "string option"

record http_response =
  status :: nat
  content_type :: string
  content_encoding :: string
  body :: bytes

record oci_env =
  http_get :: "http_request \<Rightarrow> string + http_response"
  gunzip :: "bytes \<Rightarrow> string + bytes"
  base64_encode :: "string \<Rightarrow> string"
  parse_token :: "bytes \<Rightarrow> string + (string option \<times> string option)"
  parse_manifest :: "bytes \<Rightarrow> string + oci_manifest"
  parse_manifest_list :: "bytes \<Rightarrow> string + oci_descriptor list"
  has_manifests :: "bytes \<Rightarrow> bool"
  parse_config :: "bytes \<Rightarrow> string + oci_image_config"
  parse_index :: "bytes \<Rightarrow> string + oci_image_index"
  arch_const :: string

record oci_puller =
  puller_auth :: "oci_auth option"
  insecure_registries :: "string list"

definition puller_new :: "oci_auth option \<Rightarrow> oci_puller" where
  "puller_new auth = \<lparr>puller_auth = auth, insecure_registries = []\<rparr>"

definition is_success :: "nat \<Rightarrow> bool" where
  "is_success st \<longleftrightarrow> 200 \<le> st \<and> st \<le> 299"

section \<open>References and URLs\<close>

definition scheme :: "oci_puller \<Rightarrow> string \<Rightarrow> string" where
  "scheme p registry = (if registry \<in> set (insecure_registries p) then ''http:'' else ''https:'')"

definition names_registry :: "string \<Rightarrow> bool" where
  "names_registry first \<longleftrightarrow>
    CHR ''.'' \<in> set first \<or> CHR '':'' \<in> set first \<or> first = ''localhost''"

definition registry_for :: "string \<Rightarrow> string option \<Rightarrow> string" where
  "registry_for image_ref explicit_registry =
    (if CHR ''/'' \<in> set image_ref \<and> names_registry (hd (split_on (CHR ''/'') image_ref))
     then hd (split_on (CHR ''/'') image_ref)
     else case explicit_registry of Some reg \<Rightarrow> reg | None \<Rightarrow> ''registry-1.docker.io'')"

definition is_docker_hub :: "string \<Rightarrow> bool" where
  "is_docker_hub registry \<longleftrightarrow> registry = ''registry-1.docker.io'' \<or> registry = ''docker.io''"

definition image_parts :: "string \<Rightarrow> string \<Rightarrow> string \<times> string" where
  "image_parts image_ref registry =
    (let parts = split_on (CHR ''/'') image_ref;
         after_registry =
           (if length parts > 1 \<and> names_registry (hd parts) then join ''/'' (tl parts) else image_ref);
         (segment, rest) =
           (case split_once (CHR '':'') after_registry of
              None \<Rightarrow> (after_registry, None) | Some (a, b) \<Rightarrow> (a, Some b));
         name = (if CHR ''/'' \<in> set segment then segment
                 else if is_docker_hub registry then ''library/'' @ segment
                 else segment)
     in (name, case rest of None \<Rightarrow> ''latest'' | Some tag \<Rightarrow> tag))"

definition registry_url :: "oci_puller \<Rightarrow> string \<Rightarrow> string \<Rightarrow> string \<Rightarrow> string \<Rightarrow> string" where
  "registry_url p part registry repository ref =
    (if is_docker_hub registry
     then ''https://index.docker.io/v2/'' @ repository @ part @ ref
     else scheme p registry @ ''//'' @ registry @ ''/v2/'' @ repository @ part @ ref)"

definition manifest_url :: "oci_puller \<Rightarrow> string \<Rightarrow> string \<Rightarrow> string \<Rightarrow> string" where
  "manifest_url p registry repository reference =
    registry_url p ''/manifests/'' registry repository reference"

definition blob_url :: "oci_puller \<Rightarrow> string \<Rightarrow> string \<Rightarrow> string \<Rightarrow> string" where
  "blob_url p registry repository d = registry_url p ''/blobs/'' registry repository d"

definition referrers_url :: "oci_puller \<Rightarrow> string \<Rightarrow> string \<Rightarrow> string \<Rightarrow> string" where
  "referrers_url p registry repository d = registry_url p ''/referrers/'' registry repository d"

definition current_arch :: "string \<Rightarrow> string" where
  "current_arch arch =
    (if arch = ''x86_64'' then ''amd64''
     else if arch = ''aarch64'' then ''arm64''
     else if arch = ''powerpc64'' then ''ppc64le''
     else arch)"

definition parse_platform :: "string \<Rightarrow> string \<times> string" where
  "parse_platform pf =
    (let (first, second) =
           (case split_once (CHR ''/'') pf of None \<Rightarrow> (pf, []) | Some (a, b) \<Rightarrow> (a, b));
         os_name = (if first = [] then ''linux'' else first);
         arch = (if second = [] then ''amd64'' else second)
     in (arch, os_name))"

section \<open>Requests\<close>

definition bearer :: "string option \<Rightarrow> string option" where
  "bearer token = map_option (\<lambda>t. ''Bearer '' @ t) token"

definition basic_auth :: "oci_env \<Rightarrow> oci_puller \<Rightarrow> string option" where
  "basic_auth N p =
    (case puller_auth p of
       None \<Rightarrow> None
     | Some a \<Rightarrow>
         (case (username a, password a) of
            (Some u, Some pw) \<Rightarrow> Some (''Basic '' @ base64_encode N (u @ '':'' @ pw))
          | _ \<Rightarrow> None))"

definition token_url :: "oci_puller \<Rightarrow> string \<Rightarrow> string \<Rightarrow> string" where
  "token_url p registry repository =
    (if is_docker_hub registry
     then ''https://auth.docker.io/token?service=registry.docker.io&scope=repository:''
            @ repository @ '':pull''
     else scheme p registry @ ''//'' @ registry @ ''/token?scope=repository:'' @ repository @ '':pull'')"

definition get_token :: "oci_env \<Rightarrow> oci_puller \<Rightarrow> string \<Rightarrow> string \<Rightarrow> oci_error + string option" where
  "get_token N p registry repository =
    (case http_get N \<lparr>url = token_url p registry repository, accept = [], authorization = basic_auth N p\<rparr> of
       Inl e \<Rightarrow> Inl (Http e)
     | Inr resp \<Rightarrow>
         if is_success (status resp) then
           (case parse_token N (body resp) of
              Inl e \<Rightarrow> Inl (Http e)
            | Inr (token, access_token) \<Rightarrow>
                Inr (case token of Some t \<Rightarrow> Some t | None \<Rightarrow> access_token))
         else if status resp = 404 then Inr None
         else Inl (Other (''registry authentication failed for '' @ registry @ ''/'' @ repository
                @ '': HTTP '' @ nat_to_string (status resp))))"

definition decode_body :: "oci_env \<Rightarrow> string \<Rightarrow> bytes \<Rightarrow> oci_error + bytes" where
  "decode_body N encoding data =
    (if contains_str (to_lowercase encoding) ''gzip''
     then (case gunzip N data of Inl e \<Rightarrow> Inl (OciIo e) | Inr decoded \<Rightarrow> Inr decoded)
     else Inr data)"

definition is_list_body :: "oci_env \<Rightarrow> string \<Rightarrow> bytes \<Rightarrow> bool" where
  "is_list_body N ct bs \<longleftrightarrow>
    contains_str ct ''manifest.list'' \<or> contains_str ct ''image.index''
      \<or> (has_manifests N bs \<and> (case parse_manifest N bs of Inl _ \<Rightarrow> True | Inr _ \<Rightarrow> False))"

definition docker_manifest :: string where
  "docker_manifest = ''application/vnd.docker.distribution.manifest.v2+json''"

definition docker_manifest_list :: string where
  "docker_manifest_list = ''application/vnd.docker.distribution.manifest.list.v2+json''"

definition fetch_raw_list ::
    "oci_env \<Rightarrow> oci_puller \<Rightarrow> string \<Rightarrow> string \<Rightarrow> string \<Rightarrow> string option \<Rightarrow>
     oci_error + (bytes \<times> oci_descriptor list)" where
  "fetch_raw_list N p registry repository reference token =
    (case http_get N \<lparr>url = manifest_url p registry repository reference,
                      accept = [IMAGE_INDEX, docker_manifest_list, IMAGE_MANIFEST, docker_manifest],
                      authorization = bearer token\<rparr> of
       Inl e \<Rightarrow> Inl (Http e)
     | Inr resp \<Rightarrow>
         if \<not> is_success (status resp) then Inl (InvalidManifest ''manifest list fetch failed'')
         else
           (case decode_body N (content_encoding resp) (body resp) of
              Inl e \<Rightarrow> Inl e
            | Inr bs \<Rightarrow>
                if \<not> is_list_body N (content_type resp) bs
                then Inl (InvalidManifest ''reference does not point to a manifest list'')
                else
                  (case parse_manifest_list N bs of
                     Inl e \<Rightarrow> Inl (InvalidManifest (''manifest list parse: '' @ e))
                   | Inr children \<Rightarrow> Inr (bs, children))))"

definition matches_platform :: "string \<Rightarrow> string \<Rightarrow> oci_descriptor \<Rightarrow> bool" where
  "matches_platform target_arch target_os m =
    (case platform m of
       None \<Rightarrow> False
     | Some pf \<Rightarrow> eq_ignore_ascii_case (os pf) target_os
         \<and> eq_ignore_ascii_case (architecture pf) target_arch)"

definition not_attestation :: "oci_descriptor \<Rightarrow> bool" where
  "not_attestation m =
    (case platform m of
       None \<Rightarrow> True
     | Some pf \<Rightarrow> os pf \<noteq> ''unknown'' \<and> architecture pf \<noteq> ''unknown'')"

definition pick_child :: "string \<Rightarrow> string \<Rightarrow> oci_descriptor list \<Rightarrow> oci_descriptor option" where
  "pick_child target_arch target_os ms =
    (case List.find (matches_platform target_arch target_os) ms of
       Some m \<Rightarrow> Some m
     | None \<Rightarrow>
         (case List.find not_attestation ms of
            Some m \<Rightarrow> Some m
          | None \<Rightarrow> (case ms of [] \<Rightarrow> None | m # _ \<Rightarrow> Some m)))"

text \<open>One request of the manifest loop: the next reference to follow, or the manifest.\<close>

definition fetch_manifest_step ::
    "oci_env \<Rightarrow> ext \<Rightarrow> oci_puller \<Rightarrow> string \<Rightarrow> string \<Rightarrow> string option \<Rightarrow> string option \<Rightarrow> string \<Rightarrow>
     oci_error + (string + oci_manifest)" where
  "fetch_manifest_step N E p registry repository token pf reference =
    (case http_get N \<lparr>url = manifest_url p registry repository reference,
                      accept = [IMAGE_MANIFEST, IMAGE_INDEX, docker_manifest, docker_manifest_list],
                      authorization = bearer token\<rparr> of
       Inl e \<Rightarrow> Inl (Http e)
     | Inr resp \<Rightarrow>
         if \<not> is_success (status resp) then Inl (InvalidManifest ''manifest fetch failed'')
         else
           (case decode_body N (content_encoding resp) (body resp) of
              Inl e \<Rightarrow> Inl e
            | Inr bs \<Rightarrow>
                (case (if CHR '':'' \<in> set reference then verify_oci E bs reference else Inr ()) of
                     Inl e \<Rightarrow> Inl (OciDigestMismatch reference e)
                   | Inr _ \<Rightarrow>
                       if is_list_body N (content_type resp) bs then
                         (case parse_manifest_list N bs of
                            Inl e \<Rightarrow> Inl (InvalidManifest (''manifest list parse: '' @ e))
                          | Inr ms \<Rightarrow>
                              (let (target_arch, target_os) =
                                     (case pf of Some q \<Rightarrow> parse_platform q
                                      | None \<Rightarrow> (current_arch (arch_const N), ''linux''))
                               in case pick_child target_arch target_os ms of
                                    None \<Rightarrow> Inl (InvalidManifest ''no child manifest for current platform'')
                                  | Some child \<Rightarrow> Inr (Inl (desc_digest child))))
                       else
                         (case parse_manifest N bs of
                            Inl e \<Rightarrow> Inl (InvalidManifest (''manifest parse: '' @ e))
                          | Inr m \<Rightarrow> Inr (Inr m)))))"

partial_function (option) fetch_manifest_with_platform ::
    "oci_env \<Rightarrow> ext \<Rightarrow> oci_puller \<Rightarrow> string \<Rightarrow> string \<Rightarrow> string option \<Rightarrow> string option \<Rightarrow> string \<Rightarrow>
     (oci_error + oci_manifest) option" where
  "fetch_manifest_with_platform N E p registry repository token pf reference =
    (case fetch_manifest_step N E p registry repository token pf reference of
       Inl e \<Rightarrow> Some (Inl e)
     | Inr next \<Rightarrow>
         (case next of
            Inr m \<Rightarrow> Some (Inr m)
          | Inl child \<Rightarrow> fetch_manifest_with_platform N E p registry repository token pf child))"

definition fetch_blob ::
    "oci_env \<Rightarrow> ext \<Rightarrow> oci_puller \<Rightarrow> string \<Rightarrow> string \<Rightarrow> string \<Rightarrow> string option \<Rightarrow> oci_error + bytes" where
  "fetch_blob N E p registry repository d token =
    (case http_get N \<lparr>url = blob_url p registry repository d, accept = [], authorization = bearer token\<rparr> of
       Inl e \<Rightarrow> Inl (Http e)
     | Inr resp \<Rightarrow>
         (case decode_body N (content_encoding resp) (body resp) of
            Inl e \<Rightarrow> Inl e
          | Inr data \<Rightarrow>
              (case verify_oci E data d of
                 Inl e \<Rightarrow> Inl (OciDigestMismatch d e)
               | Inr _ \<Rightarrow> Inr data)))"

definition fetch_config ::
    "oci_env \<Rightarrow> ext \<Rightarrow> oci_puller \<Rightarrow> string \<Rightarrow> string \<Rightarrow> string \<Rightarrow> string option \<Rightarrow>
     oci_error + oci_image_config" where
  "fetch_config N E p registry repository d token =
    (case fetch_blob N E p registry repository d token of
       Inl e \<Rightarrow> Inl e
     | Inr data \<Rightarrow>
         (case parse_config N data of
            Inl e \<Rightarrow> Inl (InvalidManifest (''config parse: '' @ e))
          | Inr c \<Rightarrow> Inr c))"

definition fetch_blob_by_digest ::
    "oci_env \<Rightarrow> ext \<Rightarrow> oci_puller \<Rightarrow> string \<Rightarrow> string \<Rightarrow> string \<Rightarrow> string option \<Rightarrow> oci_error + bytes" where
  "fetch_blob_by_digest N E p registry repository d token = fetch_blob N E p registry repository d token"

definition fetch_referrers ::
    "oci_env \<Rightarrow> oci_puller \<Rightarrow> string \<Rightarrow> string \<Rightarrow> string \<Rightarrow> string option \<Rightarrow> string option \<Rightarrow>
     oci_error + oci_image_index" where
  "fetch_referrers N p registry repository d atype token =
    (let u = referrers_url p registry repository d
               @ (case atype of None \<Rightarrow> [] | Some a \<Rightarrow> ''?artifactType='' @ a)
     in case http_get N \<lparr>url = u, accept = [], authorization = bearer token\<rparr> of
          Inl e \<Rightarrow> Inl (Http e)
        | Inr resp \<Rightarrow>
            (case decode_body N (content_encoding resp) (body resp) of
               Inl e \<Rightarrow> Inl e
             | Inr bs \<Rightarrow> (case parse_index N bs of Inl e \<Rightarrow> Inl (Json e) | Inr i \<Rightarrow> Inr i)))"

section \<open>Pulling\<close>

fun fetch_layers ::
    "oci_env \<Rightarrow> ext \<Rightarrow> oci_puller \<Rightarrow> string \<Rightarrow> string \<Rightarrow> string option \<Rightarrow> oci_descriptor list \<Rightarrow>
     oci_error + (digest \<times> bytes \<times> string) list" where
  "fetch_layers N E p registry repository token [] = Inr []"
| "fetch_layers N E p registry repository token (layer # ls) =
    (case fetch_blob N E p registry repository (desc_digest layer) token of
       Inl e \<Rightarrow> Inl e
     | Inr blob \<Rightarrow>
         (case from_hex E (desc_digest layer) of
            Inl e \<Rightarrow> Inl (Other ''invalid layer digest'')
          | Inr layer_d \<Rightarrow>
              (case fetch_layers N E p registry repository token ls of
                 Inl e \<Rightarrow> Inl e
               | Inr rest \<Rightarrow> Inr ((layer_d, blob, media_type layer) # rest))))"

definition fetch_image ::
    "oci_env \<Rightarrow> ext \<Rightarrow> oci_puller \<Rightarrow> string \<Rightarrow> string \<Rightarrow> string option \<Rightarrow> oci_manifest \<Rightarrow>
     oci_error + pulled_image" where
  "fetch_image N E p registry repository token m =
    (case fetch_config N E p registry repository (desc_digest (config m)) token of
       Inl e \<Rightarrow> Inl e
     | Inr c \<Rightarrow>
         (case from_hex E (desc_digest (config m)) of
            Inl e \<Rightarrow> Inl (Other ''invalid config digest'')
          | Inr cd \<Rightarrow>
              (case fetch_layers N E p registry repository token (layers m) of
                 Inl e \<Rightarrow> Inl e
               | Inr blobs \<Rightarrow>
                   Inr \<lparr>manifest = m, image_config = c, config_digest = cd, layer_blobs = blobs\<rparr>)))"

definition pull_with_platform ::
    "oci_env \<Rightarrow> ext \<Rightarrow> oci_puller \<Rightarrow> string \<Rightarrow> string option \<Rightarrow> string option \<Rightarrow>
     (oci_error + pulled_image) option" where
  "pull_with_platform N E p image_ref explicit_registry pf =
    (let registry = registry_for image_ref explicit_registry;
         (repository, tag) = image_parts image_ref registry
     in case get_token N p registry repository of
          Inl e \<Rightarrow> Some (Inl e)
        | Inr token \<Rightarrow>
            (case fetch_manifest_with_platform N E p registry repository token pf tag of
               None \<Rightarrow> None
             | Some (Inl e) \<Rightarrow> Some (Inl e)
             | Some (Inr m) \<Rightarrow> Some (fetch_image N E p registry repository token m)))"

definition pull ::
    "oci_env \<Rightarrow> ext \<Rightarrow> oci_puller \<Rightarrow> string \<Rightarrow> string option \<Rightarrow> (oci_error + pulled_image) option" where
  "pull N E p image_ref explicit_registry = pull_with_platform N E p image_ref explicit_registry None"

fun pull_children ::
    "oci_env \<Rightarrow> ext \<Rightarrow> oci_puller \<Rightarrow> string \<Rightarrow> string \<Rightarrow> string option \<Rightarrow> oci_descriptor list \<Rightarrow>
     (oci_error + pulled_image list) option" where
  "pull_children N E p registry repository token [] = Some (Inr [])"
| "pull_children N E p registry repository token (child # children) =
    (case fetch_manifest_with_platform N E p registry repository token None (desc_digest child) of
       None \<Rightarrow> None
     | Some (Inl e) \<Rightarrow> Some (Inl e)
     | Some (Inr m) \<Rightarrow>
         (case fetch_image N E p registry repository token m of
            Inl e \<Rightarrow> Some (Inl e)
          | Inr img \<Rightarrow>
              (case pull_children N E p registry repository token children of
                 Some (Inr imgs) \<Rightarrow> Some (Inr (img # imgs))
               | other \<Rightarrow> other)))"

definition pull_all ::
    "oci_env \<Rightarrow> ext \<Rightarrow> oci_puller \<Rightarrow> string \<Rightarrow> string option \<Rightarrow> (oci_error + pulled_image_list) option" where
  "pull_all N E p image_ref explicit_registry =
    (let registry = registry_for image_ref explicit_registry;
         (repository, tag) = image_parts image_ref registry
     in case get_token N p registry repository of
          Inl e \<Rightarrow> Some (Inl e)
        | Inr token \<Rightarrow>
            (case fetch_raw_list N p registry repository tag token of
               Inl e \<Rightarrow> Some (Inl e)
             | Inr (bs, children) \<Rightarrow>
                 (case pull_children N E p registry repository token children of
                    None \<Rightarrow> None
                  | Some (Inl e) \<Rightarrow> Some (Inl e)
                  | Some (Inr imgs) \<Rightarrow>
                      Some (Inr \<lparr>images = imgs, list_bytes = bs, child_descriptors = children\<rparr>))))"

definition resolve_image ::
    "oci_env \<Rightarrow> ext \<Rightarrow> oci_puller \<Rightarrow> string \<Rightarrow> string option \<Rightarrow> string option \<Rightarrow>
     (oci_error + (oci_manifest \<times> oci_image_config \<times> string \<times> string \<times> string \<times> string option)) option" where
  "resolve_image N E p image_ref explicit_registry pf =
    (let registry = registry_for image_ref explicit_registry;
         (repository, tag) = image_parts image_ref registry
     in case get_token N p registry repository of
          Inl e \<Rightarrow> Some (Inl e)
        | Inr token \<Rightarrow>
            (case fetch_manifest_with_platform N E p registry repository token pf tag of
               None \<Rightarrow> None
             | Some (Inl e) \<Rightarrow> Some (Inl e)
             | Some (Inr m) \<Rightarrow>
                 (case fetch_config N E p registry repository (desc_digest (config m)) token of
                    Inl e \<Rightarrow> Some (Inl e)
                  | Inr c \<Rightarrow> Some (Inr (m, c, desc_digest (config m), registry, repository, token)))))"

section \<open>Verified content\<close>

text \<open>\<^verbatim>\<open>hex\<close>: decoding fails on anything but hexadecimal digits.\<close>

definition hex_strict :: "ext \<Rightarrow> bool" where
  "hex_strict E \<longleftrightarrow> (\<forall>s bs. hex_decode E s = Inr bs \<longrightarrow> list_all is_ascii_hexdigit s)"

lemma ref_hex_strict: "hex_strict ref_ext"
proof -
  have "list_all (\<lambda>k. is_ascii_hexdigit (hex_digit k)) [0..<16]" by code_simp
  then have digit: "is_ascii_hexdigit c" if "hex_char_value c = Some k" for c k
    using that by (auto simp: hex_char_value_def find_Some_iff list_all_iff)
  have "list_all is_ascii_hexdigit s" if "ref_hex_decode s = Inr bs" for s bs
    using that by (induction s arbitrary: bs rule: ref_hex_decode.induct)
      (auto split: option.splits sum.splits dest: digit)
  then show ?thesis by (auto simp: hex_strict_def ref_ext_def)
qed

lemma colon_not_hex: "\<not> is_ascii_hexdigit (CHR '':'')"
  by (simp add: is_ascii_hexdigit_def is_ascii_digit_def code_def)

lemma verified_digest:
  assumes "hex_ok E" "hex_strict E" "verify_oci E data ds = Inr ()" "from_hex E ds = Inr d"
  shows "compute E data = d"
proof -
  obtain algo enc where ds: "ds = algo @ CHR '':'' # enc" "split_once (CHR '':'') ds = Some (algo, enc)"
    using assms(3) by (auto simp: verify_oci_def split_once_Some split: option.splits)
  have "algo = ''sha256''"
  proof (rule ccontr)
    assume "algo \<noteq> ''sha256''"
    then have "strip_prefix ''sha256:'' ds = None"
      using ds(2) split_once_append [of "CHR '':''" "''sha256''"]
      by (auto simp: strip_prefix_None)
    then have "hex_decode E ds = Inr (digest_bytes d)"
      using assms(4) by (auto simp: from_hex_def Let_def split: sum.splits if_splits)
    then have "list_all is_ascii_hexdigit ds" using assms(2) by (simp add: hex_strict_def)
    then show False using ds(1) colon_not_hex by simp
  qed
  then have "hex_encode E (sha256 E data) = enc"
    using assms(3) ds(2) by (auto simp: verify_oci_def Let_def split: if_splits)
  moreover have "strip_prefix ''sha256:'' ds = Some enc"
    using ds(1) \<open>algo = ''sha256''\<close> strip_prefix_append [of "''sha256:''" enc] by simp
  ultimately show ?thesis
    using assms(1,4) by (auto simp: from_hex_def Let_def hex_ok_def compute_def split: sum.splits if_splits)
qed

lemma fetch_blob_verified:
  "fetch_blob N E p registry repository ds token = Inr data \<Longrightarrow> verify_oci E data ds = Inr ()"
  by (auto simp: fetch_blob_def split: sum.splits)

text \<open>A layer as it must come out of a pull: the bytes hash to the digest in the manifest.\<close>

definition layer_verified :: "ext \<Rightarrow> oci_descriptor \<Rightarrow> digest \<times> bytes \<times> string \<Rightarrow> bool" where
  "layer_verified E layer = (\<lambda>(d, data, mt).
     from_hex E (desc_digest layer) = Inr d \<and> compute E data = d \<and> mt = media_type layer)"

lemma fetch_layers_verified:
  assumes "hex_ok E" "hex_strict E" "fetch_layers N E p registry repository token ls = Inr blobs"
  shows "list_all2 (layer_verified E) ls blobs"
  using assms(3)
proof (induction ls arbitrary: blobs)
  case (Cons l ls)
  obtain data d rest where parts: "fetch_blob N E p registry repository (desc_digest l) token = Inr data"
      "from_hex E (desc_digest l) = Inr d" "fetch_layers N E p registry repository token ls = Inr rest"
      "blobs = (d, data, media_type l) # rest"
    using Cons.prems by (auto split: sum.splits)
  then have "compute E data = d"
    using verified_digest [OF assms(1,2)] fetch_blob_verified by blast
  with parts Cons.IH show ?case by (simp add: layer_verified_def)
qed simp

lemma fetch_image_verified:
  assumes "hex_ok E" "hex_strict E" "fetch_image N E p registry repository token m = Inr img"
  shows "manifest img = m \<and> list_all2 (layer_verified E) (layers m) (layer_blobs img)
    \<and> from_hex E (desc_digest (config m)) = Inr (config_digest img)
    \<and> (\<exists>data. compute E data = config_digest img \<and> parse_config N data = Inr (image_config img))"
proof -
  obtain c cd blobs where parts: "fetch_config N E p registry repository (desc_digest (config m)) token = Inr c"
      "from_hex E (desc_digest (config m)) = Inr cd"
      "fetch_layers N E p registry repository token (layers m) = Inr blobs"
      "img = \<lparr>manifest = m, image_config = c, config_digest = cd, layer_blobs = blobs\<rparr>"
    using assms(3) by (auto simp: fetch_image_def split: sum.splits)
  obtain data where data: "fetch_blob N E p registry repository (desc_digest (config m)) token = Inr data"
      "parse_config N data = Inr c"
    using parts(1) by (auto simp: fetch_config_def split: sum.splits)
  then have "compute E data = cd"
    using verified_digest [OF assms(1,2) _ parts(2)] fetch_blob_verified by blast
  with data parts fetch_layers_verified [OF assms(1,2) parts(3)] show ?thesis by auto
qed

lemma pull_children_verified:
  assumes "hex_ok E" "hex_strict E" "pull_children N E p registry repository token cs = Some (Inr imgs)"
  shows "\<forall>img \<in> set imgs. list_all2 (layer_verified E) (layers (manifest img)) (layer_blobs img)"
  using assms(3)
proof (induction cs arbitrary: imgs)
  case (Cons c cs)
  obtain m img rest where parts: "fetch_image N E p registry repository token m = Inr img"
      "pull_children N E p registry repository token cs = Some (Inr rest)" "imgs = img # rest"
    using Cons.prems by (auto split: option.splits sum.splits)
  then show ?case using Cons.IH fetch_image_verified [OF assms(1,2) parts(1)] by auto
qed simp

text \<open>
  C11: nothing unverified comes out of a pull.  A successful pull, of one platform
  or of all of them, returns for every layer of the manifest, in order and with
  its media type, bytes whose SHA-256 is the digest the manifest gives; and the
  configuration it returns was decoded from bytes with the configuration digest.
\<close>

theorem pull_verified:
  assumes "hex_ok E" "hex_strict E"
  shows "(pull_with_platform N E p image_ref reg pf = Some (Inr img) \<longrightarrow>
      list_all2 (layer_verified E) (layers (manifest img)) (layer_blobs img)
      \<and> from_hex E (desc_digest (config (manifest img))) = Inr (config_digest img)
      \<and> (\<exists>data. compute E data = config_digest img \<and> parse_config N data = Inr (image_config img)))
    \<and> (pull_all N E p image_ref reg = Some (Inr all) \<longrightarrow>
      (\<forall>i \<in> set (images all). list_all2 (layer_verified E) (layers (manifest i)) (layer_blobs i)))"
proof (intro conjI impI)
  assume "pull_with_platform N E p image_ref reg pf = Some (Inr img)"
  then obtain registry repository token m where
    "fetch_image N E p registry repository token m = Inr img"
    by (auto simp: pull_with_platform_def Let_def split: prod.splits sum.splits option.splits)
  from fetch_image_verified [OF assms this]
  show "list_all2 (layer_verified E) (layers (manifest img)) (layer_blobs img)"
    "from_hex E (desc_digest (config (manifest img))) = Inr (config_digest img)"
    "\<exists>data. compute E data = config_digest img \<and> parse_config N data = Inr (image_config img)"
    by simp_all
next
  assume "pull_all N E p image_ref reg = Some (Inr all)"
  then obtain registry repository token cs where
    "pull_children N E p registry repository token cs = Some (Inr (images all))"
    by (auto simp: pull_all_def Let_def split: prod.splits sum.splits option.splits)
  from pull_children_verified [OF assms this]
  show "\<forall>i \<in> set (images all). list_all2 (layer_verified E) (layers (manifest i)) (layer_blobs i)" .
qed

text \<open>A registry that serves one image with one layer, and no token endpoint.\<close>

definition sample_digest :: string where
  "sample_digest = ''sha256:'' @ hex_encode ref_ext (ref_sha [7])"

definition sample_manifest :: oci_manifest where
  "sample_manifest =
    \<lparr>schema_version = 2, manifest_media_type = IMAGE_MANIFEST, manifest_artifact_type = None,
     config = plain_descriptor IMAGE_CONFIG sample_digest 1,
     layers = [plain_descriptor LAYER_TAR sample_digest 1], subject = None, manifest_annotations = None\<rparr>"

definition sample_config :: oci_image_config where
  "sample_config =
    \<lparr>created = None, author = None, cfg_architecture = ''amd64'', cfg_os = ''linux'', cfg_os_version = None,
     cfg_os_features = None, cfg_variant = None, runtime_config = None,
     rootfs = \<lparr>fs_type = ''layers'', diff_ids = []\<rparr>, history = None\<rparr>"

definition sample_env :: oci_env where
  "sample_env =
    \<lparr>http_get = (\<lambda>r. if contains_str (url r) ''/token?''
        then Inr \<lparr>status = 404, content_type = [], content_encoding = [], body = []\<rparr>
        else if contains_str (url r) ''/manifests/''
        then Inr \<lparr>status = 200, content_type = IMAGE_MANIFEST, content_encoding = [], body = [1]\<rparr>
        else Inr \<lparr>status = 200, content_type = [], content_encoding = [], body = [7]\<rparr>),
     gunzip = Inr, base64_encode = (\<lambda>s. s), parse_token = (\<lambda>_. Inr (None, None)),
     parse_manifest = (\<lambda>_. Inr sample_manifest), parse_manifest_list = (\<lambda>_. Inl []),
     has_manifests = (\<lambda>_. False), parse_config = (\<lambda>_. Inr sample_config), parse_index = (\<lambda>_. Inl []),
     arch_const = ''x86_64''\<rparr>"

definition sample_pull :: "oci_error + pulled_image" where
  "sample_pull =
    fetch_image sample_env ref_ext (puller_new None) ''registry-1.docker.io'' ''library/app'' None sample_manifest"

lemma sample_pull_ok: "pull_with_platform sample_env ref_ext (puller_new None) ''app'' None None = Some sample_pull"
proof -
  have "fetch_manifest_step sample_env ref_ext (puller_new None) ''registry-1.docker.io'' ''library/app''
      None None ''latest'' = Inr (Inr sample_manifest)"
    by code_simp
  then have "fetch_manifest_with_platform sample_env ref_ext (puller_new None) ''registry-1.docker.io''
      ''library/app'' None None ''latest'' = Some (Inr sample_manifest)"
    by (simp add: fetch_manifest_with_platform.simps)
  moreover have "registry_for ''app'' None = ''registry-1.docker.io''"
    "image_parts ''app'' ''registry-1.docker.io'' = (''library/app'', ''latest'')"
    "get_token sample_env (puller_new None) ''registry-1.docker.io'' ''library/app'' = Inr None"
    by code_simp+
  ultimately show ?thesis by (simp add: pull_with_platform_def sample_pull_def)
qed

theorem pull_verified_witness:
  "\<exists>img. pull_with_platform sample_env ref_ext (puller_new None) ''app'' None None = Some (Inr img)
    \<and> list_all2 (layer_verified ref_ext) (layers (manifest img)) (layer_blobs img)
    \<and> length (layer_blobs img) = 1"
proof -
  have "\<not> isl sample_pull" "length (layer_blobs (projr sample_pull)) = 1" by code_simp+
  then obtain img where img: "sample_pull = Inr img" "length (layer_blobs img) = 1"
    by (metis sum.collapse(2))
  have ok: "pull_with_platform sample_env ref_ext (puller_new None) ''app'' None None = Some (Inr img)"
    using sample_pull_ok img by simp
  with img pull_verified [OF ref_hex_ok ref_hex_strict, of sample_env "puller_new None" "''app''" None None img]
  show ?thesis by blast
qed

section \<open>Following an index\<close>

definition manifest_next ::
    "oci_env \<Rightarrow> ext \<Rightarrow> oci_puller \<Rightarrow> string \<Rightarrow> string \<Rightarrow> string option \<Rightarrow> string option \<Rightarrow> string \<Rightarrow> string \<Rightarrow> bool" where
  "manifest_next N E p registry repository token pf a b \<longleftrightarrow>
    fetch_manifest_step N E p registry repository token pf a = Inr (Inl b)"

definition manifest_final ::
    "oci_env \<Rightarrow> ext \<Rightarrow> oci_puller \<Rightarrow> string \<Rightarrow> string \<Rightarrow> string option \<Rightarrow> string option \<Rightarrow> string \<Rightarrow>
     oci_error + oci_manifest \<Rightarrow> bool" where
  "manifest_final N E p registry repository token pf ref r \<longleftrightarrow>
    (case fetch_manifest_step N E p registry repository token pf ref of
       Inl e \<Rightarrow> r = Inl e
     | Inr x \<Rightarrow> (case x of Inr m \<Rightarrow> r = Inr m | Inl _ \<Rightarrow> False))"

lemma manifest_follow:
  "fetch_manifest_with_platform N E p registry repository token pf reference = Some r \<Longrightarrow>
     \<exists>ref. (manifest_next N E p registry repository token pf)\<^sup>*\<^sup>* reference ref
       \<and> manifest_final N E p registry repository token pf ref r"
proof (rule fetch_manifest_with_platform.raw_induct
    [where P = "\<lambda>N E p registry repository token pf reference r.
       \<exists>ref. (manifest_next N E p registry repository token pf)\<^sup>*\<^sup>* reference ref
         \<and> manifest_final N E p registry repository token pf ref r"])
  fix f N E p registry repository token pf reference r
  assume IH: "\<And>N E p registry repository token pf reference r.
      f N E p registry repository token pf reference = Some r \<Longrightarrow>
      \<exists>ref. (manifest_next N E p registry repository token pf)\<^sup>*\<^sup>* reference ref
        \<and> manifest_final N E p registry repository token pf ref r"
    and eq: "(case fetch_manifest_step N E p registry repository token pf reference of
       Inl e \<Rightarrow> Some (Inl e)
     | Inr next \<Rightarrow>
         (case next of Inl child \<Rightarrow> f N E p registry repository token pf child | Inr m \<Rightarrow> Some (Inr m))) = Some r"
  show "\<exists>ref. (manifest_next N E p registry repository token pf)\<^sup>*\<^sup>* reference ref
      \<and> manifest_final N E p registry repository token pf ref r"
  proof (cases "\<exists>child. fetch_manifest_step N E p registry repository token pf reference = Inr (Inl child)")
    case True
    then obtain child where child: "manifest_next N E p registry repository token pf reference child"
        "f N E p registry repository token pf child = Some r"
      using eq by (auto simp: manifest_next_def)
    then show ?thesis using IH by (meson converse_rtranclp_into_rtranclp)
  next
    case False
    then have "manifest_final N E p registry repository token pf reference r"
      using eq by (auto simp: manifest_final_def split: sum.splits)
    then show ?thesis by blast
  qed
qed


text \<open>
  An index entry with a digest algorithm other than the two SHA-2 ones is followed
  without any check, so a registry whose answer to such a reference is an index
  that selects the same entry keeps the puller busy forever.
\<close>

definition loop_env :: oci_env where
  "loop_env = sample_env
    \<lparr>http_get := (\<lambda>r. Inr \<lparr>status = 200, content_type = IMAGE_INDEX, content_encoding = [], body = [1]\<rparr>),
     parse_manifest_list := (\<lambda>_. Inr [plain_descriptor IMAGE_MANIFEST ''md5:0'' 1])\<rparr>"

lemma unverified_index_loops:
  "fetch_manifest_with_platform loop_env ref_ext (puller_new None) ''r'' ''a'' None None ''md5:0'' = None"
proof -
  have step: "fetch_manifest_step loop_env ref_ext (puller_new None) ''r'' ''a'' None None ''md5:0''
      = Inr (Inl ''md5:0'')"
    by code_simp
  have stuck: "ref = ''md5:0''"
    if "(manifest_next loop_env ref_ext (puller_new None) ''r'' ''a'' None None)\<^sup>*\<^sup>* ''md5:0'' ref" for ref
    using that by (induction rule: rtranclp_induct) (simp_all add: manifest_next_def step)
  show ?thesis
  proof (cases "fetch_manifest_with_platform loop_env ref_ext (puller_new None) ''r'' ''a'' None None ''md5:0''")
    case (Some r)
    then obtain ref where
      "(manifest_next loop_env ref_ext (puller_new None) ''r'' ''a'' None None)\<^sup>*\<^sup>* ''md5:0'' ref"
      "manifest_final loop_env ref_ext (puller_new None) ''r'' ''a'' None None ref r"
      using manifest_follow by blast
    then show ?thesis using stuck [of ref] step by (simp add: manifest_final_def)
  qed
qed

section \<open>Image references\<close>

lemma registry_split:
  assumes "CHR ''/'' \<notin> set r"
  shows "split_on (CHR ''/'') (r @ ''/'' @ rest) = r # split_on (CHR ''/'') rest"
    and "join ''/'' (split_on (CHR ''/'') rest) = rest"
  using assms split_on_append [of "CHR ''/''" r rest] by simp_all

text \<open>
  A reference that names its registry is taken apart as written.  The registry
  is the part before the first slash, whatever registry is given on the side; the
  name and the tag are the parts around the first colon behind it, the tag is
  \<^verbatim>\<open>latest\<close> when there is none, and only single-segment names on Docker Hub
  get the \<^verbatim>\<open>library/\<close> prefix.  A reference by digest is not recognized: its
  hexadecimal part is taken for the tag.
\<close>

lemma image_reference_parts:
  assumes "names_registry r" "CHR ''/'' \<notin> set r" "CHR '':'' \<notin> set name"
  shows "registry_for (r @ ''/'' @ rest) ex = r
    \<and> image_parts (r @ ''/'' @ name @ '':'' @ tag) r
        = (if is_docker_hub r \<and> CHR ''/'' \<notin> set name then ''library/'' @ name else name, tag)
    \<and> image_parts (r @ ''/'' @ name) r
        = (if is_docker_hub r \<and> CHR ''/'' \<notin> set name then ''library/'' @ name else name, ''latest'')
    \<and> image_parts (r @ ''/'' @ name @ ''@sha256:'' @ hex) r
        = (if is_docker_hub r \<and> CHR ''/'' \<notin> set name then ''library/'' @ name @ ''@sha256''
           else name @ ''@sha256'', hex)"
proof (intro conjI)
  have cut: "image_parts (r @ ''/'' @ rest) r =
      (let (segment, tag) = (case split_once (CHR '':'') rest of None \<Rightarrow> (rest, None) | Some (a, b) \<Rightarrow> (a, Some b))
       in (if CHR ''/'' \<in> set segment then segment
           else if is_docker_hub r then ''library/'' @ segment else segment,
           case tag of None \<Rightarrow> ''latest'' | Some t \<Rightarrow> t))" for rest
    unfolding image_parts_def registry_split(1) [OF assms(2)] using assms(1)
    by (simp add: Let_def split: option.split)
  show "registry_for (r @ ''/'' @ rest) ex = r"
    unfolding registry_for_def registry_split(1) [OF assms(2)] using assms(1) by simp
  have tagged: "split_once (CHR '':'') (name @ '':'' @ tag) = Some (name, tag)" for tag
    using assms(3) by simp
  show "image_parts (r @ ''/'' @ name @ '':'' @ tag) r
      = (if is_docker_hub r \<and> CHR ''/'' \<notin> set name then ''library/'' @ name else name, tag)"
    unfolding cut tagged by simp
  have "split_once (CHR '':'') name = None" using assms(3) by (simp add: split_once_None)
  then show "image_parts (r @ ''/'' @ name) r
      = (if is_docker_hub r \<and> CHR ''/'' \<notin> set name then ''library/'' @ name else name, ''latest'')"
    unfolding cut by simp
  have "split_once (CHR '':'') ((name @ ''@sha256'') @ '':'' @ hex) = Some (name @ ''@sha256'', hex)"
    using assms(3) split_once_append [of "CHR '':''" "name @ ''@sha256''" hex] by simp
  then have dig: "split_once (CHR '':'') (name @ ''@sha256:'' @ hex) = Some (name @ ''@sha256'', hex)"
    by simp
  show "image_parts (r @ ''/'' @ name @ ''@sha256:'' @ hex) r
      = (if is_docker_hub r \<and> CHR ''/'' \<notin> set name then ''library/'' @ name @ ''@sha256''
         else name @ ''@sha256'', hex)"
    unfolding cut dig by simp
qed

lemma image_reference_parts_witness:
  "registry_for (''ghcr.io'' @ ''/'' @ ''acme/tool:1.0'') (Some ''docker.io'') = ''ghcr.io''
    \<and> image_parts (''ghcr.io'' @ ''/'' @ ''acme/tool'' @ '':'' @ ''1.0'') ''ghcr.io'' = (''acme/tool'', ''1.0'')
    \<and> image_parts (''docker.io'' @ ''/'' @ ''alpine'' @ ''@sha256:'' @ ''ab'') ''docker.io''
        = (''library/alpine@sha256'', ''ab'')"
  using image_reference_parts [of "''ghcr.io''" "''acme/tool''" "''acme/tool:1.0''" "Some ''docker.io''" "''1.0''"]
    image_reference_parts [of "''docker.io''" "''alpine''" "[]" None "[]" "''ab''"]
  by (simp add: names_registry_def is_docker_hub_def)

end
