(* ===== verification/Block_Sync.thy ===== *)
theory Block_Sync
  imports Peer_Directory Oci_Puller Gc
begin

text \<open>
  Blocks between nodes: the service side (\<^verbatim>\<open>pullrun-sync/src/block_sync.rs\<close>),
  which advertises a Bloom filter of the stored blobs, serves them in chunks and
  accepts pushed ones, and the puller (\<^verbatim>\<open>sync_puller.rs\<close>), which looks
  for a blob in the local store, then at the peers, then at the registry.  The
  network between two nodes is the function that gives the stream of a peer.
\<close>

section \<open>Service\<close>

record block_sync =
  bs_store :: mmap_store
  bs_filter :: bloom_filter
  bs_blob_count :: nat
  bytes_sent :: u64
  bytes_received :: u64
  blob_requests :: u64

definition CHUNK_SIZE :: nat where "CHUNK_SIZE = 1024 * 1024"

definition block_sync_new :: "u64 \<Rightarrow> u32 \<Rightarrow> mmap_store \<Rightarrow> block_sync" where
  "block_sync_new raw_m raw_k st =
    \<lparr>bs_store = st, bs_filter = bloom_optimal raw_m raw_k, bs_blob_count = 0,
     bytes_sent = 0, bytes_received = 0, blob_requests = 0\<rparr>"

fun blob_of_rev_path :: "string list \<Rightarrow> string option" where
  "blob_of_rev_path (file # rest # b # a # up) =
    (if file = ''blob.raw'' \<and> list_all is_ascii_hexdigit a \<and> list_all is_ascii_hexdigit b
        \<and> list_all is_ascii_hexdigit rest
     then Some (a @ b @ rest) else None)"
| "blob_of_rev_path _ = None"

definition walk_store_for_blobs :: "string list list \<Rightarrow> string list" where
  "walk_store_for_blobs paths = List.map_filter (\<lambda>p. blob_of_rev_path (rev p)) paths"

definition collect_blob_digests :: "ext \<Rightarrow> mmap_store \<Rightarrow> string list" where
  "collect_blob_digests E st = dedup (sort_strings (walk_store_for_blobs (store_paths E st)))"

fun insert_all :: "ext \<Rightarrow> bloom_filter \<Rightarrow> string list \<Rightarrow> bloom_filter option" where
  "insert_all E f [] = Some f"
| "insert_all E f (d # ds) =
    (case bloom_insert E f d of None \<Rightarrow> None | Some f' \<Rightarrow> insert_all E f' ds)"

definition rebuild_bloom_filter :: "ext \<Rightarrow> u64 \<Rightarrow> u32 \<Rightarrow> block_sync \<Rightarrow> block_sync option" where
  "rebuild_bloom_filter E raw_m raw_k s =
    (let digests = collect_blob_digests E (bs_store s)
     in map_option (\<lambda>bf. s\<lparr>bs_filter := bf, bs_blob_count := length digests\<rparr>)
          (insert_all E (bloom_optimal raw_m raw_k) digests))"

definition bloom_filter_bytes :: "block_sync \<Rightarrow> bytes \<times> u32 \<times> u64" where
  "bloom_filter_bytes s = (to_bytes (bs_filter s), bloom_k (bs_filter s), bloom_m (bs_filter s))"

definition insert_bloom_digest :: "ext \<Rightarrow> string \<Rightarrow> block_sync \<Rightarrow> block_sync option" where
  "insert_bloom_digest E d s =
    map_option (\<lambda>bf. s\<lparr>bs_filter := bf, bs_blob_count := bs_blob_count s + 1\<rparr>)
      (bloom_insert E (bs_filter s) d)"

definition have_blobs :: "block_sync \<Rightarrow> have_blobs_response" where
  "have_blobs s =
    \<lparr>resp_bloom_filter = to_bytes (bs_filter s), resp_bloom_k = bloom_k (bs_filter s),
     resp_bloom_m = ucast (bloom_m (bs_filter s))\<rparr>"

record blob_chunk =
  chunk_digest :: string
  chunk_data :: bytes
  chunk_offset :: u32
  is_final :: bool

lemma chunk_size_pos: "0 < CHUNK_SIZE"
  by (simp add: CHUNK_SIZE_def)

function chunks_from :: "string \<Rightarrow> bytes \<Rightarrow> nat \<Rightarrow> blob_chunk list" where
  "chunks_from ds data offset =
    (if offset < length data then
       (let fin = min (offset + CHUNK_SIZE) (length data)
        in \<lparr>chunk_digest = ds, chunk_data = take (fin - offset) (drop offset data),
            chunk_offset = word_of_nat offset, is_final = (fin \<ge> length data)\<rparr>
           # chunks_from ds data fin)
     else [])"
  by pat_completeness auto
termination
  by (relation "measure (\<lambda>(ds, data, offset). length data - offset)") (use chunk_size_pos in auto)

declare chunks_from.simps [simp del]

definition serve_blob :: "ext \<Rightarrow> string \<Rightarrow> block_sync \<Rightarrow> blob_chunk list \<times> block_sync" where
  "serve_blob E ds s =
    (case from_hex E ds of
       Inl _ \<Rightarrow> ([], s)
     | Inr d \<Rightarrow>
         (case get_blob (bs_store s) d of
            (Inr data, st) \<Rightarrow>
              (chunks_from ds data 0,
               s\<lparr>bs_store := st,
                 bytes_sent := bytes_sent s
                   + sum_list (map (\<lambda>c. word_of_nat (length (chunk_data c))) (chunks_from ds data 0))\<rparr>)
          | (Inl _, st) \<Rightarrow>
              ([\<lparr>chunk_digest = ds, chunk_data = [], chunk_offset = 0, is_final = True\<rparr>],
               s\<lparr>bs_store := st\<rparr>)))"

fun serve_blobs :: "ext \<Rightarrow> string list \<Rightarrow> block_sync \<Rightarrow> blob_chunk list \<times> block_sync" where
  "serve_blobs E [] s = ([], s)"
| "serve_blobs E (ds # rest) s =
    (let (cs, s1) = serve_blob E ds s; (more, s2) = serve_blobs E rest s1 in (cs @ more, s2))"

definition get_blobs :: "ext \<Rightarrow> string list \<Rightarrow> block_sync \<Rightarrow> blob_chunk list \<times> block_sync" where
  "get_blobs E digests s = serve_blobs E digests (s\<lparr>blob_requests := blob_requests s + 1\<rparr>)"

definition accept_blob :: "ext \<Rightarrow> string \<times> bytes \<Rightarrow> block_sync \<Rightarrow> block_sync" where
  "accept_blob E msg s =
    (case msg of (ds, data) \<Rightarrow>
       if data = [] then s
       else (case from_hex E ds of
               Inl _ \<Rightarrow> s
             | Inr d \<Rightarrow>
                 if compute E data \<noteq> d then s
                 else s\<lparr>bytes_received := bytes_received s + word_of_nat (length data),
                        bs_store := snd (put_blob_blocking (bs_store s) d data)\<rparr>))"

definition sync_blobs :: "ext \<Rightarrow> (string \<times> bytes) list \<Rightarrow> block_sync \<Rightarrow> block_sync" where
  "sync_blobs E msgs s = fold (accept_blob E) msgs s"

section \<open>Puller\<close>

fun collect_chunks :: "bytes \<Rightarrow> (string + blob_chunk) list \<Rightarrow> bytes option" where
  "collect_chunks acc [] = Some acc"
| "collect_chunks acc (Inl e # stream) = None"
| "collect_chunks acc (Inr c # stream) =
    (if is_final c then Some (acc @ chunk_data c) else collect_chunks (acc @ chunk_data c) stream)"

text \<open>
  \<open>net\<close> gives the stream a peer answers a request for one digest with, \<open>None\<close> if
  it cannot be reached or refuses in time.
\<close>

type_synonym network = "string \<Rightarrow> string \<Rightarrow> (string + blob_chunk) list option"

definition try_fetch_from_peer :: "network \<Rightarrow> string \<Rightarrow> string \<Rightarrow> bytes option" where
  "try_fetch_from_peer net addr ds =
    (case net addr ds of
       None \<Rightarrow> None
     | Some stream \<Rightarrow>
         (case collect_chunks [] stream of
            None \<Rightarrow> None
          | Some collected \<Rightarrow> if collected \<noteq> [] then Some collected else None))"

fun fetch_from_peers ::
    "ext \<Rightarrow> network \<Rightarrow> digest \<Rightarrow> string \<Rightarrow> (string \<times> string) list \<Rightarrow> bytes option" where
  "fetch_from_peers E net d ds [] = None"
| "fetch_from_peers E net d ds ((node_id, addr) # candidates) =
    (case try_fetch_from_peer net addr ds of
       None \<Rightarrow> fetch_from_peers E net d ds candidates
     | Some data \<Rightarrow>
         if compute E data \<noteq> d then fetch_from_peers E net d ds candidates else Some data)"

text \<open>
  The three stages for one blob.  The outer \<open>None\<close> is the panic of a malformed
  cached filter.
\<close>

definition fetch_blob_with_sync ::
    "oci_env \<Rightarrow> ext \<Rightarrow> oci_puller \<Rightarrow> network \<Rightarrow> int \<Rightarrow> peer_bloom_cache \<Rightarrow> string \<Rightarrow> string \<Rightarrow> string \<Rightarrow>
     string option \<Rightarrow> mmap_store \<Rightarrow> ((oci_error + bytes) \<times> mmap_store) option" where
  "fetch_blob_with_sync N E p net now bc ds registry repository token st =
    (case from_hex E ds of
       Inl e \<Rightarrow> Some (Inl (Other (''invalid digest '' @ ds)), st)
     | Inr d \<Rightarrow>
         (let (found, st1) =
                (if exists_node st d
                 then (case get_blob st d of (Inr data, st') \<Rightarrow> (Some data, st') | (Inl _, st') \<Rightarrow> (None, st'))
                 else (None, st))
          in case found of
               Some data \<Rightarrow> Some (Inr data, st1)
             | None \<Rightarrow>
                 (case find_peers_with_blob E now ds bc of
                    None \<Rightarrow> None
                  | Some candidates \<Rightarrow>
                      (case fetch_from_peers E net d ds candidates of
                         Some data \<Rightarrow> Some (Inr data, snd (put_blob_blocking st1 d data))
                       | None \<Rightarrow>
                           (case fetch_blob_by_digest N E p registry repository ds token of
                              Inl e \<Rightarrow> Some (Inl e, st1)
                            | Inr data \<Rightarrow> Some (Inr data, snd (put_blob_blocking st1 d data)))))))"

fun sync_layers ::
    "oci_env \<Rightarrow> ext \<Rightarrow> oci_puller \<Rightarrow> network \<Rightarrow> int \<Rightarrow> peer_bloom_cache \<Rightarrow> string \<Rightarrow> string \<Rightarrow>
     string option \<Rightarrow> oci_descriptor list \<Rightarrow> mmap_store \<Rightarrow>
     ((oci_error + (digest \<times> bytes \<times> string) list) \<times> mmap_store) option" where
  "sync_layers N E p net now bc registry repository token [] st = Some (Inr [], st)"
| "sync_layers N E p net now bc registry repository token (layer # ls) st =
    (case fetch_blob_with_sync N E p net now bc (desc_digest layer) registry repository token st of
       None \<Rightarrow> None
     | Some (Inl e, st1) \<Rightarrow> Some (Inl e, st1)
     | Some (Inr blob, st1) \<Rightarrow>
         (case from_hex E (desc_digest layer) of
            Inl e \<Rightarrow> Some (Inl (Other ''invalid layer digest''), st1)
          | Inr d \<Rightarrow>
              (case sync_layers N E p net now bc registry repository token ls st1 of
                 Some (Inr rest, st2) \<Rightarrow> Some (Inr ((d, blob, media_type layer) # rest), st2)
               | other \<Rightarrow> other)))"

definition sync_pull ::
    "oci_env \<Rightarrow> ext \<Rightarrow> oci_puller \<Rightarrow> network \<Rightarrow> int \<Rightarrow> peer_bloom_cache option \<Rightarrow> string \<Rightarrow> string option \<Rightarrow>
     string option \<Rightarrow> mmap_store \<Rightarrow> ((oci_error + pulled_image) \<times> mmap_store) option" where
  "sync_pull N E p net now bloom_cache image_ref explicit_registry pf st =
    (case bloom_cache of
       None \<Rightarrow> map_option (\<lambda>r. (r, st)) (pull_with_platform N E p image_ref explicit_registry pf)
     | Some bc \<Rightarrow>
         (case resolve_image N E p image_ref explicit_registry pf of
            None \<Rightarrow> None
          | Some (Inl e) \<Rightarrow> Some (Inl e, st)
          | Some (Inr (m, c, cds, registry, repository, token)) \<Rightarrow>
              (case sync_layers N E p net now bc registry repository token (layers m) st of
                 None \<Rightarrow> None
               | Some (Inl e, st1) \<Rightarrow> Some (Inl e, st1)
               | Some (Inr blobs, st1) \<Rightarrow>
                   (case from_hex E cds of
                      Inl e \<Rightarrow> Some (Inl (Other ''invalid config digest''), st1)
                    | Inr cd \<Rightarrow>
                        Some (Inr \<lparr>manifest = m, image_config = c, config_digest = cd,
                                   layer_blobs = blobs\<rparr>, st1)))))"

section \<open>Chunks\<close>

lemma collect_chunks_from:
  "data \<noteq> [] \<Longrightarrow> offset < length data \<Longrightarrow>
     collect_chunks acc (map Inr (chunks_from ds data offset)) = Some (acc @ drop offset data)"
proof (induction ds data offset arbitrary: acc rule: chunks_from.induct)
  case (1 ds data offset)
  define fin where "fin = min (offset + CHUNK_SIZE) (length data)"
  define part where "part = take (fin - offset) (drop offset data)"
  have "offset \<le> fin" using 1(3) by (simp add: fin_def)
  then have "drop fin data = drop (fin - offset) (drop offset data)"
    unfolding drop_drop by (simp only: le_add_diff_inverse2)
  then have whole: "part @ drop fin data = drop offset data"
    by (simp only: part_def append_take_drop_id)
  have eq: "chunks_from ds data offset =
      \<lparr>chunk_digest = ds, chunk_data = part, chunk_offset = word_of_nat offset, is_final = (fin \<ge> length data)\<rparr>
      # chunks_from ds data fin"
    unfolding fin_def part_def using 1(3) by (subst chunks_from.simps) (simp only: Let_def if_True)
  show ?case
  proof (cases "fin \<ge> length data")
    case True
    then have "drop fin data = []" by simp
    then show ?thesis using whole True unfolding eq by simp
  next
    case False
    then have "collect_chunks (acc @ part) (map Inr (chunks_from ds data fin)) = Some ((acc @ part) @ drop fin data)"
      using 1(1) [OF 1(3) fin_def 1(2)] by simp
    then show ?thesis using whole False unfolding eq by simp
  qed
qed

lemma chunks_bounded: "c \<in> set (chunks_from ds data offset) \<Longrightarrow>
   0 < length (chunk_data c) \<and> length (chunk_data c) \<le> CHUNK_SIZE \<and> chunk_digest c = ds"
proof (induction ds data offset rule: chunks_from.induct)
  case (1 ds data offset)
  show ?case
  proof (cases "offset < length data")
    case True
    let ?fin = "min (offset + CHUNK_SIZE) (length data)"
    have "c = \<lparr>chunk_digest = ds, chunk_data = take (?fin - offset) (drop offset data),
          chunk_offset = word_of_nat offset, is_final = (?fin \<ge> length data)\<rparr>
        \<or> c \<in> set (chunks_from ds data ?fin)"
      using 1(2) True by (simp only: chunks_from.simps [of ds data offset] Let_def if_True list.set insert_iff)
    then show ?thesis
    proof
      assume "c \<in> set (chunks_from ds data ?fin)"
      then show ?thesis using 1(1) [OF True refl] by blast
    qed (use True chunk_size_pos in auto)
  next
    case False
    then show ?thesis using 1(2) by (simp only: chunks_from.simps [of ds data offset] if_False list.set empty_iff)
  qed
qed

lemma chunks_empty [simp]: "chunks_from ds [] offset = []"
  by (simp add: chunks_from.simps)

text \<open>
  C35: a blob crosses the wire intact.  Asking a serving node for a digest and
  collecting the chunks gives exactly the blob the node stores under it, in chunks
  of at most 1 MiB; a missing blob, and an empty one, for which no chunk is sent,
  give nothing.
\<close>

theorem peer_transfer:
  assumes "blob_coherent (bs_store srv)" "from_hex E ds = Inr d"
  shows "try_fetch_from_peer (\<lambda>addr x. Some (map Inr (fst (get_blobs E [x] srv)))) a ds
      = (case map_of (blob_files (bs_store srv)) d of
           None \<Rightarrow> None | Some b \<Rightarrow> if b = [] then None else Some b)
    \<and> (\<forall>c \<in> set (fst (get_blobs E [ds] srv)). length (chunk_data c) \<le> CHUNK_SIZE)"
proof (cases "map_of (blob_files (bs_store srv)) d")
  case None
  then have "fst (get_blob (bs_store srv) d) = Inl (NotFound d)"
    using blob_read.rd_result [OF assms(1), of d] by simp
  then obtain st where "get_blob (bs_store srv) d = (Inl (NotFound d), st)" by (metis prod.collapse)
  then show ?thesis using None assms(2)
    by (simp add: try_fetch_from_peer_def get_blobs_def serve_blob_def Let_def CHUNK_SIZE_def)
next
  case (Some b)
  then have "fst (get_blob (bs_store srv) d) = Inr b"
    using blob_read.rd_result [OF assms(1), of d] by simp
  then obtain st where "get_blob (bs_store srv) d = (Inr b, st)" by (metis prod.collapse)
  then have stream: "fst (get_blobs E [ds] srv) = chunks_from ds b 0"
    using assms(2) by (simp add: get_blobs_def serve_blob_def Let_def)
  show ?thesis
  proof (cases "b = []")
    case True
    then show ?thesis using Some stream by (simp add: try_fetch_from_peer_def)
  next
    case False
    then show ?thesis
      using Some stream collect_chunks_from [of b 0 "[]" ds] chunks_bounded
      by (auto simp: try_fetch_from_peer_def)
  qed
qed

definition served :: block_sync where
  "served = (block_sync_new 64 2 (snd (put_blob (new_store []) (compute ref_ext [7]) [7])))"

lemma served_ok: "blob_coherent (bs_store served)"
    "from_hex ref_ext (as_hex ref_ext (compute ref_ext [7])) = Inr (compute ref_ext [7])"
    "map_of (blob_files (bs_store served)) (compute ref_ext [7]) = Some [7]"
proof -
  show "blob_coherent (bs_store served)"
    by (simp add: served_def block_sync_new_def put_blob_def blob_exists_def new_store_def
        blob_coherent_def empty_cache_inv) (simp add: empty_cache_def)
  show "from_hex ref_ext (as_hex ref_ext (compute ref_ext [7])) = Inr (compute ref_ext [7])"
    using from_hex_as_hex [OF ref_hex_ok compute_wf [OF ref_sha_ok]] .
  show "map_of (blob_files (bs_store served)) (compute ref_ext [7]) = Some [7]"
    by (simp add: served_def block_sync_new_def put_blob_def blob_exists_def new_store_def)
qed

theorem peer_transfer_witness:
  "try_fetch_from_peer (\<lambda>addr x. Some (map Inr (fst (get_blobs ref_ext [x] served)))) ''n1''
     (as_hex ref_ext (compute ref_ext [7])) = Some [7]"
  using peer_transfer [OF served_ok(1,2), of "''n1''"] by (simp add: served_ok(3))

section \<open>Content addressing survives the network\<close>

definition content_ok :: "ext \<Rightarrow> mmap_store \<Rightarrow> bool" where
  "content_ok E st \<longleftrightarrow> blob_coherent st \<and> (\<forall>d b. map_of (blob_files st) d = Some b \<longrightarrow> compute E b = d)"

lemma put_blob_content [inv_intros]:
  "content_ok E st \<Longrightarrow> compute E data = d \<Longrightarrow> content_ok E (snd (put_blob_blocking st d data))"
  by (auto simp: content_ok_def put_blob_blocking_def blob_coherent_def blob_exists_def map_le_def
      dom_def)

lemma get_blob_content [inv_intros]: "content_ok E st \<Longrightarrow> content_ok E (snd (get_blob st d))"
  using blob_read.keep [of st d] blob_read.frame [of st d] by (simp add: content_ok_def)

lemma get_blob_data: "content_ok E st \<Longrightarrow> fst (get_blob st d) = Inr data \<Longrightarrow> compute E data = d"
  using blob_read.rd_file [of st d data] by (simp add: content_ok_def)

lemma fetch_from_peers_verified:
  "fetch_from_peers E net d ds cs = Some data \<Longrightarrow> compute E data = d"
  by (induction E net d ds cs rule: fetch_from_peers.induct) (auto split: option.splits if_splits)

lemma fetch_with_sync_verified:
  assumes "hex_ok E" "hex_strict E" "content_ok E st"
    and "fetch_blob_with_sync N E p net now bc ds registry repository token st = Some (r, st')"
  shows "content_ok E st' \<and> (\<forall>data. r = Inr data \<longrightarrow> (\<exists>d. from_hex E ds = Inr d \<and> compute E data = d))"
proof (cases "from_hex E ds")
  case (Inl e)
  then show ?thesis using assms(3,4) by (auto simp: fetch_blob_with_sync_def)
next
  case (Inr d)
  define loc where "loc =
    (if exists_node st d
     then (case get_blob st d of (Inr data, st') \<Rightarrow> (Some data, st') | (Inl _, st') \<Rightarrow> (None, st'))
     else (None, st))"
  obtain found st1 where loc: "loc = (found, st1)" by force
  have st1: "content_ok E st1" and found: "found = Some data \<Longrightarrow> compute E data = d" for data
    using loc get_blob_content [OF assms(3), of d] get_blob_data [OF assms(3), of d] assms(3)
    by (auto simp: loc_def split: if_splits prod.splits sum.splits)
  show ?thesis
  proof (cases found)
    case (Some data)
    then show ?thesis
      using assms(4) Inr st1 found loc by (auto simp: fetch_blob_with_sync_def simp flip: loc_def)
  next
    case None
    then obtain cs where cs: "find_peers_with_blob E now ds bc = Some cs"
      and rest: "(case fetch_from_peers E net d ds cs of
           Some data \<Rightarrow> Some (Inr data, snd (put_blob_blocking st1 d data))
         | None \<Rightarrow>
             (case fetch_blob_by_digest N E p registry repository ds token of
                Inl e \<Rightarrow> Some (Inl e, st1)
              | Inr data \<Rightarrow> Some (Inr data, snd (put_blob_blocking st1 d data)))) = Some (r, st')"
      using assms(4) Inr loc by (auto simp: fetch_blob_with_sync_def simp flip: loc_def split: option.splits)
    have reg: "compute E data = d" if "fetch_blob_by_digest N E p registry repository ds token = Inr data" for data
      using verified_digest [OF assms(1,2) _ Inr] fetch_blob_verified that
      by (metis fetch_blob_by_digest_def)
    show ?thesis
      using rest reg fetch_from_peers_verified [of E net d ds cs] put_blob_content [OF st1] st1 Inr
      by (auto split: option.splits sum.splits)
  qed
qed

lemma sync_layers_verified:
  assumes "hex_ok E" "hex_strict E" "content_ok E st"
    and "sync_layers N E p net now bc registry repository token ls st = Some (r, st')"
  shows "content_ok E st' \<and> (\<forall>blobs. r = Inr blobs \<longrightarrow> list_all2 (layer_verified E) ls blobs)"
  using assms(3,4)
proof (induction ls arbitrary: st r st')
  case (Cons l ls)
  obtain r1 st1 where first:
      "fetch_blob_with_sync N E p net now bc (desc_digest l) registry repository token st = Some (r1, st1)"
    using Cons.prems(2) by (auto split: option.splits)
  note ok = fetch_with_sync_verified [OF assms(1,2) Cons.prems(1) first]
  show ?case
  proof (cases r1)
    case (Inl e)
    then show ?thesis using Cons.prems(2) first ok by auto
  next
    case (Inr blob)
    then obtain d where d: "from_hex E (desc_digest l) = Inr d" "compute E blob = d" using ok by blast
    obtain r2 st2 where rest: "sync_layers N E p net now bc registry repository token ls st1 = Some (r2, st2)"
      using Cons.prems(2) first Inr d by (auto split: option.splits)
    note tail = Cons.IH [OF conjunct1 [OF ok] rest]
    show ?thesis
      using Cons.prems(2) first Inr d rest tail
      by (cases r2) (auto simp: layer_verified_def)
  qed
qed auto


definition sample_layers :: "((oci_error + (digest \<times> bytes \<times> string) list) \<times> mmap_store) option" where
  "sample_layers = sync_layers sample_env ref_ext (puller_new None) (\<lambda>_ _. None) 0 []
     ''registry-1.docker.io'' ''library/app'' None (layers sample_manifest) (new_unbounded [])"

lemma sample_sync_pull:
  obtains img st where "sync_pull sample_env ref_ext (puller_new None) (\<lambda>_ _. None) 0 (Some []) ''app'' None None
      (new_unbounded []) = Some (Inr img, st)"
proof -
  have "fetch_manifest_step sample_env ref_ext (puller_new None) ''registry-1.docker.io'' ''library/app''
      None None ''latest'' = Inr (Inr sample_manifest)"
    by code_simp
  then have "fetch_manifest_with_platform sample_env ref_ext (puller_new None) ''registry-1.docker.io''
      ''library/app'' None None ''latest'' = Some (Inr sample_manifest)"
    by (simp add: fetch_manifest_with_platform.simps)
  moreover have "registry_for ''app'' None = ''registry-1.docker.io''"
    "image_parts ''app'' ''registry-1.docker.io'' = (''library/app'', ''latest'')"
    "get_token sample_env (puller_new None) ''registry-1.docker.io'' ''library/app'' = Inr None"
    "fetch_config sample_env ref_ext (puller_new None) ''registry-1.docker.io'' ''library/app''
       (desc_digest (config sample_manifest)) None = Inr sample_config"
    by code_simp+
  ultimately have res: "resolve_image sample_env ref_ext (puller_new None) ''app'' None None
      = Some (Inr (sample_manifest, sample_config, desc_digest (config sample_manifest),
          ''registry-1.docker.io'', ''library/app'', None))"
    by (simp add: resolve_image_def)
  have "sample_layers \<noteq> None" "\<not> isl (fst (the sample_layers))"
    "\<not> isl (from_hex ref_ext (desc_digest (config sample_manifest)))"
    by code_simp+
  then obtain blobs st cd where "sample_layers = Some (Inr blobs, st)"
      "from_hex ref_ext (desc_digest (config sample_manifest)) = Inr cd"
    by (metis option.exhaust_sel prod.collapse sum.collapse(2))
  then show ?thesis
    using res that by (simp add: sync_pull_def sample_layers_def)
qed


text \<open>
  The local check asks for a node file, while a synchronized blob is stored without
  one: a blob that is already here is fetched again, and a fetch fails although the
  blob is in the store.
\<close>

lemma stored_blob_not_used:
  assumes "from_hex E ds = Inr d" "\<not> exists_node st d" "find_peers_with_blob E now ds bc = Some []"
    and "fetch_blob_by_digest N E p registry repository ds token = Inl e"
  shows "fetch_blob_with_sync N E p net now bc ds registry repository token st = Some (Inl e, st)"
  using assms by (simp add: fetch_blob_with_sync_def)

section \<open>From a peer's store to a lookup\<close>

lemma lower_hex_digit: "c \<in> lower_hex \<Longrightarrow> is_ascii_hexdigit c"
  by (auto simp: lower_hex_def is_ascii_hexdigit_def is_ascii_digit_def code_def)

lemma shard_hexdigits:
  assumes "hex_ok E" "p \<in> set (shard E d)"
  shows "list_all is_ascii_hexdigit p"
  using shard_hex [OF assms(2)] hex_alphabet [OF assms(1)] lower_hex_digit
  by (auto simp: list_all_iff as_hex_def)

lemma collect_blob_digests_set:
  assumes "hex_ok E"
  shows "set (collect_blob_digests E st) = as_hex E ` fst ` set (blob_files st)"
proof -
  let ?f = "\<lambda>p. blob_of_rev_path (rev p)"
  have blob: "?f (path_for_blob E st d) = Some (as_hex E d)" for d
  proof -
    obtain a b c where shard: "shard E d = [a, b, c]" unfolding shard_def Let_def by blast
    then have "a @ b @ c = as_hex E d" using shard_concat [of E d] by simp
    moreover have "list_all is_ascii_hexdigit a \<and> list_all is_ascii_hexdigit b \<and> list_all is_ascii_hexdigit c"
      using shard_hexdigits [OF assms, of _ d] shard by simp
    ultimately show ?thesis by (simp add: path_for_blob_def shard)
  qed
  have other: "?f (path_for E st d) = None" "?f (refcount_path E st d) = None" for d
  proof -
    obtain a b c where shard: "shard E d = [a, b, c]" unfolding shard_def Let_def by blast
    show "?f (path_for E st d) = None" "?f (refcount_path E st d) = None"
      by (simp_all add: path_for_def refcount_path_def shard)
  qed
  have "List.map_filter ?f (map (path_for_blob E st \<circ> fst) xs) = map (as_hex E \<circ> fst) xs"
    "List.map_filter ?f (map (path_for E st \<circ> fst) xs) = []"
    "List.map_filter ?f (map (refcount_path E st \<circ> fst) xs) = []" for xs :: "(digest \<times> bytes) list"
    by (induction xs) (simp_all add: blob other)
  then show ?thesis
    by (simp add: collect_blob_digests_def walk_store_for_blobs_def store_paths_def map_filter_append
        image_image)
qed

lemma insert_all_built:
  assumes "bloom_built E m k S f" "m \<noteq> 0"
  shows "\<exists>g. insert_all E f ds = Some g \<and> bloom_built E m k (S \<union> set ds) g"
  using assms(1)
proof (induction ds arbitrary: S f)
  case (Cons d ds)
  obtain g where g: "bloom_insert E f d = Some g"
    using bloom.add_law [OF conjunct1 [OF bloom_built_represents [OF Cons.prems assms(2)]], of E d] by blast
  show ?case using Cons.IH [OF built_insert [OF Cons.prems g]] g by simp
qed simp

lemma rebuild_ok:
  assumes "hex_ok E"
  shows "\<exists>s'. rebuild_bloom_filter E raw_m raw_k s = Some s' \<and> bs_store s' = bs_store s
    \<and> bloom_built E (max raw_m 1) (max raw_k 1) (as_hex E ` fst ` set (blob_files (bs_store s))) (bs_filter s')"
proof -
  have m: "max raw_m 1 \<noteq> 0" by (metis max.cobounded2 word_le_0_iff zero_neq_one)
  show ?thesis
    using insert_all_built [OF built_new m, of E "max raw_k 1" "collect_blob_digests E (bs_store s)"]
    by (auto simp: rebuild_bloom_filter_def Let_def bloom_optimal_def collect_blob_digests_set [OF assms])
qed

text \<open>
  C36: what gossip makes a node believe.  If the service behind the gossip client
  has rebuilt its filter from its store and answers the exchanges of a round, then
  for the five minutes the cache lives, every peer selected in the round is listed
  as a holder of every blob in that one store, under its bare hexadecimal digest:
  the holder is never missed, and the other selected peers are credited with its
  blobs.  The lookup fails to return only if some cached filter makes it panic.
\<close>

theorem gossip_attribution:
  assumes "hex_ok E" "rebuild_bloom_filter E raw_m raw_k srv0 = Some srv" "blob_exists (bs_store srv) d"
    and "cache_named c" "distinct (map fst (pick (round_size peers) peers))" "peers \<noteq> []"
    and "peer \<in> set (pick (round_size peers) peers)"
    and "now \<le> t" "t - now \<le> CACHE_TTL"
  shows "case find_peers_with_blob E t (as_hex E d) (gossip_round now pick (\<lambda>_. Some (have_blobs srv)) peers c) of
      Some ps \<Rightarrow> peer \<in> set ps
    | None \<Rightarrow> \<exists>i \<in> snd ` set (gossip_round now pick (\<lambda>_. Some (have_blobs srv)) peers c).
        peer_match E t (as_hex E d) i = None"
proof -
  have m: "max raw_m 1 \<noteq> 0" by (metis max.cobounded2 word_le_0_iff zero_neq_one)
  have built: "bloom_built E (max raw_m 1) (max raw_k 1) (as_hex E ` fst ` set (blob_files (bs_store srv))) (bs_filter srv)"
    using rebuild_ok [OF assms(1), of raw_m raw_k srv0] assms(2) by auto
  have "as_hex E d \<in> as_hex E ` fst ` set (blob_files (bs_store srv))"
    using assms(3) map_of_some_key [of "blob_files (bs_store srv)" d] unfolding blob_exists_def by blast
  then show ?thesis
    using assms(4-9) by (intro gossip_round_finds [OF built m]) (simp_all add: have_blobs_def)
qed

theorem gossip_attribution_witness:
  "\<exists>srv. rebuild_bloom_filter ref_ext 64 2 served = Some srv
    \<and> (let c = gossip_round 0 take (\<lambda>_. Some (have_blobs srv)) [(''n1'', ''a1''), (''n2'', ''a2'')] []
       in case find_peers_with_blob ref_ext 5 (as_hex ref_ext (compute ref_ext [7])) c of
            Some ps \<Rightarrow> (''n2'', ''a2'') \<in> set ps
          | None \<Rightarrow> \<exists>i \<in> snd ` set c. peer_match ref_ext 5 (as_hex ref_ext (compute ref_ext [7])) i = None)"
proof -
  obtain srv where srv: "rebuild_bloom_filter ref_ext 64 2 served = Some srv" "bs_store srv = bs_store served"
    using rebuild_ok [OF ref_hex_ok, of 64 2 served] by blast
  have stored: "blob_exists (bs_store srv) (compute ref_ext [7])"
    using srv(2) served_ok(3) by (simp add: blob_exists_def)
  have "round_size [(''n1'', ''a1''), (''n2'', ''a2'')] = 2" by (simp add: round_size_def)
  then have "case find_peers_with_blob ref_ext 5 (as_hex ref_ext (compute ref_ext [7]))
       (gossip_round 0 take (\<lambda>_. Some (have_blobs srv)) [(''n1'', ''a1''), (''n2'', ''a2'')] []) of
      Some ps \<Rightarrow> (''n2'', ''a2'') \<in> set ps
    | None \<Rightarrow> \<exists>i \<in> snd ` set (gossip_round 0 take (\<lambda>_. Some (have_blobs srv))
        [(''n1'', ''a1''), (''n2'', ''a2'')] []).
        peer_match ref_ext 5 (as_hex ref_ext (compute ref_ext [7])) i = None"
    by (intro gossip_attribution [OF ref_hex_ok srv(1) stored])
      (simp_all add: cache_named_def CACHE_TTL_def secs_def)
  with srv(1) show ?thesis by (intro exI [of _ srv]) (simp add: Let_def)
qed

end
