(* ===== verification/Policy.thy ===== *)
theory Policy
  imports Store_Laws Rust_Text Bloom_Filter
begin

text \<open>
  The policy engine, \<^verbatim>\<open>pullrun-policy\<close>: signatures
  (\<^verbatim>\<open>cosign.rs\<close>), bills of materials (\<^verbatim>\<open>sbom.rs\<close>) and the decision
  (\<^verbatim>\<open>lib.rs\<close>).  The archives and \<^verbatim>\<open>ed25519_dalek\<close> are the fields of the
  parameter record \<open>policy_env\<close>.  Scores are 32-bit floats, of which the code
  uses only the order and the value 0: \<open>Num\<close> stands for the non-NaN values in
  their order, and every comparison with \<open>NaN\<close> is false.
\<close>

section \<open>Floats\<close>

datatype f32 = NaN | Num int

fun f32_gt :: "f32 \<Rightarrow> f32 \<Rightarrow> bool" where
  "f32_gt (Num a) (Num b) = (a > b)"
| "f32_gt _ _ = False"

fun f32_ge :: "f32 \<Rightarrow> f32 \<Rightarrow> bool" where
  "f32_ge (Num a) (Num b) = (a \<ge> b)"
| "f32_ge _ _ = False"

fun f32_max :: "f32 \<Rightarrow> f32 \<Rightarrow> f32" where
  "f32_max NaN b = b"
| "f32_max a NaN = a"
| "f32_max (Num a) (Num b) = Num (max a b)"

section \<open>Signatures\<close>

datatype cosign_error =
    Base64 string
  | CosignBadLength nat
  | Verify string
  | Key string

record signature_blob =
  sig_key_id :: string
  sig_payload :: string
  sig_signature :: bytes

record cosign_key =
  key_id :: string
  verifying_key :: bytes

record sbom_component =
  component_name :: string
  component_version :: string
  licenses :: "string list"

record vulnerability =
  vuln_id :: string
  vuln_component :: string
  cvss :: f32

record sbom_blob =
  sbom_format :: string
  blob_components :: "sbom_component list"
  blob_vulnerabilities :: "vulnerability list"

record policy_env =
  check_signature_archive :: "bytes \<Rightarrow> string + signature_blob"
  check_sbom_archive :: "bytes \<Rightarrow> string + sbom_blob"
  encode_sbom_archive :: "sbom_blob \<Rightarrow> string + bytes"
  base64_decode :: "string \<Rightarrow> string + bytes"
  key_from_bytes :: "bytes \<Rightarrow> string + bytes"
  ed25519_verify :: "bytes \<Rightarrow> bytes \<Rightarrow> bytes \<Rightarrow> string option"
  show_f32 :: "f32 \<Rightarrow> string"

definition key_from_base64 :: "policy_env \<Rightarrow> string \<Rightarrow> string \<Rightarrow> cosign_error + cosign_key" where
  "key_from_base64 C kid pk_b64 =
    (case base64_decode C (trim pk_b64) of
       Inl e \<Rightarrow> Inl (Base64 e)
     | Inr bs \<Rightarrow>
         if length bs \<noteq> 32 then Inl (CosignBadLength (length bs))
         else (case key_from_bytes C bs of
                 Inl e \<Rightarrow> Inl (Key e)
               | Inr vk \<Rightarrow> Inr \<lparr>key_id = kid, verifying_key = vk\<rparr>))"

definition verify_cosign_signature :: "policy_env \<Rightarrow> cosign_key \<Rightarrow> bytes \<Rightarrow> bytes \<Rightarrow> cosign_error + bool" where
  "verify_cosign_signature C key payload signature_bytes =
    (if length signature_bytes \<noteq> 64 then Inl (CosignBadLength (length signature_bytes))
     else (case ed25519_verify C (verifying_key key) payload signature_bytes of
             None \<Rightarrow> Inr True
           | Some msg \<Rightarrow>
               if contains_str msg ''signature'' \<or> contains_str msg ''verify'' \<or> contains_str msg ''Invalid''
               then Inr False else Inl (Verify msg)))"

definition nl :: string where "nl = [CHR 0x0A]"

definition signature_digest_for :: "ext \<Rightarrow> string \<Rightarrow> digest" where
  "signature_digest_for E image_ref =
    Digest (sha256 E (as_bytes (''pullrun.cosign.sig.v1'' @ nl) @ as_bytes image_ref @ as_bytes nl))"

definition canonical_payload :: "string \<Rightarrow> string \<Rightarrow> string" where
  "canonical_payload image_ref manifest_digest =
    ''pullrun-image-v1'' @ nl @ image_ref @ nl @ manifest_digest @ nl"

section \<open>Bills of materials\<close>

datatype policy_error =
    Violation string
  | MissingSignature
  | InvalidSignature string
  | SbomMissing string
  | InvalidSeccompProfile string
  | PolicyStore store_error

record sbom_data =
  components :: "sbom_component list"
  vulnerabilities :: "vulnerability list"
  all_licenses :: "string list"

datatype sbom_report = Missing | Found sbom_data

definition max_cvss :: "sbom_data \<Rightarrow> f32 option" where
  "max_cvss r =
    foldl (\<lambda>acc x. Some (case acc of None \<Rightarrow> x | Some y \<Rightarrow> if f32_gt x y then x else y)) None
      (map cvss (vulnerabilities r))"

definition sbom_digest_for :: "ext \<Rightarrow> string \<Rightarrow> digest" where
  "sbom_digest_for E manifest_digest =
    Digest (sha256 E (as_bytes (''pullrun.sbom.v1'' @ nl) @ as_bytes manifest_digest))"

definition evaluate_sbom ::
    "policy_env \<Rightarrow> ext \<Rightarrow> mmap_store \<Rightarrow> string \<Rightarrow> (policy_error + sbom_report) \<times> mmap_store" where
  "evaluate_sbom C E s manifest_digest =
    (case get_blob s (sbom_digest_for E manifest_digest) of
       (Inl e, s') \<Rightarrow>
         (case e of NotFound _ \<Rightarrow> (Inr Missing, s') | _ \<Rightarrow> (Inl (PolicyStore e), s'))
     | (Inr mmap, s') \<Rightarrow>
         (case check_sbom_archive C mmap of
            Inl e \<Rightarrow> (Inl (SbomMissing e), s')
          | Inr blob \<Rightarrow>
              (Inr (Found \<lparr>components = blob_components blob,
                           vulnerabilities = blob_vulnerabilities blob,
                           all_licenses = dedup (sort_strings (concat (map licenses (blob_components blob))))\<rparr>),
               s')))"

record cdx_component =
  cdx_name :: string
  cdx_version :: string
  cdx_licenses :: "(string \<times> string) list"

record cdx_vulnerability =
  cdx_id :: string
  cdx_ratings :: "f32 option list"
  cdx_affects :: "string list"

text \<open>The import of a decoded CycloneDX document; a license is its id and its name.\<close>

definition from_cyclonedx :: "cdx_component list \<Rightarrow> cdx_vulnerability list \<Rightarrow> sbom_blob" where
  "from_cyclonedx cs vs =
    \<lparr>sbom_format = ''cyclonedx-1.5'',
     blob_components =
       map (\<lambda>c. \<lparr>component_name = cdx_name c, component_version = cdx_version c,
                 licenses = filter (\<lambda>l. l \<noteq> [])
                   (map (\<lambda>(lid, name). if lid = [] then name else lid) (cdx_licenses c))\<rparr>) cs,
     blob_vulnerabilities =
       map (\<lambda>v. \<lparr>vuln_id = cdx_id v,
                 vuln_component = (case cdx_affects v of [] \<Rightarrow> [] | a # _ \<Rightarrow> a),
                 cvss = foldl f32_max (Num 0) (List.map_filter (\<lambda>r. r) (cdx_ratings v))\<rparr>) vs\<rparr>"

section \<open>Decision\<close>

record policy =
  required_signature :: bool
  readonly_rootfs :: bool
  no_new_privileges :: bool
  seccomp_profile :: "string option"
  allowed_syscalls :: "string list"
  policy_labels :: "(string \<times> string) list"
  max_cvss_score :: "f32 option"
  trusted_signers :: "string list"
  deny_licenses :: "string list"
  require_sbom :: bool

datatype policy_decision = Allow | Deny string

record policy_engine =
  default_policy :: policy
  trusted_keys :: "cosign_key list"

definition engine_new :: "policy \<Rightarrow> policy_engine" where
  "engine_new p = \<lparr>default_policy = p, trusted_keys = []\<rparr>"

definition with_trusted_keys :: "cosign_key list \<Rightarrow> policy_engine \<Rightarrow> policy_engine" where
  "with_trusted_keys ks e = e\<lparr>trusted_keys := ks\<rparr>"

definition add_trusted_key :: "cosign_key \<Rightarrow> policy_engine \<Rightarrow> policy_engine" where
  "add_trusted_key k e = e\<lparr>trusted_keys := trusted_keys e @ [k]\<rparr>"

datatype signature_check = SigValid | SigMissing | SigInvalid string

fun try_keys :: "policy_env \<Rightarrow> string \<Rightarrow> bytes \<Rightarrow> bytes \<Rightarrow> cosign_key list \<Rightarrow> signature_check" where
  "try_keys C kid payload signature [] = SigInvalid ''no trusted key matched the signature key_id''"
| "try_keys C kid payload signature (key # keys) =
    (if key_id key \<noteq> kid then try_keys C kid payload signature keys
     else (case verify_cosign_signature C key payload signature of
             Inr ok \<Rightarrow> if ok then SigValid else try_keys C kid payload signature keys
           | Inl e \<Rightarrow> SigInvalid ''verification error''))"

definition line_of :: "string \<Rightarrow> nat \<Rightarrow> string" where
  "line_of payload i =
    (let ls = split_on (CHR 0x0A) payload in if i < length ls then ls ! i else [])"

definition check_signature ::
    "policy_env \<Rightarrow> ext \<Rightarrow> policy_engine \<Rightarrow> mmap_store \<Rightarrow> string \<Rightarrow> string \<Rightarrow>
     (policy_error + signature_check) \<times> mmap_store" where
  "check_signature C E eng s image_ref manifest_digest =
    (case get_blob s (signature_digest_for E image_ref) of
       (Inl e, s') \<Rightarrow>
         (case e of NotFound _ \<Rightarrow> (Inr SigMissing, s') | _ \<Rightarrow> (Inl (PolicyStore e), s'))
     | (Inr sig_mmap, s') \<Rightarrow>
         (case check_signature_archive C sig_mmap of
            Inl e \<Rightarrow> (Inl (InvalidSignature (''corrupt signature blob: '' @ e)), s')
          | Inr blob \<Rightarrow>
              (let payload = sig_payload blob;
                   signed_ref = line_of payload 1
               in if line_of payload 0 \<noteq> ''pullrun-image-v1''
                  then (Inr (SigInvalid ''signature payload has unknown format''), s')
                  else if signed_ref \<noteq> image_ref
                  then (Inr (SigInvalid (''signature payload references '' @ signed_ref @ '', not '' @ image_ref)), s')
                  else if line_of payload 2 \<noteq> manifest_digest
                  then (Inr (SigInvalid ''signature payload manifest digest does not match the image being run''), s')
                  else (Inr (try_keys C (sig_key_id blob) (as_bytes payload) (sig_signature blob)
                               (trusted_keys eng)), s'))))"

definition sbom_denies :: "policy_env \<Rightarrow> policy \<Rightarrow> string \<Rightarrow> sbom_report \<Rightarrow> string option" where
  "sbom_denies C p image_ref report =
    (case report of
       Missing \<Rightarrow> if require_sbom p then Some (''no SBOM found for '' @ image_ref) else None
     | Found r \<Rightarrow>
         (let too_high = (case max_cvss_score p of
                            None \<Rightarrow> None
                          | Some m \<Rightarrow>
                              (case max_cvss r of
                                 None \<Rightarrow> None
                               | Some highest \<Rightarrow>
                                   if f32_ge highest m
                                   then Some (''image '' @ image_ref @ '' has vulnerability with CVSS ''
                                          @ show_f32 C highest @ '' (policy max '' @ show_f32 C m @ '')'')
                                   else None))
          in case too_high of
               Some msg \<Rightarrow> Some msg
             | None \<Rightarrow>
                 (case List.find (\<lambda>banned. list_ex (\<lambda>l. eq_ignore_ascii_case l banned) (all_licenses r))
                         (deny_licenses p) of
                    None \<Rightarrow> None
                  | Some banned \<Rightarrow>
                      Some (''image '' @ image_ref @ '' contains banned license: '' @ banned))))"

definition seccomp_denies :: "policy \<Rightarrow> string option" where
  "seccomp_denies p =
    (case seccomp_profile p of
       None \<Rightarrow> None
     | Some profile \<Rightarrow>
         if profile \<noteq> ''default'' \<and> profile \<noteq> ''unconfined'' \<and> \<not> starts_with profile ''pullrun:''
         then Some (''unknown seccomp profile: '' @ profile) else None)"

definition needs_sbom :: "policy \<Rightarrow> bool" where
  "needs_sbom p \<longleftrightarrow> require_sbom p \<or> max_cvss_score p \<noteq> None \<or> deny_licenses p \<noteq> []"

definition sbom_phase ::
    "policy_env \<Rightarrow> ext \<Rightarrow> policy \<Rightarrow> mmap_store \<Rightarrow> string \<Rightarrow> string \<Rightarrow> (policy_error + policy_decision) \<times> mmap_store" where
  "sbom_phase C E p s image_ref manifest_digest =
    (let (report, s') = (if needs_sbom p then evaluate_sbom C E s manifest_digest else (Inr Missing, s))
     in case report of
          Inl e \<Rightarrow> (Inl e, s')
        | Inr rep \<Rightarrow>
            (case (if needs_sbom p then sbom_denies C p image_ref rep else None) of
               Some msg \<Rightarrow> (Inr (Deny msg), s')
             | None \<Rightarrow>
                 (case seccomp_denies p of
                    Some msg \<Rightarrow> (Inr (Deny msg), s')
                  | None \<Rightarrow> (Inr Allow, s'))))"

definition evaluate_for_image ::
    "policy_env \<Rightarrow> ext \<Rightarrow> policy_engine \<Rightarrow> policy \<Rightarrow> mmap_store \<Rightarrow> string \<Rightarrow> string \<Rightarrow>
     (policy_error + policy_decision) \<times> mmap_store" where
  "evaluate_for_image C E eng p s image_ref manifest_digest =
    (if required_signature p then
       (case check_signature C E eng s image_ref manifest_digest of
          (Inl e, s') \<Rightarrow> (Inl e, s')
        | (Inr check, s') \<Rightarrow>
            (case check of
               SigValid \<Rightarrow> sbom_phase C E p s' image_ref manifest_digest
             | SigMissing \<Rightarrow>
                 (Inr (Deny (''image '' @ image_ref @ '' is not signed by a trusted key'')), s')
             | SigInvalid reason \<Rightarrow>
                 (Inr (Deny (''signature for '' @ image_ref @ '' is invalid: '' @ reason)), s')))
     else sbom_phase C E p s image_ref manifest_digest)"

definition evaluate :: "policy_engine \<Rightarrow> policy \<Rightarrow> policy_decision" where
  "evaluate eng p =
    (if required_signature p \<and> trusted_keys eng = []
     then Deny ''signature required but no trusted keys configured''
     else Allow)"

section \<open>What the engine accepts\<close>

text \<open>
  The conditions under which an image passes, over the blob files of the store:
  the payload of the signature names this reference and this manifest, and a
  trusted key with the id of the signature verifies it before any other matching
  key fails with an error; the bill of materials shows no score at or above the
  limit and no banned license.
\<close>

definition payload_binds :: "string \<Rightarrow> string \<Rightarrow> string \<Rightarrow> bool" where
  "payload_binds payload image_ref manifest_digest \<longleftrightarrow>
    (\<exists>rest. payload = ''pullrun-image-v1'' @ nl @ image_ref @ nl @ manifest_digest @ rest
       \<and> (rest = [] \<or> hd rest = CHR 0x0A))"

definition key_accepts :: "policy_env \<Rightarrow> signature_blob \<Rightarrow> cosign_key list \<Rightarrow> bool" where
  "key_accepts C blob keys \<longleftrightarrow>
    (\<exists>pre key post. keys = pre @ key # post \<and> key_id key = sig_key_id blob
       \<and> length (sig_signature blob) = 64
       \<and> ed25519_verify C (verifying_key key) (as_bytes (sig_payload blob)) (sig_signature blob) = None
       \<and> (\<forall>k \<in> set pre. key_id k = sig_key_id blob \<longrightarrow>
            verify_cosign_signature C k (as_bytes (sig_payload blob)) (sig_signature blob) = Inr False))"

definition signature_accepted ::
    "policy_env \<Rightarrow> ext \<Rightarrow> policy_engine \<Rightarrow> mmap_store \<Rightarrow> string \<Rightarrow> string \<Rightarrow> bool" where
  "signature_accepted C E eng s image_ref manifest_digest \<longleftrightarrow>
    (\<exists>bs blob. map_of (blob_files s) (signature_digest_for E image_ref) = Some bs
       \<and> check_signature_archive C bs = Inr blob
       \<and> payload_binds (sig_payload blob) image_ref manifest_digest
       \<and> key_accepts C blob (trusted_keys eng))"

definition sbom_accepts :: "policy \<Rightarrow> sbom_blob \<Rightarrow> bool" where
  "sbom_accepts p blob \<longleftrightarrow>
    (\<forall>m. max_cvss_score p = Some m \<longrightarrow>
       blob_vulnerabilities blob = [] \<or> cvss (hd (blob_vulnerabilities blob)) = NaN
       \<or> (\<forall>v \<in> set (blob_vulnerabilities blob). \<not> f32_ge (cvss v) m))
    \<and> (\<forall>b \<in> set (deny_licenses p). \<forall>c \<in> set (blob_components blob). \<forall>l \<in> set (licenses c).
         \<not> eq_ignore_ascii_case l b)"

definition sbom_accepted :: "policy_env \<Rightarrow> ext \<Rightarrow> policy \<Rightarrow> mmap_store \<Rightarrow> string \<Rightarrow> bool" where
  "sbom_accepted C E p s manifest_digest \<longleftrightarrow>
    (case map_of (blob_files s) (sbom_digest_for E manifest_digest) of
       None \<Rightarrow> \<not> require_sbom p
     | Some bs \<Rightarrow>
         (case check_sbom_archive C bs of Inl _ \<Rightarrow> False | Inr blob \<Rightarrow> sbom_accepts p blob))"

definition seccomp_accepted :: "policy \<Rightarrow> bool" where
  "seccomp_accepted p \<longleftrightarrow>
    (case seccomp_profile p of
       None \<Rightarrow> True
     | Some profile \<Rightarrow> profile \<in> {''default'', ''unconfined''} \<or> (\<exists>r. profile = ''pullrun:'' @ r))"

lemma three_or_more: "2 < length xs \<Longrightarrow> \<exists>a b c ls. xs = a # b # c # ls"
proof -
  assume "2 < length xs"
  then have "Suc (Suc (Suc 0)) \<le> length xs" by simp
  then show ?thesis unfolding Suc_le_length_iff by blast
qed

lemma line_of_binds:
  assumes "CHR 0x0A \<notin> set image_ref" "CHR 0x0A \<notin> set md" "md \<noteq> []"
  shows "line_of payload 0 = ''pullrun-image-v1'' \<and> line_of payload 1 = image_ref \<and> line_of payload 2 = md
    \<longleftrightarrow> payload_binds payload image_ref md"
proof
  assume bind: "payload_binds payload image_ref md"
  have ver: "CHR 0x0A \<notin> set ''pullrun-image-v1''" by simp
  obtain rest where payload: "payload = ''pullrun-image-v1'' @ nl @ image_ref @ nl @ md @ rest"
      and rest: "rest = [] \<or> hd rest = CHR 0x0A"
    using bind by (auto simp: payload_binds_def)
  obtain ls where "split_on (CHR 0x0A) (md @ rest) = md # ls"
    using rest assms(2) by (cases rest) (auto simp: split_on_no_sep split_on_append)
  then have "split_on (CHR 0x0A) payload = ''pullrun-image-v1'' # image_ref # md # ls"
    using split_on_append [OF ver] split_on_append [OF assms(1)] unfolding payload nl_def by simp
  then show "line_of payload 0 = ''pullrun-image-v1'' \<and> line_of payload 1 = image_ref \<and> line_of payload 2 = md"
    by (simp add: line_of_def Let_def)
next
  assume lines: "line_of payload 0 = ''pullrun-image-v1'' \<and> line_of payload 1 = image_ref \<and> line_of payload 2 = md"
  let ?ls = "split_on (CHR 0x0A) payload"
  have "2 < length ?ls" using lines assms(3) by (auto simp: line_of_def Let_def split: if_splits)
  then obtain a b c ls where ls: "?ls = a # b # c # ls"
    using three_or_more by blast
  then have abc: "a = ''pullrun-image-v1''" "b = image_ref" "c = md"
    using lines by (simp_all add: line_of_def Let_def)
  have "payload = join nl ?ls" by (simp add: nl_def)
  also have "\<dots> = a @ nl @ b @ nl @ c @ (if ls = [] then [] else nl @ join nl ls)"
    by (simp add: ls join_cons)
  finally have "payload = ''pullrun-image-v1'' @ nl @ image_ref @ nl @ md @ (if ls = [] then [] else nl @ join nl ls)"
    by (simp only: abc)
  moreover have "(if ls = [] then [] else nl @ join nl ls) = []
      \<or> hd (if ls = [] then [] else nl @ join nl ls) = CHR 0x0A"
    by (simp add: nl_def)
  ultimately show "payload_binds payload image_ref md" unfolding payload_binds_def by blast
qed

lemma try_keys_valid:
  "try_keys C (sig_key_id blob) (as_bytes (sig_payload blob)) (sig_signature blob) keys = SigValid
     \<longleftrightarrow> key_accepts C blob keys"
proof (induction keys)
  case (Cons k keys)
  let ?v = "verify_cosign_signature C k (as_bytes (sig_payload blob)) (sig_signature blob)"
  have genuine: "?v = Inr True \<longleftrightarrow> length (sig_signature blob) = 64
      \<and> ed25519_verify C (verifying_key k) (as_bytes (sig_payload blob)) (sig_signature blob) = None"
    by (auto simp: verify_cosign_signature_def split: option.splits)
  have split: "key_accepts C blob (k # keys) \<longleftrightarrow>
      (key_id k = sig_key_id blob \<and> ?v = Inr True)
      \<or> ((key_id k = sig_key_id blob \<longrightarrow> ?v = Inr False) \<and> key_accepts C blob keys)"
  proof
    assume "key_accepts C blob (k # keys)"
    then obtain pre key post where acc: "k # keys = pre @ key # post" "key_id key = sig_key_id blob"
        "length (sig_signature blob) = 64"
        "ed25519_verify C (verifying_key key) (as_bytes (sig_payload blob)) (sig_signature blob) = None"
        "\<forall>k \<in> set pre. key_id k = sig_key_id blob \<longrightarrow>
           verify_cosign_signature C k (as_bytes (sig_payload blob)) (sig_signature blob) = Inr False"
      unfolding key_accepts_def by blast
    show "(key_id k = sig_key_id blob \<and> ?v = Inr True)
      \<or> ((key_id k = sig_key_id blob \<longrightarrow> ?v = Inr False) \<and> key_accepts C blob keys)"
    proof (cases pre)
      case Nil
      then show ?thesis using acc genuine by simp
    next
      case (Cons k' pre')
      then have "key_accepts C blob keys"
        using acc unfolding key_accepts_def by (intro exI [of _ pre'] exI [of _ key] exI [of _ post]) simp
      then show ?thesis using acc Cons by simp
    qed
  next
    assume "(key_id k = sig_key_id blob \<and> ?v = Inr True)
      \<or> ((key_id k = sig_key_id blob \<longrightarrow> ?v = Inr False) \<and> key_accepts C blob keys)"
    then show "key_accepts C blob (k # keys)"
    proof
      assume "key_id k = sig_key_id blob \<and> ?v = Inr True"
      then show ?thesis
        unfolding key_accepts_def genuine by (intro exI [of _ "[]"] exI [of _ k] exI [of _ keys]) simp
    next
      assume later: "(key_id k = sig_key_id blob \<longrightarrow> ?v = Inr False) \<and> key_accepts C blob keys"
      then obtain pre key post where acc: "keys = pre @ key # post" "key_id key = sig_key_id blob"
          "length (sig_signature blob) = 64"
          "ed25519_verify C (verifying_key key) (as_bytes (sig_payload blob)) (sig_signature blob) = None"
          "\<forall>k \<in> set pre. key_id k = sig_key_id blob \<longrightarrow>
             verify_cosign_signature C k (as_bytes (sig_payload blob)) (sig_signature blob) = Inr False"
        unfolding key_accepts_def by blast
      then show ?thesis
        using later unfolding key_accepts_def
        by (intro exI [of _ "k # pre"] exI [of _ key] exI [of _ post]) simp
    qed
  qed
  show ?case
    unfolding split using Cons.IH by (auto split: sum.splits)
qed (simp add: key_accepts_def)

lemma max_cvss_fold:
  "foldl (\<lambda>acc x. Some (case acc of None \<Rightarrow> x | Some y \<Rightarrow> if f32_gt x y then x else y)) (Some (Num a)) xs
     = Some (Num b) \<Longrightarrow> a \<le> b \<and> (b = a \<or> Num b \<in> set xs) \<and> (\<forall>c. Num c \<in> set xs \<longrightarrow> c \<le> b)"
proof (induction xs arbitrary: a)
  case (Cons x xs)
  then show ?case by (cases x) (force split: if_splits)+
qed simp

lemma max_cvss_num:
  "\<exists>b. foldl (\<lambda>acc x. Some (case acc of None \<Rightarrow> x | Some y \<Rightarrow> if f32_gt x y then x else y)) (Some (Num a)) xs
     = Some (Num b)"
proof (induction xs arbitrary: a)
  case (Cons x xs)
  then show ?case by (cases x) auto
qed simp

lemma max_cvss_nan:
  "foldl (\<lambda>acc x. Some (case acc of None \<Rightarrow> x | Some y \<Rightarrow> if f32_gt x y then x else y)) (Some NaN) xs = Some NaN"
  by (induction xs) simp_all

lemma max_cvss_exceeds:
  "(\<exists>h. max_cvss r = Some h \<and> f32_ge h m) \<longleftrightarrow>
     vulnerabilities r \<noteq> [] \<and> cvss (hd (vulnerabilities r)) \<noteq> NaN
     \<and> (\<exists>v \<in> set (vulnerabilities r). f32_ge (cvss v) m)"
proof (cases "vulnerabilities r")
  case (Cons v vs)
  show ?thesis
  proof (cases "cvss v")
    case NaN
    then show ?thesis using Cons by (simp add: max_cvss_def max_cvss_nan)
  next
    case (Num a)
    obtain b where b: "max_cvss r = Some (Num b)"
      using max_cvss_num [of a "map cvss vs"] Cons Num by (auto simp: max_cvss_def)
    then have fold: "a \<le> b \<and> (b = a \<or> Num b \<in> set (map cvss vs)) \<and> (\<forall>c. Num c \<in> set (map cvss vs) \<longrightarrow> c \<le> b)"
      using max_cvss_fold [of a "map cvss vs" b] Cons Num by (simp add: max_cvss_def)
    have "f32_ge (Num b) m \<longleftrightarrow> (\<exists>w \<in> set (v # vs). f32_ge (cvss w) m)"
    proof (cases m)
      case (Num c)
      have ge: "f32_ge x (Num c) \<longleftrightarrow> (\<exists>d. x = Num d \<and> c \<le> d)" for x by (cases x) auto
      show ?thesis unfolding Num ge using fold \<open>cvss v = Num a\<close> by (fastforce simp: image_iff)
    qed simp
    then show ?thesis using b Cons Num by simp
  qed
qed (simp add: max_cvss_def)

lemma get_blob_frame: "blob_files (snd (get_blob s d)) = blob_files s"
  by (simp add: get_blob_def load_blob_from_disk_def split: option.split)

lemma check_signature_result:
  assumes "blob_coherent s" "CHR 0x0A \<notin> set image_ref" "CHR 0x0A \<notin> set md" "md \<noteq> []"
  shows "fst (check_signature C E eng s image_ref md) = Inr SigValid
      \<longleftrightarrow> signature_accepted C E eng s image_ref md"
    and "blob_coherent (snd (check_signature C E eng s image_ref md))"
    and "blob_files (snd (check_signature C E eng s image_ref md)) = blob_files s"
proof -
  let ?d = "signature_digest_for E image_ref"
  obtain r s' where g: "get_blob s ?d = (r, s')" by force
  have s': "snd (check_signature C E eng s image_ref md) = s'"
    using g by (auto simp: check_signature_def Let_def split: sum.splits store_error.splits)
  show "blob_coherent (snd (check_signature C E eng s image_ref md))"
    unfolding s' using get_blob_coherent [OF assms(1), of ?d] g by simp
  show "blob_files (snd (check_signature C E eng s image_ref md)) = blob_files s"
    unfolding s' using get_blob_frame [of s ?d] g by simp
  have r: "r = (case map_of (blob_files s) ?d of None \<Rightarrow> Inl (NotFound ?d) | Some b \<Rightarrow> Inr b)"
    using blob_read.rd_result [OF assms(1), of ?d] g by simp
  note binds = line_of_binds [OF assms(2-4)]
  show "fst (check_signature C E eng s image_ref md) = Inr SigValid
      \<longleftrightarrow> signature_accepted C E eng s image_ref md"
  proof (cases "map_of (blob_files s) ?d")
    case None
    then show ?thesis using g r by (simp add: check_signature_def signature_accepted_def)
  next
    case (Some bs)
    then have g: "get_blob s ?d = (Inr bs, s')" using g r by simp
    show ?thesis
    proof (cases "check_signature_archive C bs")
      case (Inl e)
      then show ?thesis using g Some by (simp add: check_signature_def signature_accepted_def)
    next
      case (Inr blob)
      then show ?thesis
        using g Some binds [of "sig_payload blob"] try_keys_valid [of C blob "trusted_keys eng"]
        by (auto simp: check_signature_def signature_accepted_def Let_def)
    qed
  qed
qed

lemma sbom_denies_found:
  "sbom_denies C p image_ref (Found r) = None \<longleftrightarrow>
    (\<forall>m. max_cvss_score p = Some m \<longrightarrow> \<not> (\<exists>h. max_cvss r = Some h \<and> f32_ge h m))
    \<and> (\<forall>b \<in> set (deny_licenses p). \<forall>l \<in> set (all_licenses r). \<not> eq_ignore_ascii_case l b)"
proof -
  have lic: "(\<forall>b \<in> set (deny_licenses p). \<forall>l \<in> set (all_licenses r). \<not> eq_ignore_ascii_case l b) \<longleftrightarrow>
      List.find (\<lambda>banned. list_ex (\<lambda>l. eq_ignore_ascii_case l banned) (all_licenses r)) (deny_licenses p) = None"
    by (auto simp: find_None_iff list_ex_iff)
  show ?thesis
    unfolding lic by (auto simp: sbom_denies_def Let_def split: option.split if_split)
qed

lemma evaluate_sbom_result:
  assumes "blob_coherent s"
  shows "fst (evaluate_sbom C E s md) =
    (case map_of (blob_files s) (sbom_digest_for E md) of
       None \<Rightarrow> Inr Missing
     | Some bs \<Rightarrow>
         (case check_sbom_archive C bs of
            Inl e \<Rightarrow> Inl (SbomMissing e)
          | Inr blob \<Rightarrow>
              Inr (Found \<lparr>components = blob_components blob, vulnerabilities = blob_vulnerabilities blob,
                all_licenses = dedup (sort_strings (concat (map licenses (blob_components blob))))\<rparr>)))"
proof -
  let ?d = "sbom_digest_for E md"
  obtain r s' where g: "get_blob s ?d = (r, s')" by force
  have "r = (case map_of (blob_files s) ?d of None \<Rightarrow> Inl (NotFound ?d) | Some b \<Rightarrow> Inr b)"
    using blob_read.rd_result [OF assms, of ?d] g by simp
  then show ?thesis using g by (auto simp: evaluate_sbom_def split: option.split sum.split)
qed

lemma sbom_phase_result:
  assumes "blob_coherent s"
  shows "fst (sbom_phase C E p s image_ref md) = Inr Allow
    \<longleftrightarrow> (needs_sbom p \<longrightarrow> sbom_accepted C E p s md) \<and> seccomp_accepted p"
proof -
  have sec: "seccomp_denies p = None \<longleftrightarrow> seccomp_accepted p"
    by (auto simp: seccomp_denies_def seccomp_accepted_def starts_with_iff split: option.splits if_splits)
  have "fst (sbom_phase C E p s image_ref md) = Inr Allow \<longleftrightarrow>
      (needs_sbom p \<longrightarrow> (\<exists>rep. fst (evaluate_sbom C E s md) = Inr rep \<and> sbom_denies C p image_ref rep = None))
      \<and> seccomp_denies p = None"
    by (cases "evaluate_sbom C E s md"; cases "needs_sbom p")
      (auto simp: sbom_phase_def Let_def split: sum.splits option.splits)
  moreover have "(\<exists>rep. fst (evaluate_sbom C E s md) = Inr rep \<and> sbom_denies C p image_ref rep = None)
      \<longleftrightarrow> sbom_accepted C E p s md"
    unfolding evaluate_sbom_result [OF assms] sbom_accepted_def
    by (auto simp: sbom_denies_found max_cvss_exceeds sbom_accepts_def split: option.split sum.split)
      (simp_all add: sbom_denies_def split: if_splits)
  ultimately show ?thesis by (simp add: sec)
qed

text \<open>
  C13: the engine allows an image exactly when the policy is met.  If a signature is
  required, the store must hold, at the place derived from the reference, an
  archive whose payload names this reference and this manifest digest and which a
  trusted key with its key id verifies; if the policy looks at the bill of
  materials, a required one must be there, and a stored one must decode, show no
  banned license (up to ASCII case) and no score at or above the limit, unless the
  first score is not a number, which switches the limit off; and the seccomp
  profile must be a known one.
\<close>

theorem policy_allow_exact:
  assumes "blob_coherent s" "CHR 0x0A \<notin> set image_ref" "CHR 0x0A \<notin> set md" "md \<noteq> []"
  shows "fst (evaluate_for_image C E eng p s image_ref md) = Inr Allow \<longleftrightarrow>
    (required_signature p \<longrightarrow> signature_accepted C E eng s image_ref md)
    \<and> (needs_sbom p \<longrightarrow> sbom_accepted C E p s md)
    \<and> seccomp_accepted p"
proof (cases "required_signature p")
  case False
  then show ?thesis using sbom_phase_result [OF assms(1)] by (simp add: evaluate_for_image_def)
next
  case True
  obtain r s' where c: "check_signature C E eng s image_ref md = (r, s')" by force
  have s': "blob_coherent s'" "blob_files s' = blob_files s"
    and valid: "r = Inr SigValid \<longleftrightarrow> signature_accepted C E eng s image_ref md"
    using check_signature_result [OF assms, of C E eng] c by simp_all
  have "sbom_accepted C E p s' md = sbom_accepted C E p s md"
    by (simp add: sbom_accepted_def s'(2))
  moreover have "fst (evaluate_for_image C E eng p s image_ref md) = Inr Allow
      \<longleftrightarrow> r = Inr SigValid \<and> fst (sbom_phase C E p s' image_ref md) = Inr Allow"
    using c True by (auto simp: evaluate_for_image_def split: sum.splits signature_check.splits)
  ultimately show ?thesis using True valid sbom_phase_result [OF s'(1), of C E p image_ref md] by auto
qed

definition sample_policy_env :: policy_env where
  "sample_policy_env =
    \<lparr>check_signature_archive = (\<lambda>_. Inr \<lparr>sig_key_id = ''k1'', sig_payload = canonical_payload ''app'' ''d1'',
        sig_signature = replicate 64 0\<rparr>),
     check_sbom_archive = (\<lambda>_. Inl []), encode_sbom_archive = (\<lambda>_. Inl []), base64_decode = (\<lambda>_. Inl []),
     key_from_bytes = Inr, ed25519_verify = (\<lambda>k m sg. if k = [9] then None else Some ''signature error''),
     show_f32 = (\<lambda>_. [])\<rparr>"

definition signed_policy :: policy where
  "signed_policy =
    \<lparr>required_signature = True, readonly_rootfs = False, no_new_privileges = False, seccomp_profile = Some ''default'',
     allowed_syscalls = [], policy_labels = [], max_cvss_score = None, trusted_signers = [],
     deny_licenses = [], require_sbom = False\<rparr>"

definition signed_store :: mmap_store where
  "signed_store = snd (put_blob (new_unbounded []) (signature_digest_for ref_ext ''app'') [1])"

theorem policy_allow_exact_witness:
  "fst (evaluate_for_image sample_policy_env ref_ext
      (with_trusted_keys [\<lparr>key_id = ''k0'', verifying_key = [8]\<rparr>, \<lparr>key_id = ''k1'', verifying_key = [9]\<rparr>]
        (engine_new signed_policy)) signed_policy signed_store ''app'' ''d1'') = Inr Allow"
proof -
  let ?eng = "with_trusted_keys [\<lparr>key_id = ''k0'', verifying_key = [8]\<rparr>, \<lparr>key_id = ''k1'', verifying_key = [9]\<rparr>]
        (engine_new signed_policy)"
  have coherent: "blob_coherent signed_store"
    by (simp add: signed_store_def put_blob_def blob_exists_def new_unbounded_def blob_coherent_def
        empty_cache_inv) (simp add: empty_cache_def)
  have "payload_binds (canonical_payload ''app'' ''d1'') ''app'' ''d1''"
    unfolding payload_binds_def canonical_payload_def by (intro exI [of _ nl]) (simp add: nl_def)
  moreover have "key_accepts sample_policy_env
      \<lparr>sig_key_id = ''k1'', sig_payload = canonical_payload ''app'' ''d1'', sig_signature = replicate 64 0\<rparr>
      (trusted_keys ?eng)"
    unfolding key_accepts_def
    by (intro exI [of _ "[\<lparr>key_id = ''k0'', verifying_key = [8]\<rparr>]"]
        exI [of _ "\<lparr>key_id = ''k1'', verifying_key = [9]\<rparr>"] exI [of _ "[]"])
      (simp add: with_trusted_keys_def sample_policy_env_def)
  moreover have "map_of (blob_files signed_store) (signature_digest_for ref_ext ''app'') = Some [1]"
    by (simp add: signed_store_def put_blob_def blob_exists_def new_unbounded_def)
  ultimately have "signature_accepted sample_policy_env ref_ext ?eng signed_store ''app'' ''d1''"
    unfolding signature_accepted_def by (simp add: sample_policy_env_def)
  then show ?thesis
    by (subst policy_allow_exact [OF coherent])
      (simp_all add: signed_policy_def needs_sbom_def seccomp_accepted_def)
qed

end
