(* ===== verification/Dockerfile.thy ===== *)
theory Dockerfile
  imports Rust_Text
begin

text \<open>
  The Dockerfile parser of \<^verbatim>\<open>pullrun-oci/src/dockerfile.rs\<close>.  Errors are
  \<open>Inl\<close>, a panic is \<open>None\<close>; the decoding of JSON string arrays by
  \<^verbatim>\<open>serde_json\<close> is the argument \<open>js\<close>.  Text is ASCII.
\<close>

datatype instruction =
    Run "string list"
  | Copy "string list" string
  | WorkDir string
  | Env string string
  | Cmd "string list"
  | Entrypoint "string list"
  | Expose u16
  | Label string string
  | User string
  | Arg string "string option"
  | Shell "string list"
  | Add "string list" string
  | Comment string

record build_stage =
  stage_from :: string
  instructions :: "instruction list"
  stage_name :: "string option"
  stage_platform :: "string option"

datatype dockerfile_error =
    Bare_array string
  | Invalid_exec string string
  | Copy_exec_arity "string list"
  | Copy_arity string
  | Invalid_port string
  | No_from string
  | No_stages

type_synonym json_strings = "string \<Rightarrow> string + string list"

definition backslash :: char where "backslash = CHR 0x5C"

fun preprocess_loop :: "string list \<Rightarrow> string list \<Rightarrow> string \<Rightarrow> string list" where
  "preprocess_loop [] out current = (if current \<noteq> [] then out @ [trim current] else out)"
| "preprocess_loop (raw # raws) out current =
    (let line = trim raw
     in if line = [] \<or> hd line = CHR ''#'' then
          (if current \<noteq> [] then preprocess_loop raws (out @ [trim current]) []
           else preprocess_loop raws out [])
        else (case strip_suffix [backslash] line of
                Some stripped \<Rightarrow> preprocess_loop raws out (current @ stripped @ '' '')
              | None \<Rightarrow> preprocess_loop raws (out @ [trim (current @ line)]) []))"

definition preprocess_lines :: "string \<Rightarrow> string list" where
  "preprocess_lines content = preprocess_loop (str_lines content) [] []"

fun blocks_loop :: "string list \<Rightarrow> string list list \<Rightarrow> string list \<Rightarrow> string list list" where
  "blocks_loop [] blocks current = (if current \<noteq> [] then blocks @ [current] else blocks)"
| "blocks_loop (line # lines) blocks current =
    (if starts_with (to_uppercase line) ''FROM ''
     then blocks_loop lines (if current \<noteq> [] then blocks @ [current] else blocks) [line]
     else blocks_loop lines blocks (current @ [line]))"

definition split_into_blocks :: "string list \<Rightarrow> string list list" where
  "split_into_blocks lines = blocks_loop lines [] []"

text \<open>The image, the name and the platform; \<open>None\<close> is the panic of an empty image part.\<close>

definition parse_from :: "string \<Rightarrow> (string \<times> string option \<times> string option) option" where
  "parse_from s =
    (let rest0 = trim s;
         (rest, pf) =
           (case strip_prefix ''--platform='' rest0 of
              None \<Rightarrow> (rest0, None)
            | Some p \<Rightarrow> (trim (dropWhile (\<lambda>c. c \<noteq> CHR '' '') p), Some (takeWhile (\<lambda>c. c \<noteq> CHR '' '') p)));
         parts = split_whitespace rest
     in if parts = [] then None
        else Some (hd parts,
                   if length parts \<ge> 3 \<and> to_uppercase (parts ! 1) = ''AS''
                   then Some (join '' '' (drop 2 parts)) else None,
                   pf))"

definition is_exec_form :: "string \<Rightarrow> bool" where
  "is_exec_form s \<longleftrightarrow> s \<noteq> [] \<and> hd s = CHR ''['' \<and> last s = CHR '']''"

lemma length_dropWhile_less: "s \<noteq> [] \<Longrightarrow> P (hd s) \<Longrightarrow> length (dropWhile P s) < length s"
  using length_dropWhile_le by (cases s) (auto intro: le_imp_less_Suc)

lemma length_trim_le: "length (trim s) \<le> length s"
  unfolding trim_def trim_start_def trim_end_def
  by (simp, metis length_dropWhile_le length_rev le_trans)

function skip_flags :: "string \<Rightarrow> string" where
  "skip_flags rest =
    (let t = trim_start rest
     in if starts_with t ''--'' then skip_flags (trim (dropWhile (\<lambda>c. c \<noteq> CHR '' '') t)) else rest)"
  by pat_completeness auto
termination
proof (relation "measure length")
  fix rest t
  assume t: "t = trim_start rest" and "starts_with t ''--''"
  then obtain r where "t = ''--'' @ r" by (auto simp: starts_with_iff)
  then have "length (dropWhile (\<lambda>c. c \<noteq> CHR '' '') t) < length t"
    by (intro length_dropWhile_less) simp_all
  moreover have "length t \<le> length rest" using t by (simp add: trim_start_def length_dropWhile_le)
  ultimately show "(trim (dropWhile (\<lambda>c. c \<noteq> CHR '' '') t), rest) \<in> measure length"
    using length_trim_le [of "dropWhile (\<lambda>c. c \<noteq> CHR '' '') t"] by simp
qed simp

declare skip_flags.simps [simp del]

definition parse_copy_add :: "json_strings \<Rightarrow> string \<Rightarrow> dockerfile_error + instruction" where
  "parse_copy_add js args =
    (let rest = skip_flags (trim args)
     in if is_exec_form rest then
          (case js rest of
             Inl e \<Rightarrow> Inl (Invalid_exec ''COPY'' e)
           | Inr parsed \<Rightarrow>
               if length parsed < 2 then Inl (Copy_exec_arity parsed)
               else Inr (Copy (butlast parsed) (last parsed)))
        else
          (let parts = split_whitespace rest
           in if length parts < 2 then Inl (Copy_arity rest)
              else Inr (Copy (butlast parts) (last parts))))"

definition shell_form :: "string \<Rightarrow> string list" where
  "shell_form s = [''/bin/sh'', ''-c'', s]"

definition parse_json_or_shell :: "json_strings \<Rightarrow> string \<Rightarrow> string list" where
  "parse_json_or_shell js args =
    (let t = trim args
     in if is_exec_form t then (case js t of Inl _ \<Rightarrow> shell_form t | Inr v \<Rightarrow> v) else shell_form t)"

definition parse_key_value :: "string \<Rightarrow> string \<times> string" where
  "parse_key_value s0 =
    (let s = trim s0
     in case split_once (CHR ''='') s of
          Some (k, v) \<Rightarrow> (trim k, trim v)
        | None \<Rightarrow>
            if list_ex is_space s
            then (trim (takeWhile (\<lambda>c. \<not> is_space c) s), trim (tl (dropWhile (\<lambda>c. \<not> is_space c) s)))
            else (s, []))"

definition parse_instruction :: "json_strings \<Rightarrow> string \<Rightarrow> dockerfile_error + instruction" where
  "parse_instruction js line =
    (let trimmed = trim line
     in if is_exec_form trimmed then Inl (Bare_array trimmed)
        else
          (let keyword = to_uppercase (takeWhile (\<lambda>c. \<not> is_space c) line);
               args = trim (dropWhile (\<lambda>c. \<not> is_space c) line)
           in if keyword = ''RUN'' then
                (if is_exec_form args
                 then (case js args of Inl e \<Rightarrow> Inl (Invalid_exec ''RUN'' e) | Inr v \<Rightarrow> Inr (Run v))
                 else Inr (Run (shell_form args)))
              else if keyword = ''COPY'' then parse_copy_add js args
              else if keyword = ''ADD'' then parse_copy_add js args
              else if keyword = ''WORKDIR'' then Inr (WorkDir args)
              else if keyword = ''ENV'' then (case parse_key_value args of (k, v) \<Rightarrow> Inr (Env k v))
              else if keyword = ''CMD'' then Inr (Cmd (parse_json_or_shell js args))
              else if keyword = ''ENTRYPOINT'' then Inr (Entrypoint (parse_json_or_shell js args))
              else if keyword = ''EXPOSE'' then
                (case parse_u16 (trim (hd (split_on (CHR ''/'') args))) of
                   None \<Rightarrow> Inl (Invalid_port args)
                 | Some port \<Rightarrow> Inr (Expose port))
              else if keyword = ''LABEL'' then (case parse_key_value args of (k, v) \<Rightarrow> Inr (Label k v))
              else if keyword = ''USER'' then Inr (User args)
              else if keyword = ''ARG'' then
                (case split_once (CHR ''='') args of
                   None \<Rightarrow> Inr (Arg (trim args) None)
                 | Some (n, d) \<Rightarrow> Inr (Arg (trim n) (Some (trim d))))
              else if keyword = ''SHELL'' then
                (if is_exec_form args
                 then (case js args of Inl e \<Rightarrow> Inl (Invalid_exec ''SHELL'' e) | Inr v \<Rightarrow> Inr (Shell v))
                 else Inr (Shell [''/bin/sh'', ''-c'']))
              else Inr (Comment (keyword @ '' '' @ args))))"

fun parse_instructions :: "json_strings \<Rightarrow> string list \<Rightarrow> dockerfile_error + instruction list" where
  "parse_instructions js [] = Inr []"
| "parse_instructions js (line # lines) =
    (case parse_instruction js line of
       Inl e \<Rightarrow> Inl e
     | Inr i \<Rightarrow> (case parse_instructions js lines of Inl e \<Rightarrow> Inl e | Inr is \<Rightarrow> Inr (i # is)))"

definition parse_block :: "json_strings \<Rightarrow> string list \<Rightarrow> (dockerfile_error + build_stage) option" where
  "parse_block js lines =
    (case lines of
       [] \<Rightarrow> None
     | from_line # rest_lines \<Rightarrow>
         if \<not> starts_with (to_uppercase from_line) ''FROM ''
         then Some (Inl (No_from from_line))
         else (case parse_from (trim (drop 5 from_line)) of
                 None \<Rightarrow> None
               | Some (from_image, name, pf) \<Rightarrow>
                   Some (case parse_instructions js rest_lines of
                           Inl e \<Rightarrow> Inl e
                         | Inr is \<Rightarrow> Inr \<lparr>stage_from = from_image, instructions = is, stage_name = name,
                                           stage_platform = pf\<rparr>)))"

fun parse_blocks :: "json_strings \<Rightarrow> string list list \<Rightarrow> (dockerfile_error + build_stage list) option" where
  "parse_blocks js [] = Some (Inr [])"
| "parse_blocks js (b # bs) =
    (case parse_block js b of
       None \<Rightarrow> None
     | Some (Inl e) \<Rightarrow> Some (Inl e)
     | Some (Inr st) \<Rightarrow>
         (case parse_blocks js bs of
            Some (Inr sts) \<Rightarrow> Some (Inr (st # sts))
          | other \<Rightarrow> other))"

definition parse :: "json_strings \<Rightarrow> string \<Rightarrow> (dockerfile_error + build_stage list) option" where
  "parse js content =
    (case parse_blocks js (split_into_blocks (preprocess_lines content)) of
       Some (Inr stages) \<Rightarrow>
         if stages = [] then Some (Inl No_stages) else Some (Inr stages)
     | other \<Rightarrow> other)"

section \<open>Rendering\<close>

text \<open>
  The specification side: the text a stage is written as, and which stages have
  such a text.  A line is a keyword, a space and an argument text without white
  space at either end.
\<close>

definition tight :: "string \<Rightarrow> bool" where
  "tight s \<longleftrightarrow> s = [] \<or> \<not> is_space (hd s) \<and> \<not> is_space (last s)"

definition text_ok :: "string \<Rightarrow> bool" where
  "text_ok s \<longleftrightarrow> s \<noteq> [] \<and> tight s \<and> CHR 0x0A \<notin> set s \<and> last s \<noteq> backslash"

definition word_ok :: "string \<Rightarrow> bool" where
  "word_ok s \<longleftrightarrow> s \<noteq> [] \<and> list_all (\<lambda>c. \<not> is_space c) s \<and> last s \<noteq> backslash"

definition key_ok :: "string \<Rightarrow> bool" where
  "key_ok s \<longleftrightarrow> text_ok s \<and> CHR ''='' \<notin> set s"

fun plain_instruction :: "instruction \<Rightarrow> bool" where
  "plain_instruction (Run v) \<longleftrightarrow> v = shell_form (last v) \<and> text_ok (last v) \<and> \<not> is_exec_form (last v)"
| "plain_instruction (Copy srcs dest) \<longleftrightarrow> srcs \<noteq> [] \<and> list_all word_ok srcs \<and> word_ok dest \<and>
    \<not> starts_with (hd srcs) ''--'' \<and> hd (hd srcs) \<noteq> CHR ''[''"
| "plain_instruction (WorkDir p) \<longleftrightarrow> text_ok p"
| "plain_instruction (Env k v) \<longleftrightarrow> key_ok k \<and> text_ok v"
| "plain_instruction (Cmd v) \<longleftrightarrow> v = shell_form (last v) \<and> text_ok (last v) \<and> \<not> is_exec_form (last v)"
| "plain_instruction (Entrypoint v) \<longleftrightarrow>
    v = shell_form (last v) \<and> text_ok (last v) \<and> \<not> is_exec_form (last v)"
| "plain_instruction (Expose p) \<longleftrightarrow> True"
| "plain_instruction (Label k v) \<longleftrightarrow> key_ok k \<and> text_ok v"
| "plain_instruction (User u) \<longleftrightarrow> text_ok u"
| "plain_instruction (Arg n d) \<longleftrightarrow> key_ok n \<and> (case d of None \<Rightarrow> True | Some v \<Rightarrow> text_ok v)"
| "plain_instruction _ \<longleftrightarrow> False"

fun render_args :: "instruction \<Rightarrow> string \<times> string" where
  "render_args (Run v) = (''RUN'', last v)"
| "render_args (Copy srcs dest) = (''COPY'', join '' '' (srcs @ [dest]))"
| "render_args (WorkDir p) = (''WORKDIR'', p)"
| "render_args (Env k v) = (''ENV'', k @ ''='' @ v)"
| "render_args (Cmd v) = (''CMD'', last v)"
| "render_args (Entrypoint v) = (''ENTRYPOINT'', last v)"
| "render_args (Expose p) = (''EXPOSE'', nat_to_string (unat p))"
| "render_args (Label k v) = (''LABEL'', k @ ''='' @ v)"
| "render_args (User u) = (''USER'', u)"
| "render_args (Arg n d) = (''ARG'', n @ (case d of None \<Rightarrow> [] | Some v \<Rightarrow> ''='' @ v))"
| "render_args _ = ([], [])"

definition render_line :: "string \<times> string \<Rightarrow> string" where
  "render_line ka = fst ka @ '' '' @ snd ka"

definition from_args :: "build_stage \<Rightarrow> string list" where
  "from_args st =
    (case stage_platform st of None \<Rightarrow> [] | Some p \<Rightarrow> [''--platform='' @ p]) @ [stage_from st] @
    (case stage_name st of None \<Rightarrow> [] | Some n \<Rightarrow> [''AS'', n])"

definition stage_lines :: "build_stage \<Rightarrow> string list" where
  "stage_lines st =
    render_line (''FROM'', join '' '' (from_args st)) #
    map (\<lambda>i. render_line (render_args i)) (instructions st)"

definition plain_stage :: "build_stage \<Rightarrow> bool" where
  "plain_stage st \<longleftrightarrow>
    word_ok (stage_from st) \<and> \<not> starts_with (stage_from st) ''--platform='' \<and>
    (case stage_name st of None \<Rightarrow> True | Some n \<Rightarrow> word_ok n) \<and>
    (case stage_platform st of None \<Rightarrow> True | Some p \<Rightarrow> word_ok p) \<and>
    list_all plain_instruction (instructions st)"

text \<open>The lines of a file that count: trimmed, neither empty nor a comment.\<close>

definition code_lines :: "string list \<Rightarrow> string list" where
  "code_lines raws = filter (\<lambda>l. \<not> (l = [] \<or> hd l = CHR ''#'')) (map trim raws)"

section \<open>White space\<close>

lemma trim_tight [simp]: "tight s \<Longrightarrow> trim s = s"
proof -
  assume "tight s"
  then consider "s = []" | c t where "s = c # t" "\<not> is_space c" "\<not> is_space (last s)"
    by (cases s) (auto simp: tight_def)
  then show ?thesis
  proof cases
    case 2
    have "s = butlast s @ [last s]" using 2(1) by simp
    then have "rev s = last s # rev (butlast s)" by (metis rev_eq_Cons_iff rev_rev_ident)
    with 2(3) have "dropWhile is_space (rev s) = rev s" by (metis dropWhile.simps(2))
    with 2(1,2) show ?thesis by (simp add: trim_def trim_start_def trim_end_def del: rev.simps)
  qed (simp add: trim_def trim_start_def trim_end_def)
qed

lemma trim_space [simp]: "trim (CHR '' '' # s) = trim s"
  by (simp add: trim_def trim_start_def is_space_def)

lemma trim_is_tight [simp]: "tight (trim s)"
proof (cases "trim s = []")
  case False
  define u where "u = dropWhile is_space s"
  define v where "v = dropWhile is_space (rev u)"
  have t: "trim s = rev v" by (simp add: trim_def trim_start_def trim_end_def u_def v_def)
  with False have v: "v \<noteq> []" by simp
  have "\<not> is_space (hd v)" using v hd_dropWhile [of is_space "rev u"] by (simp add: v_def)
  moreover have "\<not> is_space (last v)"
  proof -
    have "u \<noteq> []" using v by (auto simp: v_def)
    then have "\<not> is_space (hd u)" using hd_dropWhile [of is_space s] by (simp add: u_def)
    moreover have "last v = hd u"
    proof -
      have "rev u = takeWhile is_space (rev u) @ v" by (simp add: v_def)
      then have "last (rev u) = last v" using v by (metis last_append)
      then show ?thesis by (simp add: last_rev)
    qed
    ultimately show ?thesis by simp
  qed
  ultimately show ?thesis using v by (simp add: t tight_def hd_rev last_rev)
qed (simp add: tight_def)

lemma trim_strip_cr [simp]: "trim (strip_cr s) = trim s"
proof (cases "s \<noteq> [] \<and> last s = CHR 0x0D")
  case True
  then obtain t where s: "s = t @ [CHR 0x0D]" by (metis append_butlast_last_id)
  have cr: "is_space (CHR 0x0D)" by (simp add: is_space_def)
  have "dropWhile is_space (t @ [CHR 0x0D]) =
      (if list_all is_space t then [] else dropWhile is_space t @ [CHR 0x0D])"
    using cr by (induction t) simp_all
  with cr show ?thesis
    by (auto simp: s strip_cr_def trim_def trim_start_def trim_end_def list_all_iff dest: set_dropWhileD)
qed (auto simp: strip_cr_def)

lemma word_tight: "word_ok w \<Longrightarrow> tight w"
  by (simp add: word_ok_def tight_def list_all_iff)

lemma word_text: "word_ok w \<Longrightarrow> text_ok w"
  by (auto simp: word_ok_def tight_def list_all_iff text_ok_def is_space_def)

lemma split_ws_word:
  "list_all (\<lambda>c. \<not> is_space c) w \<Longrightarrow> split_ws acc (w @ CHR '' '' # s) =
    (if acc = [] \<and> w = [] then split_ws [] s else (rev acc @ w) # split_ws [] s)"
  by (induction w arbitrary: acc) (auto simp: is_space_def)

lemma split_ws_last:
  "list_all (\<lambda>c. \<not> is_space c) w \<Longrightarrow> split_ws acc w = (if acc = [] \<and> w = [] then [] else [rev acc @ w])"
  by (induction w arbitrary: acc) auto

lemma split_whitespace_join: "list_all word_ok ws \<Longrightarrow> split_whitespace (join '' '' ws) = ws"
proof (induction ws)
  case (Cons w ws)
  then show ?case
    by (cases "ws = []") (simp_all add: split_whitespace_def join_cons split_ws_word split_ws_last word_ok_def)
qed (simp add: split_whitespace_def)

lemma text_ok_append: "text_ok a \<Longrightarrow> text_ok b \<Longrightarrow> CHR 0x0A \<notin> set m \<Longrightarrow> text_ok (a @ m @ b)"
  by (auto simp: text_ok_def tight_def)

lemma join_words_text: "ws \<noteq> [] \<Longrightarrow> list_all word_ok ws \<Longrightarrow> text_ok (join '' '' ws)"
proof (induction ws)
  case (Cons w ws)
  show ?case
  proof (cases "ws = []")
    case False
    have "text_ok w" "text_ok (join '' '' ws)" using Cons False by (auto intro: word_text)
    then have "text_ok (w @ '' '' @ join '' '' ws)" by (rule text_ok_append) simp
    then show ?thesis using False by (simp add: join_cons)
  qed (use Cons in \<open>simp add: word_text\<close>)
qed simp

section \<open>From text to lines and blocks\<close>

lemma no_backslash: "l \<noteq> [] \<Longrightarrow> last l \<noteq> backslash \<Longrightarrow> strip_suffix [backslash] l = None"
  by (cases "strip_suffix [backslash] l") (auto simp: strip_suffix_Some)

lemma preprocess_loop_lines:
  "\<forall>l \<in> set (code_lines raws). last l \<noteq> backslash \<Longrightarrow> preprocess_loop raws out [] = out @ code_lines raws"
proof (induction raws arbitrary: out)
  case (Cons raw raws)
  then show ?case by (simp add: code_lines_def Let_def no_backslash)
qed (simp add: code_lines_def)

lemma str_lines_join:
  assumes "raws \<noteq> []" "\<forall>r \<in> set raws. CHR 0x0A \<notin> set r"
  shows "code_lines (str_lines (join [CHR 0x0A] raws)) = code_lines raws"
proof -
  obtain rs r where r: "raws = rs @ [r]" using assms(1) by (metis rev_exhaust)
  have "split_on (CHR 0x0A) (join [CHR 0x0A] raws) = raws" by (rule split_on_join_pieces [OF assms])
  moreover have "trim \<circ> strip_cr = trim" by (simp add: fun_eq_iff)
  moreover have "trim [] = []" by (simp add: tight_def)
  ultimately show ?thesis by (simp add: str_lines_def Let_def r code_lines_def)
qed

lemma preprocess_lines_eq:
  assumes "raws \<noteq> []" "\<forall>r \<in> set raws. CHR 0x0A \<notin> set r" "\<forall>l \<in> set (code_lines raws). last l \<noteq> backslash"
  shows "preprocess_lines (join [CHR 0x0A] raws) = code_lines raws"
  unfolding preprocess_lines_def
  using preprocess_loop_lines [of "str_lines (join [CHR 0x0A] raws)" "[]"] str_lines_join [OF assms(1,2)] assms(3)
  by simp

definition is_from :: "string \<Rightarrow> bool" where
  "is_from l \<longleftrightarrow> starts_with (to_uppercase l) ''FROM ''"

lemma blocks_loop_body:
  "\<forall>l \<in> set ls. \<not> is_from l \<Longrightarrow> blocks_loop (ls @ rest) bs cur = blocks_loop rest bs (cur @ ls)"
  by (induction ls arbitrary: cur) (simp_all add: is_from_def)

lemma blocks_loop_stages:
  assumes "\<forall>b \<in> set bls. b \<noteq> [] \<and> is_from (hd b) \<and> (\<forall>l \<in> set (tl b). \<not> is_from l)"
  shows "blocks_loop (concat bls) bs cur = bs @ (if cur = [] then [] else [cur]) @ bls"
  using assms
proof (induction bls arbitrary: bs cur)
  case (Cons b bls)
  then obtain f ls where b: "b = f # ls" by (cases b) auto
  with Cons.prems have "is_from f" "\<forall>l \<in> set ls. \<not> is_from l" by auto
  then show ?case using Cons by (simp add: b blocks_loop_body is_from_def)
qed simp

section \<open>Lines back to instructions\<close>

lemma keyword_upper:
  "to_uppercase ''RUN'' = ''RUN''" "to_uppercase ''COPY'' = ''COPY''" "to_uppercase ''WORKDIR'' = ''WORKDIR''"
  "to_uppercase ''ENV'' = ''ENV''" "to_uppercase ''CMD'' = ''CMD''" "to_uppercase ''ENTRYPOINT'' = ''ENTRYPOINT''"
  "to_uppercase ''EXPOSE'' = ''EXPOSE''" "to_uppercase ''LABEL'' = ''LABEL''" "to_uppercase ''USER'' = ''USER''"
  "to_uppercase ''ARG'' = ''ARG''" "to_uppercase ''AS'' = ''AS''" "to_uppercase ''FROM '' = ''FROM ''"
  by code_simp+

definition known_keywords :: "string list" where
  "known_keywords = [''RUN'', ''COPY'', ''WORKDIR'', ''ENV'', ''CMD'', ''ENTRYPOINT'', ''EXPOSE'', ''LABEL'', ''USER'',
     ''ARG'', ''FROM'']"

lemma keyword_plain: "kw \<in> set known_keywords \<Longrightarrow>
  kw \<noteq> [] \<and> list_all (\<lambda>c. \<not> is_space c) kw \<and> hd kw \<noteq> CHR ''['' \<and> hd kw \<noteq> CHR ''#'' \<and> CHR 0x0A \<notin> set kw"
proof -
  have "list_all (\<lambda>kw. kw \<noteq> [] \<and> list_all (\<lambda>c. \<not> is_space c) kw \<and> hd kw \<noteq> CHR ''['' \<and> hd kw \<noteq> CHR ''#'' \<and>
      CHR 0x0A \<notin> set kw) known_keywords"
    by code_simp
  moreover assume "kw \<in> set known_keywords"
  ultimately show ?thesis by (simp add: list_all_iff)
qed

lemma keyword_not_from: "kw \<in> set (butlast known_keywords) \<Longrightarrow> \<not> is_from (kw @ '' '' @ a)"
proof -
  assume "kw \<in> set (butlast known_keywords)"
  then show ?thesis
    by (auto simp: known_keywords_def is_from_def starts_with_def to_uppercase_def upper_char_def is_ascii_lower_def code_def)
qed

lemma render_line_parts:
  assumes kw: "kw \<in> set known_keywords" and a: "text_ok a"
  shows "tight (render_line (kw, a))" "render_line (kw, a) \<noteq> []" "hd (render_line (kw, a)) = hd kw"
    "last (render_line (kw, a)) \<noteq> backslash"
    "takeWhile (\<lambda>c. \<not> is_space c) (render_line (kw, a)) = kw"
    "trim (dropWhile (\<lambda>c. \<not> is_space c) (render_line (kw, a))) = a"
    "\<not> is_exec_form (render_line (kw, a))"
proof -
  note k = keyword_plain [OF kw]
  have sp: "is_space (CHR '' '')" by (simp add: is_space_def)
  show "tight (render_line (kw, a))" "render_line (kw, a) \<noteq> []" "hd (render_line (kw, a)) = hd kw"
    "last (render_line (kw, a)) \<noteq> backslash" "\<not> is_exec_form (render_line (kw, a))"
    using k a by (auto simp: render_line_def tight_def text_ok_def list_all_iff is_exec_form_def)
  have "takeWhile (\<lambda>c. \<not> is_space c) (kw @ CHR '' '' # a) = kw @ takeWhile (\<lambda>c. \<not> is_space c) (CHR '' '' # a)"
    using k by (intro takeWhile_append2) (auto simp: list_all_iff)
  moreover have "dropWhile (\<lambda>c. \<not> is_space c) (kw @ CHR '' '' # a) = dropWhile (\<lambda>c. \<not> is_space c) (CHR '' '' # a)"
    using k by (intro dropWhile_append2) (auto simp: list_all_iff)
  ultimately show "takeWhile (\<lambda>c. \<not> is_space c) (render_line (kw, a)) = kw"
    "trim (dropWhile (\<lambda>c. \<not> is_space c) (render_line (kw, a))) = a"
    using sp a by (simp_all add: render_line_def text_ok_def)
qed

lemma decimal_word: "word_ok (nat_to_string n) \<and> CHR ''/'' \<notin> set (nat_to_string n)"
proof -
  have c: "\<not> is_space c \<and> c \<noteq> CHR ''/'' \<and> c \<noteq> backslash" if "c \<in> set (nat_to_string n)" for c
    using decimal_digit [OF that] not_space_alnum [of c]
    by (auto simp: is_alphanumeric_def is_ascii_digit_def code_def backslash_def)
  show ?thesis using c c [OF last_in_set [OF decimal_nonempty]] by (auto simp: word_ok_def list_all_iff)
qed

lemma skip_flags_none: "tight s \<Longrightarrow> \<not> starts_with s ''--'' \<Longrightarrow> skip_flags s = s"
proof -
  assume "tight s" "\<not> starts_with s ''--''"
  moreover from this have "trim_start s = s" by (cases s) (auto simp: trim_start_def tight_def)
  ultimately show ?thesis by (subst skip_flags.simps) (simp add: Let_def)
qed

lemma starts_with_append_word:
  "w \<noteq> [] \<Longrightarrow> list_all (\<lambda>c. \<not> is_space c) w \<Longrightarrow> starts_with (w @ CHR '' '' # s) ''--'' \<longleftrightarrow> starts_with w ''--''"
  by (cases w; cases "tl w") (auto simp: starts_with_def)

lemma parse_copy_words:
  assumes "srcs \<noteq> []" "list_all word_ok (srcs @ [dest])" "\<not> starts_with (hd srcs) ''--''" "hd (hd srcs) \<noteq> CHR ''[''"
  shows "parse_copy_add js (join '' '' (srcs @ [dest])) = Inr (Copy srcs dest)"
proof -
  define a where "a = join '' '' (srcs @ [dest])"
  have t: "text_ok a" unfolding a_def using assms(1,2) by (intro join_words_text) auto
  obtain w ws where s: "srcs = w # ws" using assms(1) by (cases srcs) auto
  have a: "a = w @ CHR '' '' # join '' '' (ws @ [dest])" by (simp add: a_def s join_cons)
  have w: "w \<noteq> []" "list_all (\<lambda>c. \<not> is_space c) w" using assms(2) by (auto simp: s word_ok_def)
  have "\<not> starts_with a ''--''" using w assms(3) unfolding a by (simp add: starts_with_append_word s)
  then have "skip_flags (trim a) = a" using t by (simp add: text_ok_def skip_flags_none)
  moreover have "\<not> is_exec_form a" using w assms(4) unfolding a by (simp add: s is_exec_form_def)
  moreover have "split_whitespace a = srcs @ [dest]" unfolding a_def using assms(2) by (rule split_whitespace_join)
  moreover have "\<not> length (srcs @ [dest]) < 2" using s by simp
  ultimately show ?thesis
    unfolding a_def [symmetric] parse_copy_add_def Let_def by simp
qed

lemma parse_key_value_render: "key_ok k \<Longrightarrow> text_ok v \<Longrightarrow> parse_key_value (k @ ''='' @ v) = (k, v)"
proof -
  assume a: "key_ok k" "text_ok v"
  then have "text_ok (k @ ''='' @ v)" by (intro text_ok_append) (auto simp: key_ok_def)
  with a show ?thesis by (simp add: parse_key_value_def key_ok_def text_ok_def)
qed

lemma render_args_ok:
  assumes "plain_instruction i"
  shows "fst (render_args i) \<in> set (butlast known_keywords) \<and> text_ok (snd (render_args i))"
  using assms
proof (cases i)
  case (Copy srcs dest)
  with assms show ?thesis by (simp add: known_keywords_def join_words_text)
next
  case (Expose p)
  then show ?thesis using decimal_word [of "unat p"] by (simp add: known_keywords_def word_text)
next
  case (Arg n d)
  with assms show ?thesis
    by (cases d) (auto simp: known_keywords_def key_ok_def intro: text_ok_append [of _ _ "''=''", simplified])
qed (auto simp: known_keywords_def key_ok_def intro: text_ok_append [of _ _ "''=''", simplified])

lemma parse_rendered:
  assumes p: "plain_instruction i"
  shows "parse_instruction js (render_line (render_args i)) = Inr i"
proof -
  define kw where "kw = fst (render_args i)"
  define a where "a = snd (render_args i)"
  have kw: "kw \<in> set known_keywords" and a: "text_ok a"
    using render_args_ok [OF p] in_set_butlastD [of kw known_keywords] by (auto simp: kw_def a_def)
  have ka: "render_args i = (kw, a)" by (simp add: kw_def a_def)
  note r = render_line_parts [OF kw a]
  have t: "trim a = a" using a by (simp add: text_ok_def)
  note step = ka parse_instruction_def Let_def r(5,6) trim_tight [OF r(1)] if_not_P [OF r(7)]
  show ?thesis
  proof (cases i)
    case (Copy srcs dest)
    with p parse_copy_words [of srcs dest js] show ?thesis
      unfolding step by (simp add: keyword_upper kw_def a_def)
  next
    case (Expose port)
    with decimal_word [of "unat port"] parse_u16_decimal [of port] t show ?thesis
      unfolding step by (simp add: keyword_upper kw_def a_def split_on_no_sep)
  next
    case (Arg n d)
    with p show ?thesis
      unfolding step
      by (cases d) (simp_all add: keyword_upper kw_def a_def key_ok_def text_ok_def split_once_None [THEN iffD2])
  next
    case (Env k v)
    with p parse_key_value_render [of k v] show ?thesis
      unfolding step by (simp add: keyword_upper kw_def a_def)
  next
    case (Label k v)
    with p parse_key_value_render [of k v] show ?thesis
      unfolding step by (simp add: keyword_upper kw_def a_def)
  qed (use p t in \<open>unfold step, auto simp: parse_json_or_shell_def Let_def keyword_upper kw_def a_def\<close>)
qed

lemma from_args_words: "plain_stage st \<Longrightarrow> from_args st \<noteq> [] \<and> list_all word_ok (from_args st)"
  by (auto simp: plain_stage_def from_args_def word_ok_def is_space_def backslash_def split: option.splits)

lemma takeWhile_word:
  assumes "list_all (\<lambda>c. \<not> is_space c) w"
  shows "takeWhile (\<lambda>c. c \<noteq> CHR '' '') (w @ CHR '' '' # s) = w"
    "dropWhile (\<lambda>c. c \<noteq> CHR '' '') (w @ CHR '' '' # s) = CHR '' '' # s"
  using assms by (induction w) (auto simp: is_space_def)

lemma strip_prefix_spaced:
  "list_all (\<lambda>c. \<not> is_space c) p \<Longrightarrow> strip_prefix p w = None \<Longrightarrow> strip_prefix p (w @ CHR '' '' # s) = None"
  by (induction p w rule: strip_prefix.induct) (auto simp: is_space_def split: if_splits)

lemma parse_from_render:
  assumes st: "plain_stage st"
  shows "parse_from (join '' '' (from_args st)) = Some (stage_from st, stage_name st, stage_platform st)"
proof -
  define w where "w = stage_from st"
  define nm where "nm = (case stage_name st of None \<Rightarrow> [] | Some n \<Rightarrow> [''AS'', n])"
  define image where "image = join '' '' (w # nm)"
  have ws: "list_all word_ok (w # nm)" and w: "word_ok w" and np: "strip_prefix ''--platform='' w = None"
    using st by (auto simp: plain_stage_def w_def nm_def word_ok_def is_space_def backslash_def starts_with_def split: option.splits)
  have im: "split_whitespace image = w # nm" unfolding image_def using ws by (rule split_whitespace_join)
  have ti: "trim image = image" using join_words_text [OF _ ws] by (simp add: image_def text_ok_def)
  have tf: "trim (join '' '' (from_args st)) = join '' '' (from_args st)"
    using join_words_text from_args_words [OF st] by (simp add: text_ok_def)
  show ?thesis
  proof (cases "stage_platform st")
    case None
    then have f: "join '' '' (from_args st) = image" by (simp add: from_args_def image_def w_def nm_def)
    have "strip_prefix ''--platform='' image = None"
      using np w strip_prefix_spaced [of "''--platform=''" w]
      by (cases "nm = []") (simp_all add: image_def join_cons word_ok_def is_space_def del: strip_prefix.simps)
    then show ?thesis using im ti None unfolding parse_from_def f
      by (cases "stage_name st") (simp_all add: Let_def w_def nm_def keyword_upper del: strip_prefix.simps)
  next
    case (Some p)
    then have f: "join '' '' (from_args st) = ''--platform='' @ p @ CHR '' '' # image"
      by (simp add: from_args_def image_def w_def nm_def)
    have p: "list_all (\<lambda>c. \<not> is_space c) p" using st Some by (simp add: plain_stage_def word_ok_def)
    have "strip_prefix ''--platform='' (trim (''--platform='' @ p @ CHR '' '' # image)) = Some (p @ CHR '' '' # image)"
      using tf unfolding f by simp
    then show ?thesis using im ti Some takeWhile_word [OF p, of image] unfolding parse_from_def f
      by (cases "stage_name st") (simp_all add: Let_def w_def nm_def keyword_upper del: strip_prefix.simps append.simps)
  qed
qed

lemma parse_instructions_render:
  "list_all plain_instruction is \<Longrightarrow> parse_instructions js (map (\<lambda>i. render_line (render_args i)) is) = Inr is"
  by (induction "is") (simp_all add: parse_rendered)

lemma from_line: "is_from (render_line (''FROM'', a))" "drop 5 (render_line (''FROM'', a)) = a"
proof -
  have "to_uppercase (''FROM '' @ a) = to_uppercase ''FROM '' @ to_uppercase a" by (simp add: to_uppercase_def)
  then show "is_from (render_line (''FROM'', a))"
    by (simp add: is_from_def render_line_def keyword_upper starts_with_def)
qed (simp add: render_line_def)

lemma parse_block_render:
  assumes st: "plain_stage st"
  shows "parse_block js (stage_lines st) = Some (Inr st)"
proof -
  have t: "trim (join '' '' (from_args st)) = join '' '' (from_args st)"
    using join_words_text from_args_words [OF st] by (simp add: text_ok_def)
  have "list_all plain_instruction (instructions st)" using st by (simp add: plain_stage_def)
  then show ?thesis
    using from_line [of "join '' '' (from_args st)"] parse_from_render [OF st] t
    by (simp add: parse_block_def stage_lines_def is_from_def parse_instructions_render)
qed

lemma parse_blocks_render: "list_all plain_stage sts \<Longrightarrow> parse_blocks js (map stage_lines sts) = Some (Inr sts)"
  by (induction sts) (simp_all add: parse_block_render)

lemma stage_block:
  assumes "plain_stage st"
  shows "stage_lines st \<noteq> [] \<and> is_from (hd (stage_lines st)) \<and> (\<forall>l \<in> set (tl (stage_lines st)). \<not> is_from l)"
proof -
  have "\<not> is_from (render_line (render_args i))" if "i \<in> set (instructions st)" for i
    using that assms render_args_ok [of i] keyword_not_from [of "fst (render_args i)" "snd (render_args i)"]
    by (simp add: plain_stage_def list_all_iff render_line_def)
  then show ?thesis by (auto simp: stage_lines_def from_line)
qed

lemma stage_line_end:
  assumes st: "plain_stage st" and l: "l \<in> set (stage_lines st)"
  shows "last l \<noteq> backslash"
proof -
  consider "l = render_line (''FROM'', join '' '' (from_args st))"
    | i where "i \<in> set (instructions st)" "l = render_line (render_args i)"
    using l by (auto simp: stage_lines_def)
  then show ?thesis
  proof cases
    case 1
    then show ?thesis using join_words_text from_args_words [OF st]
      by (simp add: render_line_parts(4) known_keywords_def)
  next
    case 2
    then have "plain_instruction i" using st by (simp add: plain_stage_def list_all_iff)
    with 2 show ?thesis
      using render_line_parts(4) [of "fst (render_args i)" "snd (render_args i)"] render_args_ok [of i]
        in_set_butlastD [of "fst (render_args i)" known_keywords] by simp
  qed
qed

text \<open>
  C18: parsing a Dockerfile gives back the stages it was written from.  For any
  non-empty list of stages whose parts can be written as plain text, and any
  text whose lines, apart from white space at their ends, blank lines and
  comments, are the lines of these stages (one \<^verbatim>\<open>FROM\<close> line with its
  platform and name, then one line per instruction), \<^verbatim>\<open>Dockerfile::parse\<close>
  returns exactly these stages in this order, with every instruction in place:
  nothing is lost, merged or moved to another stage, whatever the JSON decoder does.
\<close>

theorem dockerfile_roundtrip:
  assumes "stages \<noteq> []" "list_all plain_stage stages"
    and "\<forall>r \<in> set raws. CHR 0x0A \<notin> set r"
    and lines: "code_lines raws = concat (map stage_lines stages)"
  shows "parse js (join [CHR 0x0A] raws) = Some (Inr stages)"
proof -
  have ends: "\<forall>l \<in> set (code_lines raws). last l \<noteq> backslash"
    using assms(2) stage_line_end by (auto simp: lines list_all_iff)
  have "raws \<noteq> []" using assms(1) lines stage_lines_def by (auto simp: code_lines_def)
  then have "preprocess_lines (join [CHR 0x0A] raws) = concat (map stage_lines stages)"
    using preprocess_lines_eq [OF _ assms(3) ends] by (simp add: lines)
  moreover have "\<forall>b \<in> set (map stage_lines stages). b \<noteq> [] \<and> is_from (hd b) \<and> (\<forall>l \<in> set (tl b). \<not> is_from l)"
    using assms(2) stage_block by (auto simp: list_all_iff)
  then have "split_into_blocks (concat (map stage_lines stages)) = map stage_lines stages"
    unfolding split_into_blocks_def by (subst blocks_loop_stages) simp_all
  ultimately show ?thesis
    using assms(1,2) by (simp add: parse_def parse_blocks_render)
qed

definition sample_stages :: "build_stage list" where
  "sample_stages =
    [\<lparr>stage_from = ''golang:1.22'', instructions = [WorkDir ''/src'', Copy [''go.mod'', ''go.sum''] ''./'',
        Run (shell_form ''go build -o /app'')], stage_name = Some ''build'', stage_platform = Some ''linux/amd64''\<rparr>,
     \<lparr>stage_from = ''alpine'', instructions = [Env ''PORT'' ''80'', Expose 80, Cmd (shell_form ''/app'')],
        stage_name = None, stage_platform = None\<rparr>]"

definition sample_dockerfile :: "string list" where
  "sample_dockerfile =
    [''# two stages'', ''FROM --platform=linux/amd64 golang:1.22 AS build'', ''  WORKDIR /src'',
     ''COPY go.mod go.sum ./ '', '''', ''RUN go build -o /app'', ''FROM alpine'', ''ENV PORT=80'', ''# port'',
     ''EXPOSE 80'', ''CMD /app'']"

theorem dockerfile_roundtrip_witness:
  "parse (\<lambda>s. Inl s) (join [CHR 0x0A] sample_dockerfile) = Some (Inr sample_stages)"
proof (rule dockerfile_roundtrip)
  show "sample_stages \<noteq> []" by code_simp
  show "list_all plain_stage sample_stages" by code_simp
  show "\<forall>r \<in> set sample_dockerfile. CHR 0x0A \<notin> set r" by code_simp
  show "code_lines sample_dockerfile = concat (map stage_lines sample_stages)" by code_simp
qed

section \<open>Observations\<close>

text \<open>A FROM line that has a platform and no image ends the process.\<close>

lemma from_platform_only_panics: "parse js ''FROM --platform=linux/amd64'' = None"
  by code_simp

text \<open>\<^verbatim>\<open>--from\<close> is dropped, and \<^verbatim>\<open>ADD\<close> is read as \<^verbatim>\<open>COPY\<close>.\<close>

lemma copy_from_dropped:
  "parse_instruction js ''COPY --from=build /app /bin/'' = parse_instruction js ''COPY /app /bin/''"
  "parse_instruction js ''ADD a b'' = Inr (Copy [''a''] ''b'')"
  by code_simp+

end
