(* ===== verification/Rust_Utf8.thy ===== *)
theory Rust_Utf8
  imports Wire Bloom_Filter
begin

text \<open>
  \<^verbatim>\<open>String::from_utf8_lossy\<close>: every maximal ill-formed part of the bytes
  becomes U+FFFD, and well-formed text is kept.
\<close>

definition second_ok :: "byte \<Rightarrow> byte \<Rightarrow> bool" where
  "second_ok b c \<longleftrightarrow>
    (if b = 0xE0 then 0xA0 \<le> c \<and> c \<le> 0xBF
     else if b = 0xED then 0x80 \<le> c \<and> c \<le> 0x9F
     else if b = 0xF0 then 0x90 \<le> c \<and> c \<le> 0xBF
     else if b = 0xF4 then 0x80 \<le> c \<and> c \<le> 0x8F
     else cont_byte c)"

definition byte_at :: "bytes \<Rightarrow> nat \<Rightarrow> byte" where
  "byte_at bs i = (if i < length bs then bs ! i else 0)"

text \<open>Whether the bytes start with a character, and the length of it or of the ill-formed part.\<close>

definition utf8_chunk :: "bytes \<Rightarrow> bool \<times> nat" where
  "utf8_chunk bs =
    (let b = byte_at bs 0
     in if b < 0x80 then (True, 1)
        else if 0xC2 \<le> b \<and> b \<le> 0xDF then
          (if cont_byte (byte_at bs 1) then (True, 2) else (False, 1))
        else if 0xE0 \<le> b \<and> b \<le> 0xEF then
          (if \<not> second_ok b (byte_at bs 1) then (False, 1)
           else if \<not> cont_byte (byte_at bs 2) then (False, 2) else (True, 3))
        else if 0xF0 \<le> b \<and> b \<le> 0xF4 then
          (if \<not> second_ok b (byte_at bs 1) then (False, 1)
           else if \<not> cont_byte (byte_at bs 2) then (False, 2)
           else if \<not> cont_byte (byte_at bs 3) then (False, 3) else (True, 4))
        else (False, 1))"

lemma utf8_chunk_pos [simp]: "snd (utf8_chunk bs) > 0"
  by (simp add: utf8_chunk_def Let_def)

function lossy_bytes :: "bytes \<Rightarrow> bytes" where
  "lossy_bytes bs =
    (if bs = [] then []
     else (if fst (utf8_chunk bs) then take (snd (utf8_chunk bs)) bs else [0xEF, 0xBF, 0xBD]) @
          lossy_bytes (drop (snd (utf8_chunk bs)) bs))"
  by pat_completeness auto
termination
  by (relation "measure length") auto

declare lossy_bytes.simps [simp del]

definition bytes_text :: "bytes \<Rightarrow> string" where
  "bytes_text bs = map (\<lambda>b. char_of (unat b)) bs"

definition from_utf8_lossy :: "bytes \<Rightarrow> string" where
  "from_utf8_lossy bs = bytes_text (lossy_bytes bs)"

lemma bytes_text_as_bytes [simp]: "bytes_text (as_bytes s) = s"
proof -
  have "char_of (unat (word_of_nat (of_char c) :: byte)) = c" for c
    by simp
  then show ?thesis by (simp add: bytes_text_def as_bytes_def comp_def map_idI)
qed

lemma utf8_valid_chunk:
  assumes "utf8_valid bs" "bs \<noteq> []"
  shows "fst (utf8_chunk bs) \<and> utf8_valid (drop (snd (utf8_chunk bs)) bs)"
proof -
  obtain b r where bs: "bs = b # r" using assms(2) by (cases bs) auto
  have b0: "byte_at bs 0 = b" by (simp add: bs byte_at_def)
  consider (one) "b < 0x80" | (two) "\<not> b < 0x80" "0xC2 \<le> b \<and> b \<le> 0xDF"
    | (three) "\<not> b < 0x80" "\<not> (0xC2 \<le> b \<and> b \<le> 0xDF)" "0xE0 \<le> b \<and> b \<le> 0xEF"
    | (four) "\<not> b < 0x80" "\<not> (0xC2 \<le> b \<and> b \<le> 0xDF)" "\<not> (0xE0 \<le> b \<and> b \<le> 0xEF)" "0xF0 \<le> b \<and> b \<le> 0xF4"
    using assms(1) by (auto simp: bs split: if_splits)
  then show ?thesis
  proof cases
    case one
    with assms(1) show ?thesis by (simp add: bs utf8_chunk_def byte_at_def)
  next
    case two
    with assms(1) obtain c1 r' where "r = c1 # r'" "cont_byte c1" "utf8_valid r'" by (auto simp: bs split: list.splits)
    with two show ?thesis by (simp add: bs utf8_chunk_def byte_at_def)
  next
    case three
    then have ne: "b \<noteq> 0xF0" "b \<noteq> 0xF4" by auto
    note v = assms(1) [unfolded bs utf8_valid.simps if_not_P [OF three(1)] if_not_P [OF three(2)] if_P [OF three(3)]]
    then obtain c1 c2 r' where r: "r = c1 # c2 # r'" by (auto split: list.splits)
    have "second_ok b c1 \<and> cont_byte c2 \<and> utf8_valid r'" using v ne by (simp add: r second_ok_def)
    moreover have "utf8_chunk bs = (if \<not> second_ok b c1 then (False, 1)
           else if \<not> cont_byte c2 then (False, 2) else (True, 3))"
      unfolding utf8_chunk_def Let_def b0 if_not_P [OF three(1)] if_not_P [OF three(2)] if_P [OF three(3)]
      by (simp add: bs r byte_at_def)
    ultimately show ?thesis by (simp add: bs r)
  next
    case four
    then have ne: "b \<noteq> 0xE0" "b \<noteq> 0xED" by auto
    note v = assms(1) [unfolded bs utf8_valid.simps if_not_P [OF four(1)] if_not_P [OF four(2)]
        if_not_P [OF four(3)] if_P [OF four(4)]]
    then obtain c1 c2 c3 r' where r: "r = c1 # c2 # c3 # r'" by (auto split: list.splits)
    have "second_ok b c1 \<and> cont_byte c2 \<and> cont_byte c3 \<and> utf8_valid r'" using v ne by (simp add: r second_ok_def)
    moreover have "utf8_chunk bs = (if \<not> second_ok b c1 then (False, 1)
           else if \<not> cont_byte c2 then (False, 2) else if \<not> cont_byte c3 then (False, 3) else (True, 4))"
      unfolding utf8_chunk_def Let_def b0 if_not_P [OF four(1)] if_not_P [OF four(2)] if_not_P [OF four(3)]
        if_P [OF four(4)]
      by (simp add: bs r byte_at_def)
    ultimately show ?thesis by (simp add: bs r)
  qed
qed

lemma lossy_valid: "utf8_valid bs \<Longrightarrow> lossy_bytes bs = bs"
proof (induction bs rule: lossy_bytes.induct)
  case (1 bs)
  show ?case
  proof (cases "bs = []")
    case False
    with 1 utf8_valid_chunk [of bs] show ?thesis by (simp add: lossy_bytes.simps [of bs])
  qed (simp add: lossy_bytes.simps)
qed

lemma utf8_valid_append: "utf8_valid a \<Longrightarrow> utf8_valid b \<Longrightarrow> utf8_valid (a @ b)"
proof (induction a rule: length_induct)
  case (1 a)
  show ?case
  proof (cases a)
    case (Cons x r)
    have IH: "utf8_valid c \<Longrightarrow> length c < length a \<Longrightarrow> utf8_valid (c @ b)" for c using 1 by blast
    have v: "utf8_valid (x # r)" using 1(2) Cons by simp
    show ?thesis
    proof (cases "x < 0x80")
      case True
      then show ?thesis using v IH [of r] by (simp add: Cons)
    next
      case f: False
      note v1 = v [unfolded utf8_valid.simps if_not_P [OF f]]
      show ?thesis
      proof (cases "0xC2 \<le> x \<and> x \<le> 0xDF")
        case True
        note v2 = v1 [unfolded if_P [OF True]]
        then obtain c1 r' where r: "r = c1 # r'" by (cases r) auto
        show ?thesis unfolding Cons append.simps utf8_valid.simps if_not_P [OF f] if_P [OF True]
          using v2 IH [of r'] by (simp add: r Cons)
      next
        case f2: False
        note v2 = v1 [unfolded if_not_P [OF f2]]
        show ?thesis
        proof (cases "0xE0 \<le> x \<and> x \<le> 0xEF")
          case True
          note v3 = v2 [unfolded if_P [OF True]]
          then obtain c1 c2 r' where r: "r = c1 # c2 # r'" by (auto split: list.splits)
          show ?thesis unfolding Cons append.simps utf8_valid.simps if_not_P [OF f] if_not_P [OF f2] if_P [OF True]
            using v3 IH [of r'] by (simp add: r Cons)
        next
          case f3: False
          note v3 = v2 [unfolded if_not_P [OF f3]]
          then have T: "0xF0 \<le> x \<and> x \<le> 0xF4" by (meson)
          note v4 = v3 [unfolded if_P [OF T]]
          then obtain c1 c2 c3 r' where r: "r = c1 # c2 # c3 # r'" by (auto split: list.splits)
          show ?thesis
            unfolding Cons append.simps utf8_valid.simps if_not_P [OF f] if_not_P [OF f2] if_not_P [OF f3] if_P [OF T]
            using v4 IH [of r'] by (simp add: r Cons)
        qed
      qed
    qed
  qed (use 1 in simp)
qed

lemma lossy_text [simp]: "utf8_valid (as_bytes s) \<Longrightarrow> from_utf8_lossy (as_bytes s) = s"
  by (simp add: from_utf8_lossy_def lossy_valid)

end
