(* ===== verification/Converter.thy ===== *)
theory Converter
  imports Oci_Types Store_Laws Rust_Utf8
begin

text \<open>
  From an OCI image to nodes of the store, \<^verbatim>\<open>pullrun-oci/src/converter.rs\<close>:
  directory entries and their line format, the three passes over a layer archive,
  whiteouts, the tree nodes of a layer and the manifest node.  The archive reader
  of the \<^verbatim>\<open>tar\<close> crate, the decompressors and the JSON text codec are
  fields of the parameter record \<open>conv_env\<close>.  The recursion over directories need
  not end; it has fuel, and \<open>None\<close> when the fuel is used up.
\<close>

section \<open>Directory entries\<close>

record directory_entry =
  de_name :: string
  de_digest :: digest
  de_mode :: u32
  de_size :: u64
  de_uid :: u32
  de_gid :: u32
  de_mtime :: u64
  de_is_dir :: bool
  de_is_symlink :: bool
  de_symlink_target :: "string option"
  de_xattrs :: "(string \<times> bytes) list"

definition int_to_string :: "int \<Rightarrow> string" where
  "int_to_string i = (if i < 0 then CHR ''-'' # nat_to_string (nat (- i)) else nat_to_string (nat i))"

definition jnat :: "nat \<Rightarrow> json" where "jnat n = JNumber (nat_to_string n)"

text \<open>The derived serializer of \<^verbatim>\<open>SerializedEntry\<close>; a digest is its hex text.\<close>

definition entry_to_json :: "ext \<Rightarrow> directory_entry \<Rightarrow> json" where
  "entry_to_json E e = JObject
    [(''name'', JString (de_name e)),
     (''digest'', JString (as_hex E (de_digest e))),
     (''mode'', jnat (unat (de_mode e))),
     (''size'', jnat (unat (de_size e))),
     (''uid'', jnat (unat (de_uid e))),
     (''gid'', jnat (unat (de_gid e))),
     (''mtime'', JNumber (int_to_string (sint (de_mtime e)))),
     (''is_dir'', JBool (de_is_dir e)),
     (''is_symlink'', JBool (de_is_symlink e)),
     (''symlink_target'', case de_symlink_target e of None \<Rightarrow> JNull | Some t \<Rightarrow> JString t),
     (''xattrs'', JObject (map (\<lambda>(k, v). (k, JArray (map (\<lambda>b. jnat (unat b)) v))) (de_xattrs e)))]"

fun json_string :: "json \<Rightarrow> string option" where
  "json_string (JString s) = Some s"
| "json_string _ = None"

fun json_bool :: "json \<Rightarrow> bool option" where
  "json_bool (JBool b) = Some b"
| "json_bool _ = None"

fun json_u32 :: "json \<Rightarrow> u32 option" where
  "json_u32 (JNumber t) = parse_u32 t"
| "json_u32 _ = None"

fun json_u64 :: "json \<Rightarrow> u64 option" where
  "json_u64 (JNumber t) = parse_u64 t"
| "json_u64 _ = None"

fun json_u8 :: "json \<Rightarrow> byte option" where
  "json_u8 (JNumber t) = map_option word_of_nat (parse_radix dec_digit 10 256 t)"
| "json_u8 _ = None"

fun json_i64 :: "json \<Rightarrow> u64 option" where
  "json_i64 (JNumber t) =
    (if t \<noteq> [] \<and> hd t = CHR ''-''
     then map_option (\<lambda>n. word_of_int (- int n)) (parse_radix dec_digit 10 9223372036854775809 (tl t))
     else map_option word_of_nat (parse_radix dec_digit 10 9223372036854775808 t))"
| "json_i64 _ = None"

fun json_bytes :: "json \<Rightarrow> bytes option" where
  "json_bytes (JArray js) = those (map json_u8 js)"
| "json_bytes _ = None"

fun json_xattrs :: "json \<Rightarrow> (string \<times> bytes) list option" where
  "json_xattrs (JObject fs) =
    those (map (\<lambda>(k, j). map_option (Pair k) (json_bytes j)) fs)"
| "json_xattrs _ = None"

definition json_digest :: "ext \<Rightarrow> json \<Rightarrow> digest option" where
  "json_digest E j =
    (case json_string j of
       None \<Rightarrow> None
     | Some s \<Rightarrow> (case from_hex E s of Inl _ \<Rightarrow> None | Inr d \<Rightarrow> Some d))"

definition ENTRY_FIELDS :: "string list" where
  "ENTRY_FIELDS = [''name'', ''digest'', ''mode'', ''size'', ''uid'', ''gid'', ''mtime'', ''is_dir'', ''is_symlink'',
     ''symlink_target'', ''xattrs'']"

definition need :: "(string \<times> json) list \<Rightarrow> string \<Rightarrow> (json \<Rightarrow> 'a option) \<Rightarrow> 'a option" where
  "need fs k de = (case map_of fs k of None \<Rightarrow> None | Some j \<Rightarrow> de j)"

definition need_opt :: "(string \<times> json) list \<Rightarrow> string \<Rightarrow> (json \<Rightarrow> 'a option) \<Rightarrow> 'a option option" where
  "need_opt fs k de =
    (case map_of fs k of None \<Rightarrow> Some None | Some JNull \<Rightarrow> Some None | Some j \<Rightarrow> map_option Some (de j))"

text \<open>
  The derived deserializer: a field without a default must be there, an optional
  one may be missing or null, \<^verbatim>\<open>xattrs\<close> has a default, and a field that
  occurs twice is an error.
\<close>

definition entry_of_json :: "ext \<Rightarrow> json \<Rightarrow> directory_entry option" where
  "entry_of_json E j =
    (case j of
       JObject fs \<Rightarrow>
         if \<not> distinct (filter (\<lambda>k. k \<in> set ENTRY_FIELDS) (map fst fs)) then None
         else
           (case (need fs ''name'' json_string, need fs ''digest'' (json_digest E), need fs ''mode'' json_u32,
                  need fs ''size'' json_u64, need fs ''uid'' json_u32, need fs ''gid'' json_u32,
                  need fs ''mtime'' json_i64, need fs ''is_dir'' json_bool, need fs ''is_symlink'' json_bool,
                  need_opt fs ''symlink_target'' json_string,
                  case map_of fs ''xattrs'' of None \<Rightarrow> Some [] | Some x \<Rightarrow> json_xattrs x) of
              (Some n, Some d, Some m, Some sz, Some u, Some g, Some t, Some dir, Some sl, Some tgt, Some xs) \<Rightarrow>
                Some \<lparr>de_name = n, de_digest = d, de_mode = m, de_size = sz, de_uid = u, de_gid = g,
                      de_mtime = t, de_is_dir = dir, de_is_symlink = sl, de_symlink_target = tgt, de_xattrs = xs\<rparr>
            | _ \<Rightarrow> None)
     | _ \<Rightarrow> None)"

section \<open>Environment\<close>

datatype entry_type = RegularFile | Directory | SymbolicLink | HardLink | OtherType

record tar_header =
  th_type :: entry_type
  th_mode :: u32
  th_size :: u64
  th_uid :: u64
  th_gid :: u64
  th_mtime :: u64
  th_link :: "string option"

record tar_entry =
  te_path :: "string + string"
  te_header :: "string + tar_header"
  te_pax :: "(string \<times> bytes) option list"
  te_data :: "string + bytes"

record manifest_data =
  md_entrypoint :: "string list"
  md_cmd :: "string list"
  md_env :: "string list"
  md_working_dir :: "string option"
  md_architecture :: string
  md_os :: string
  md_annotations :: "str_map option"
  md_subject :: "oci_descriptor option"
  md_user :: "string option"
  md_stop_signal :: "string option"
  md_exposed_ports :: "string list option"
  md_volumes :: "string list option"
  md_variant :: "string option"

record conv_env =
  tar_entries :: "bytes \<Rightarrow> string + (string + tar_entry) list"
  zstd_decode :: "bytes \<Rightarrow> string + bytes"
  gzip_decode :: "bytes \<Rightarrow> string + bytes"
  json_to_vec :: "json \<Rightarrow> bytes"
  json_from_slice :: "bytes \<Rightarrow> json option"
  json_pretty :: "json \<Rightarrow> bytes"
  manifest_to_vec :: "manifest_data \<Rightarrow> bytes"
  manifest_from_slice :: "bytes \<Rightarrow> string + manifest_data"

definition NEWLINE :: byte where "NEWLINE = 10"

definition to_inline_bytes :: "ext \<Rightarrow> conv_env \<Rightarrow> directory_entry \<Rightarrow> bytes" where
  "to_inline_bytes E C e = json_to_vec C (entry_to_json E e) @ [NEWLINE]"

fun entries_of_lines :: "ext \<Rightarrow> conv_env \<Rightarrow> bytes list \<Rightarrow> directory_entry list" where
  "entries_of_lines E C [] = []"
| "entries_of_lines E C (line # rest) =
    (if line = [] then entries_of_lines E C rest
     else case json_from_slice C line of
            None \<Rightarrow> entries_of_lines E C rest
          | Some j \<Rightarrow> (case entry_of_json E j of
                         None \<Rightarrow> entries_of_lines E C rest
                       | Some e \<Rightarrow> e # entries_of_lines E C rest))"

definition from_inline_bytes :: "ext \<Rightarrow> conv_env \<Rightarrow> bytes \<Rightarrow> directory_entry list" where
  "from_inline_bytes E C data = entries_of_lines E C (split_on NEWLINE data)"

section \<open>Reading a layer archive\<close>

definition split_path :: "string \<Rightarrow> string \<times> string" where
  "split_path path0 =
    (let path = rev (dropWhile (\<lambda>c. c = CHR ''/'') (rev path0))
     in case rsplit_once (CHR ''/'') path of Some (parent, name) \<Rightarrow> (parent, name) | None \<Rightarrow> ([], path))"

definition decompress_layer :: "conv_env \<Rightarrow> bytes \<Rightarrow> string \<Rightarrow> oci_error + bytes" where
  "decompress_layer C blob mt =
    (if contains_str mt ''+zstd'' \<or> contains_str mt ''.tar.zstd''
     then (case zstd_decode C blob of Inl e \<Rightarrow> Inl (Other e) | Inr b \<Rightarrow> Inr b)
     else if contains_str mt ''+gzip'' \<or> contains_str mt ''.tar.gzip''
     then (case gzip_decode C blob of Inl e \<Rightarrow> Inl (Other e) | Inr b \<Rightarrow> Inr b)
     else Inr blob)"

datatype whiteout_entry = DeleteEntry string | OpaqueEntry string

record raw_entry =
  re_path :: string
  re_parent :: string
  re_name :: string
  re_mode :: u32
  re_size :: u64
  re_uid :: u32
  re_gid :: u32
  re_mtime :: u64
  re_is_dir :: bool
  re_is_symlink :: bool
  re_symlink_target :: "string option"
  re_is_hardlink :: bool
  re_hardlink_target :: "string option"
  re_digest :: digest
  re_xattrs :: "(string \<times> bytes) list"

record scan_state =
  raw_entries :: "raw_entry list"
  path_to_digest :: "(string \<times> digest) list"
  whiteouts :: "whiteout_entry list"

definition collect_xattrs :: "(string \<times> bytes) option list \<Rightarrow> (string \<times> bytes) list" where
  "collect_xattrs pax = fold (\<lambda>x m. case x of
      None \<Rightarrow> m
    | Some (key, v) \<Rightarrow> (case strip_prefix ''SCHILY.xattr.'' key of
                          None \<Rightarrow> m
                        | Some name \<Rightarrow> if utf8_valid (as_bytes name) then AList.update name v m else m)) pax []"

definition whiteout_of :: "string \<Rightarrow> string \<Rightarrow> whiteout_entry" where
  "whiteout_of parent name =
    (if name = ''.wh..wh..opq'' then OpaqueEntry (if parent = [] then ''/'' else parent)
     else (let deleted = drop 4 name
           in DeleteEntry (if parent = [] then deleted else parent @ ''/'' @ deleted)))"

text \<open>The digest an entry gets in the first pass, its content being stored when it has one.\<close>

definition store_content ::
    "ext \<Rightarrow> tar_entry \<Rightarrow> tar_header \<Rightarrow> string \<Rightarrow> (string \<times> digest) list \<Rightarrow> mmap_store \<Rightarrow>
     (oci_error + digest \<times> (string \<times> digest) list) \<times> mmap_store" where
  "store_content E te h path ptd s =
    (if th_type h = Directory \<or> th_type h = SymbolicLink then (Inr (ZERO, ptd), s)
     else
       (case te_data te of
          Inl e \<Rightarrow> (Inl (OciIo e), s)
        | Inr data \<Rightarrow>
            (case put_blocking E s (blob_node data) of
               (Inl e, s1) \<Rightarrow> (Inl (OciStore e), s1)
             | (Inr d, s1) \<Rightarrow>
                 (if th_size h > SMALL_FILE_THRESHOLD
                  then (case put_blob_blocking s1 d data of
                          (Inl e, s2) \<Rightarrow> (Inl (OciStore e), s2)
                        | (Inr _, s2) \<Rightarrow> (Inr (d, AList.update path d ptd), s2))
                  else (Inr (d, AList.update path d ptd), s1)))))"

fun scan_entries ::
    "ext \<Rightarrow> (string + tar_entry) list \<Rightarrow> scan_state \<Rightarrow> mmap_store \<Rightarrow> (oci_error + scan_state) \<times> mmap_store" where
  "scan_entries E [] st s = (Inr st, s)"
| "scan_entries E (Inl e # tes) st s = (Inl (OciIo e), s)"
| "scan_entries E (Inr te # tes) st s =
    (case te_path te of
       Inl e \<Rightarrow> (Inl (OciIo e), s)
     | Inr path \<Rightarrow>
         if path = ''.'' \<or> path = [] \<or> contains_str path ''..'' then scan_entries E tes st s
         else
           (case te_header te of
              Inl e \<Rightarrow> (Inl (OciIo e), s)
            | Inr h \<Rightarrow>
                (case split_path path of (parent, name) \<Rightarrow>
                   if th_type h \<noteq> Directory \<and> starts_with name ''.wh.''
                   then scan_entries E tes (st\<lparr>whiteouts := whiteouts st @ [whiteout_of parent name]\<rparr>) s
                   else
                     (case store_content E te h path (path_to_digest st) s of
                        (Inl e, s1) \<Rightarrow> (Inl e, s1)
                      | (Inr (d, ptd), s1) \<Rightarrow>
                          scan_entries E tes
                            (st\<lparr>path_to_digest := ptd,
                                raw_entries := raw_entries st @
                                  [\<lparr>re_path = path, re_parent = parent, re_name = name, re_mode = th_mode h,
                                    re_size = th_size h, re_uid = ucast (th_uid h), re_gid = ucast (th_gid h),
                                    re_mtime = th_mtime h, re_is_dir = (th_type h = Directory),
                                    re_is_symlink = (th_type h = SymbolicLink),
                                    re_symlink_target = (if th_type h = SymbolicLink then th_link h else None),
                                    re_is_hardlink = (th_type h = HardLink),
                                    re_hardlink_target = (if th_type h = HardLink then th_link h else None),
                                    re_digest = d, re_xattrs = collect_xattrs (te_pax te)\<rparr>]\<rparr>)
                            s1))))"

section \<open>Hard links\<close>

text \<open>
  The second pass; the positions whose target is unknown are deferred.
\<close>

fun link_pass ::
    "nat \<Rightarrow> raw_entry list \<Rightarrow> (string \<times> digest) list \<Rightarrow> raw_entry list \<times> (string \<times> digest) list \<times> nat list" where
  "link_pass i [] ptd = ([], ptd, [])"
| "link_pass i (r # rs) ptd =
    (case (if re_is_hardlink r then re_hardlink_target r else None) of
       None \<Rightarrow> (case link_pass (Suc i) rs ptd of (rs', ptd', def) \<Rightarrow> (r # rs', ptd', def))
     | Some target \<Rightarrow>
         (case map_of ptd target of
            Some d \<Rightarrow>
              (case link_pass (Suc i) rs (AList.update (re_path r) d ptd) of
                 (rs', ptd', def) \<Rightarrow> (r\<lparr>re_digest := d\<rparr> # rs', ptd', def))
          | None \<Rightarrow> (case link_pass (Suc i) rs ptd of (rs', ptd', def) \<Rightarrow> (r # rs', ptd', i # def))))"

text \<open>The third pass: one round over the deferred positions, and at most as many rounds as there are.\<close>

fun retry_round :: "(string \<times> digest) list \<Rightarrow> nat list \<Rightarrow> raw_entry list \<Rightarrow> raw_entry list \<times> nat list" where
  "retry_round ptd [] rs = (rs, [])"
| "retry_round ptd (i # is) rs =
    (case re_hardlink_target (rs ! i) of
       None \<Rightarrow> retry_round ptd is rs
     | Some target \<Rightarrow>
         (case map_of ptd target of
            Some d \<Rightarrow> retry_round ptd is (rs[i := (rs ! i)\<lparr>re_digest := d\<rparr>])
          | None \<Rightarrow> (case retry_round ptd is rs of (rs', still) \<Rightarrow> (rs', i # still))))"

fun retry_loop :: "nat \<Rightarrow> (string \<times> digest) list \<Rightarrow> nat list \<Rightarrow> raw_entry list \<Rightarrow> raw_entry list" where
  "retry_loop 0 ptd def rs = rs"
| "retry_loop (Suc n) ptd def rs =
    (if def = [] then rs
     else case retry_round ptd def rs of (rs', still) \<Rightarrow> retry_loop n ptd still rs')"

section \<open>Entries and the directory index\<close>

type_synonym dir_index = "(string \<times> nat list) list"

definition or_default :: "string \<Rightarrow> dir_index \<Rightarrow> dir_index" where
  "or_default k ix = (case map_of ix k of None \<Rightarrow> AList.update k [] ix | Some _ \<Rightarrow> ix)"

definition push_index :: "string \<Rightarrow> nat \<Rightarrow> dir_index \<Rightarrow> dir_index" where
  "push_index k i ix =
    AList.update k ((case map_of ix k of None \<Rightarrow> [] | Some is \<Rightarrow> is) @ [i]) ix"

definition entry_of_raw :: "raw_entry \<Rightarrow> digest \<Rightarrow> directory_entry" where
  "entry_of_raw r d =
    \<lparr>de_name = re_name r, de_digest = d, de_mode = re_mode r, de_size = re_size r, de_uid = re_uid r,
     de_gid = re_gid r, de_mtime = re_mtime r, de_is_dir = re_is_dir r, de_is_symlink = re_is_symlink r,
     de_symlink_target = re_symlink_target r, de_xattrs = re_xattrs r\<rparr>"

definition index_raw :: "raw_entry \<Rightarrow> nat \<Rightarrow> dir_index \<Rightarrow> dir_index" where
  "index_raw r i ix =
    (let ix1 = push_index (re_parent r) i ix
     in if re_is_dir r
        then or_default (if re_path r \<noteq> [] \<and> last (re_path r) = CHR ''/'' then re_path r else re_path r @ ''/'')
               (or_default (re_path r) ix1)
        else ix1)"

fun build_entries ::
    "ext \<Rightarrow> raw_entry list \<Rightarrow> directory_entry list \<Rightarrow> dir_index \<Rightarrow> mmap_store \<Rightarrow>
     (oci_error + directory_entry list \<times> dir_index) \<times> mmap_store" where
  "build_entries E [] es ix s = (Inr (es, ix), s)"
| "build_entries E (r # rs) es ix s =
    (case (if re_digest r = ZERO
           then (case put_blocking E s (blob_node []) of (Inl e, s1) \<Rightarrow> (Inl (OciStore e), s1) | (Inr d, s1) \<Rightarrow> (Inr d, s1))
           else (Inr (re_digest r), s)) of
       (Inl e, s1) \<Rightarrow> (Inl e, s1)
     | (Inr d, s1) \<Rightarrow>
         build_entries E rs (es @ [entry_of_raw r d]) (index_raw r (length es) ix) s1)"

definition extract_tar_entries_sync ::
    "ext \<Rightarrow> conv_env \<Rightarrow> bytes \<Rightarrow> mmap_store \<Rightarrow>
     (oci_error + directory_entry list \<times> dir_index \<times> whiteout_entry list) \<times> mmap_store" where
  "extract_tar_entries_sync E C blob s =
    (case tar_entries C blob of
       Inl e \<Rightarrow> (Inl (OciIo e), s)
     | Inr tes \<Rightarrow>
         (case scan_entries E tes \<lparr>raw_entries = [], path_to_digest = [], whiteouts = []\<rparr> s of
            (Inl e, s1) \<Rightarrow> (Inl e, s1)
          | (Inr st, s1) \<Rightarrow>
              (case link_pass 0 (raw_entries st) (path_to_digest st) of
                 (rs, ptd, def) \<Rightarrow>
                   (case build_entries E (retry_loop (length def) ptd def rs) [] [] s1 of
                      (Inl e, s2) \<Rightarrow> (Inl e, s2)
                    | (Inr (es, ix), s2) \<Rightarrow> (Inr (es, ix, whiteouts st), s2)))))"

section \<open>Nodes of a layer\<close>

text \<open>The children of one directory, \<open>rec\<close> storing the subdirectory at a path.\<close>

fun store_children ::
    "(string \<Rightarrow> mmap_store \<Rightarrow> ((oci_error + digest) \<times> mmap_store) option) \<Rightarrow> directory_entry list \<Rightarrow> string \<Rightarrow>
     nat list \<Rightarrow> mmap_store \<Rightarrow> ((oci_error + digest list \<times> directory_entry list) \<times> mmap_store) option" where
  "store_children rec es current [] s = Some (Inr ([], []), s)"
| "store_children rec es current (i # is) s =
    (let e = es ! i
     in case (if de_is_dir e
              then rec (if current = [] then de_name e else current @ ''/'' @ de_name e) s
              else Some (Inr (de_digest e), s)) of
          None \<Rightarrow> None
        | Some (Inl err, s1) \<Rightarrow> Some (Inl err, s1)
        | Some (Inr d, s1) \<Rightarrow>
            (case store_children rec es current is s1 of
               None \<Rightarrow> None
             | Some (Inl err, s2) \<Rightarrow> Some (Inl err, s2)
             | Some (Inr (ds, ces), s2) \<Rightarrow> Some (Inr (d # ds, e # ces), s2)))"

primrec store_trees ::
    "nat \<Rightarrow> ext \<Rightarrow> conv_env \<Rightarrow> dir_index \<Rightarrow> directory_entry list \<Rightarrow> string \<Rightarrow> mmap_store \<Rightarrow>
     ((oci_error + digest) \<times> mmap_store) option" where
  "store_trees 0 E C ix es current s = None"
| "store_trees (Suc n) E C ix es current s =
    (case store_children (store_trees n E C ix es) es current
            (case map_of ix current of None \<Rightarrow> [] | Some is \<Rightarrow> is) s of
       None \<Rightarrow> None
     | Some (Inl err, s1) \<Rightarrow> Some (Inl err, s1)
     | Some (Inr (child_digests, child_entries), s1) \<Rightarrow>
         (case put E s1 (tree_node child_digests (concat (map (to_inline_bytes E C) child_entries))) of
            (Inl err, s2) \<Rightarrow> Some (Inl (OciStore err), s2)
          | (Inr tree_digest, s2) \<Rightarrow>
              (case put E s2 (layer_node [tree_digest] (as_bytes current)) of
                 (Inl err, s3) \<Rightarrow> Some (Inl (OciStore err), s3)
               | (Inr d, s3) \<Rightarrow> Some (Inr d, s3))))"

fun put_whiteouts :: "ext \<Rightarrow> whiteout_entry list \<Rightarrow> mmap_store \<Rightarrow> (oci_error + digest list) \<times> mmap_store" where
  "put_whiteouts E [] s = (Inr [], s)"
| "put_whiteouts E (w # ws) s =
    (case put_blocking E s (case w of DeleteEntry p \<Rightarrow> whiteout_node (as_bytes p)
                                    | OpaqueEntry p \<Rightarrow> opaque_dir_node (as_bytes p)) of
       (Inl e, s1) \<Rightarrow> (Inl (OciStore e), s1)
     | (Inr d, s1) \<Rightarrow>
         (case put_whiteouts E ws s1 of (Inl e, s2) \<Rightarrow> (Inl e, s2) | (Inr ds, s2) \<Rightarrow> (Inr (d # ds), s2)))"

definition convert_layer ::
    "nat \<Rightarrow> ext \<Rightarrow> conv_env \<Rightarrow> bytes \<Rightarrow> string \<Rightarrow> mmap_store \<Rightarrow> ((oci_error + digest) \<times> mmap_store) option" where
  "convert_layer n E C blob mt s =
    (case decompress_layer C blob mt of
       Inl e \<Rightarrow> Some (Inl e, s)
     | Inr tar \<Rightarrow>
         (case extract_tar_entries_sync E C tar s of
            (Inl e, s1) \<Rightarrow> Some (Inl e, s1)
          | (Inr (es, ix, ws), s1) \<Rightarrow>
              (case put_whiteouts E ws s1 of
                 (Inl e, s2) \<Rightarrow> Some (Inl e, s2)
               | (Inr wds, s2) \<Rightarrow>
                   (case store_trees n E C ix es [] s2 of
                      None \<Rightarrow> None
                    | Some (Inl e, s3) \<Rightarrow> Some (Inl e, s3)
                    | Some (Inr d, s3) \<Rightarrow>
                        if wds = [] then Some (Inr d, s3)
                        else (case get_deserialized E s3 d of
                                (Inl e, s4) \<Rightarrow> Some (Inl (OciStore e), s4)
                              | (Inr ln, s4) \<Rightarrow>
                                  (case put E s4 (ln\<lparr>edges := edges ln @ wds\<rparr>) of
                                     (Inl e, s5) \<Rightarrow> Some (Inl (OciStore e), s5)
                                   | (Inr d', s5) \<Rightarrow> Some (Inr d', s5)))))))"

section \<open>Manifests\<close>

definition manifest_data_of ::
    "oci_image_config \<Rightarrow> str_map option \<Rightarrow> oci_descriptor option \<Rightarrow> manifest_data" where
  "manifest_data_of cfg annotations subj =
    (let rc = runtime_config cfg;
         opt = (\<lambda>f. case rc of None \<Rightarrow> None | Some c \<Rightarrow> f c)
     in \<lparr>md_entrypoint = (case opt entrypoint of None \<Rightarrow> [] | Some x \<Rightarrow> x),
         md_cmd = (case opt cmd of None \<Rightarrow> [] | Some x \<Rightarrow> x),
         md_env = (case opt env of None \<Rightarrow> [] | Some x \<Rightarrow> x),
         md_working_dir = (case rc of None \<Rightarrow> None | Some c \<Rightarrow> working_dir c),
         md_architecture = cfg_architecture cfg,
         md_os = cfg_os cfg,
         md_annotations = annotations,
         md_subject = subj,
         md_user = (case rc of None \<Rightarrow> None | Some c \<Rightarrow> user c),
         md_stop_signal = (case rc of None \<Rightarrow> None | Some c \<Rightarrow> stop_signal c),
         md_exposed_ports = (case rc of None \<Rightarrow> None | Some c \<Rightarrow> map_option (map fst) (exposed_ports c)),
         md_volumes = (case rc of None \<Rightarrow> None | Some c \<Rightarrow> map_option (map fst) (volumes c)),
         md_variant = cfg_variant cfg\<rparr>)"

definition create_manifest_node ::
    "ext \<Rightarrow> conv_env \<Rightarrow> oci_image_config \<Rightarrow> digest list \<Rightarrow> str_map option \<Rightarrow> oci_descriptor option \<Rightarrow>
     mmap_store \<Rightarrow> (oci_error + digest) \<times> mmap_store" where
  "create_manifest_node E C cfg layer_ds annotations subj s =
    (case put E s (manifest_node layer_ds (manifest_to_vec C (manifest_data_of cfg annotations subj))) of
       (Inl e, s1) \<Rightarrow> (Inl (OciStore e), s1)
     | (Inr d, s1) \<Rightarrow> (Inr d, s1))"

fun convert_layers ::
    "nat \<Rightarrow> ext \<Rightarrow> conv_env \<Rightarrow> (digest \<times> bytes \<times> string) list \<Rightarrow> mmap_store \<Rightarrow>
     ((oci_error + digest list) \<times> mmap_store) option" where
  "convert_layers n E C [] s = Some (Inr [], s)"
| "convert_layers n E C ((_, blob, mt) # ls) s =
    (case convert_layer n E C blob mt s of
       None \<Rightarrow> None
     | Some (Inl e, s1) \<Rightarrow> Some (Inl e, s1)
     | Some (Inr d, s1) \<Rightarrow>
         (case convert_layers n E C ls s1 of
            None \<Rightarrow> None
          | Some (Inl e, s2) \<Rightarrow> Some (Inl e, s2)
          | Some (Inr ds, s2) \<Rightarrow> Some (Inr (d # ds), s2)))"

definition convert ::
    "nat \<Rightarrow> ext \<Rightarrow> conv_env \<Rightarrow> pulled_image \<Rightarrow> mmap_store \<Rightarrow> ((oci_error + digest) \<times> mmap_store) option" where
  "convert n E C img s =
    (case convert_layers n E C (layer_blobs img) s of
       None \<Rightarrow> None
     | Some (Inl e, s1) \<Rightarrow> Some (Inl e, s1)
     | Some (Inr ds, s1) \<Rightarrow>
         Some (create_manifest_node E C (image_config img) ds
                 (manifest_annotations (manifest img)) (subject (manifest img)) s1))"

fun convert_all ::
    "nat \<Rightarrow> ext \<Rightarrow> conv_env \<Rightarrow> pulled_image list \<Rightarrow> mmap_store \<Rightarrow> ((oci_error + digest list) \<times> mmap_store) option" where
  "convert_all n E C [] s = Some (Inr [], s)"
| "convert_all n E C (img # imgs) s =
    (case convert n E C img s of
       None \<Rightarrow> None
     | Some (Inl e, s1) \<Rightarrow> Some (Inl e, s1)
     | Some (Inr d, s1) \<Rightarrow>
         (case convert_all n E C imgs s1 of
            None \<Rightarrow> None
          | Some (Inl e, s2) \<Rightarrow> Some (Inl e, s2)
          | Some (Inr ds, s2) \<Rightarrow> Some (Inr (d # ds), s2)))"

definition convert_list ::
    "nat \<Rightarrow> ext \<Rightarrow> conv_env \<Rightarrow> pulled_image_list \<Rightarrow> mmap_store \<Rightarrow> ((oci_error + digest) \<times> mmap_store) option" where
  "convert_list n E C l s =
    (case convert_all n E C (images l) s of
       None \<Rightarrow> None
     | Some (Inl e, s1) \<Rightarrow> Some (Inl e, s1)
     | Some (Inr ds, s1) \<Rightarrow>
         Some (case put E s1 (manifest_list_node ds (list_bytes l)) of
                 (Inl e, s2) \<Rightarrow> (Inl (OciStore e), s2)
               | (Inr d, s2) \<Rightarrow> (Inr d, s2)))"

section \<open>Entry lines\<close>

lemma json_u32_jnat [simp]: "json_u32 (jnat (unat w)) = Some w"
  by (simp add: jnat_def)

lemma json_u64_jnat [simp]: "json_u64 (jnat (unat w)) = Some w"
  by (simp add: jnat_def)

lemma json_u8_jnat [simp]: "json_u8 (jnat (unat w)) = Some w"
  using parse_radix_decimal [of "unat w" 256] unsigned_less [of w, where ?'a = nat] by (simp add: jnat_def)

lemma json_i64_int [simp]: "json_i64 (JNumber (int_to_string (sint w))) = Some w"
proof (cases "sint w < 0")
  case True
  have "- (2 ^ 63) \<le> sint w" using sint_ge [of w] by simp
  then have "nat (- sint w) < 9223372036854775809" by simp
  from parse_radix_decimal [OF this] True show ?thesis
    by (simp add: int_to_string_def)
next
  case False
  have "sint w < 2 ^ 63" using sint_lt [of w] by simp
  then have b: "nat (sint w) < 9223372036854775808" by simp
  have "hd (nat_to_string (nat (sint w))) \<noteq> CHR ''-''"
    using decimal_digit [of "hd (nat_to_string (nat (sint w)))" "nat (sint w)"]
    by (auto simp: is_ascii_digit_def code_def)
  with parse_radix_decimal [OF b] False show ?thesis by (simp add: int_to_string_def)
qed

lemma those_map_Some: "(\<And>x. x \<in> set xs \<Longrightarrow> f x = Some (g x)) \<Longrightarrow> those (map f xs) = Some (map g xs)"
  by (induction xs) simp_all

lemma json_bytes_array [simp]: "json_bytes (JArray (map (\<lambda>b. jnat (unat b)) v)) = Some v"
  using those_map_Some [of v "json_u8 \<circ> (\<lambda>b. jnat (unat b))" id] by (simp add: comp_def)

declare json_bytes.simps [simp del]

lemma json_xattrs_object:
  "json_xattrs (JObject (map (\<lambda>(k, v). (k, JArray (map (\<lambda>b. jnat (unat b)) v))) xs)) = Some xs"
proof -
  have "those (map ((\<lambda>(k, j). map_option (Pair k) (json_bytes j)) \<circ> (\<lambda>(k, v). (k, JArray (map (\<lambda>b. jnat (unat b)) v)))) xs) = Some (map id xs)"
    by (rule those_map_Some) auto
  then show ?thesis by simp
qed

declare json_i64.simps [simp del] json_xattrs.simps [simp del]

lemma json_digest_hex: "hex_ok E \<Longrightarrow> wf_digest d \<Longrightarrow> json_digest E (JString (as_hex E d)) = Some d"
  by (simp add: json_digest_def from_hex_as_hex)

lemma entry_json_roundtrip:
  assumes "hex_ok E" "wf_digest (de_digest e)"
  shows "entry_of_json E (entry_to_json E e) = Some e"
proof -
  have "distinct (filter (\<lambda>k. k \<in> set ENTRY_FIELDS) ENTRY_FIELDS)" by code_simp
  then show ?thesis
    using json_digest_hex [OF assms]
    by (cases "de_symlink_target e")
      (simp_all add: entry_of_json_def entry_to_json_def need_def need_opt_def json_xattrs_object ENTRY_FIELDS_def)
qed

text \<open>The JSON text codec on given values: decoding inverts encoding, on one non-empty line.\<close>

definition json_ok :: "conv_env \<Rightarrow> json list \<Rightarrow> bool" where
  "json_ok C js \<longleftrightarrow> list_all (\<lambda>j. json_from_slice C (json_to_vec C j) = Some j \<and> json_to_vec C j \<noteq> [] \<and>
      NEWLINE \<notin> set (json_to_vec C j)) js"

lemma entries_of_lines_append:
  "entries_of_lines E C (a @ b) = entries_of_lines E C a @ entries_of_lines E C b"
  by (induction a) (auto split: option.splits)

lemma split_on_lines:
  "\<forall>l \<in> set ls. c \<notin> set l \<Longrightarrow> split_on c (concat (map (\<lambda>l. l @ [c]) ls)) = ls @ [[]]"
  by (induction ls) (simp_all add: split_on_append)

lemma inline_roundtrip:
  assumes "hex_ok E" "list_all (\<lambda>e. wf_digest (de_digest e)) es" "json_ok C (map (entry_to_json E) es)"
  shows "from_inline_bytes E C (concat (map (to_inline_bytes E C) es)) = es"
proof -
  define ls where "ls = map (\<lambda>e. json_to_vec C (entry_to_json E e)) es"
  have "concat (map (to_inline_bytes E C) es) = concat (map (\<lambda>l. l @ [NEWLINE]) ls)"
    by (simp add: ls_def to_inline_bytes_def [abs_def] comp_def)
  moreover have "\<forall>l \<in> set ls. NEWLINE \<notin> set l" using assms(3) by (auto simp: ls_def json_ok_def list_all_iff)
  ultimately have "from_inline_bytes E C (concat (map (to_inline_bytes E C) es)) = entries_of_lines E C (ls @ [[]])"
    by (simp add: from_inline_bytes_def split_on_lines)
  also have "\<dots> = entries_of_lines E C ls" by (simp add: entries_of_lines_append)
  also have "\<dots> = es"
    unfolding ls_def using assms(2,3)
    by (induction es) (simp_all add: json_ok_def entry_json_roundtrip [OF assms(1)])
  finally show ?thesis .
qed

lemma inline_nonempty: "es \<noteq> [] \<Longrightarrow> concat (map (to_inline_bytes E C) es) \<noteq> []"
  by (cases es) (simp_all add: to_inline_bytes_def)

end
