(* ===== verification/Host_Fs.thy ===== *)
theory Host_Fs
  imports Rust_Text
begin

text \<open>
  The part of \<^verbatim>\<open>std::path\<close> and \<^verbatim>\<open>std::fs\<close> the image code calls, on a Unix
  file system.  A path is the list of its names below the root; the file system
  maps paths to nodes, the root directory being always there.  Lookups follow
  symbolic links as the kernel does, at most 40 of them.  Errors that do not come
  from the shape of the tree (permissions, a full disk) do not occur.
\<close>

type_synonym path = "string list"

datatype fs_node = File bytes | Dir | Link string

record file_attrs =
  a_mode :: "u32 option"
  a_owner :: "(u32 \<times> u32) option"
  a_mtime :: "u64 option"
  a_xattrs :: "(string \<times> bytes) list"

definition no_attrs :: file_attrs where
  "no_attrs = \<lparr>a_mode = None, a_owner = None, a_mtime = None, a_xattrs = []\<rparr>"

record host_fs =
  fs_nodes :: "(path \<times> fs_node) list"
  fs_attrs :: "(path \<times> file_attrs) list"

section \<open>Paths\<close>

definition path_comps :: "string \<Rightarrow> path" where
  "path_comps s = filter (\<lambda>c. c \<noteq> [] \<and> c \<noteq> ''.'') (split_on (CHR ''/'') s)"

text \<open>\<^verbatim>\<open>Path::join\<close>: an absolute argument replaces the path.\<close>

definition path_join :: "path \<Rightarrow> string \<Rightarrow> path" where
  "path_join base s = (if starts_with s ''/'' then path_comps s else base @ path_comps s)"

section \<open>Lookup\<close>

definition MAX_LINKS :: nat where "MAX_LINKS = 40"

definition fs_lookup :: "host_fs \<Rightarrow> path \<Rightarrow> fs_node option" where
  "fs_lookup fs p = (if p = [] then Some Dir else map_of (fs_nodes fs) p)"

text \<open>
  The path a lookup ends at, with the last name followed as well; \<open>None\<close> when a
  name on the way is missing or no directory, or there are too many links.  The
  last name itself may be missing.
\<close>

function resolve_from :: "host_fs \<Rightarrow> nat \<Rightarrow> path \<Rightarrow> path \<Rightarrow> path option" where
  "resolve_from fs n at [] = Some at"
| "resolve_from fs n at (c # cs) =
    (if c = ''..'' then resolve_from fs n (butlast at) cs
     else (case fs_lookup fs (at @ [c]) of
             Some (Link t) \<Rightarrow>
               if n = 0 then None
               else resolve_from fs (n - 1) (if starts_with t ''/'' then [] else at) (path_comps t @ cs)
           | Some Dir \<Rightarrow> resolve_from fs n (at @ [c]) cs
           | _ \<Rightarrow> if cs = [] then Some (at @ [c]) else None))"
  by pat_completeness auto
termination
  by (relation "inv_image (less_than <*lex*> less_than) (\<lambda>(fs, n, at, cs). (n, length cs))") auto

declare resolve_from.simps [simp del]

definition resolve :: "host_fs \<Rightarrow> path \<Rightarrow> path option" where
  "resolve fs p = resolve_from fs MAX_LINKS [] p"

text \<open>The same without following the last name.\<close>

definition resolve_parent :: "host_fs \<Rightarrow> path \<Rightarrow> path option" where
  "resolve_parent fs p =
    (if p = [] then None
     else case resolve fs (butlast p) of
            None \<Rightarrow> None
          | Some q \<Rightarrow> if fs_lookup fs q = Some Dir then Some (q @ [last p]) else None)"

definition is_dir_path :: "host_fs \<Rightarrow> path \<Rightarrow> bool" where
  "is_dir_path fs p \<longleftrightarrow> (case resolve fs p of None \<Rightarrow> False | Some q \<Rightarrow> fs_lookup fs q = Some Dir)"

section \<open>Operations\<close>

definition set_node :: "path \<Rightarrow> fs_node \<Rightarrow> host_fs \<Rightarrow> host_fs" where
  "set_node p x fs = fs\<lparr>fs_nodes := AList.update p x (fs_nodes fs)\<rparr>"

definition drop_node :: "path \<Rightarrow> host_fs \<Rightarrow> host_fs" where
  "drop_node p fs = fs\<lparr>fs_nodes := AList.delete p (fs_nodes fs), fs_attrs := AList.delete p (fs_attrs fs)\<rparr>"

definition is_below :: "path \<Rightarrow> path \<Rightarrow> bool" where
  "is_below p q \<longleftrightarrow> take (length p) q = p"

definition drop_tree :: "path \<Rightarrow> host_fs \<Rightarrow> host_fs" where
  "drop_tree p fs =
    fs\<lparr>fs_nodes := filter (\<lambda>(q, _). \<not> is_below p q) (fs_nodes fs),
       fs_attrs := filter (\<lambda>(q, _). \<not> is_below p q) (fs_attrs fs)\<rparr>"

definition child_names :: "host_fs \<Rightarrow> path \<Rightarrow> string list" where
  "child_names fs p = map last (filter (\<lambda>q. q \<noteq> [] \<and> butlast q = p) (map fst (fs_nodes fs)))"

definition mkdir :: "path \<Rightarrow> host_fs \<Rightarrow> (string + unit) \<times> host_fs" where
  "mkdir p fs =
    (case resolve_parent fs p of
       None \<Rightarrow> (Inl ''No such file or directory'', fs)
     | Some q \<Rightarrow> if fs_lookup fs q = None then (Inr (), set_node q Dir fs) else (Inl ''File exists'', fs))"

fun mkdir_prefixes :: "path \<Rightarrow> path \<Rightarrow> host_fs \<Rightarrow> (string + unit) \<times> host_fs" where
  "mkdir_prefixes at [] fs = (Inr (), fs)"
| "mkdir_prefixes at (c # cs) fs =
    (if is_dir_path fs (at @ [c]) then mkdir_prefixes (at @ [c]) cs fs
     else case mkdir (at @ [c]) fs of
            (Inl e, fs') \<Rightarrow> (Inl e, fs')
          | (Inr _, fs') \<Rightarrow> mkdir_prefixes (at @ [c]) cs fs')"

definition create_dir_all :: "path \<Rightarrow> host_fs \<Rightarrow> (string + unit) \<times> host_fs" where
  "create_dir_all p fs = mkdir_prefixes [] p fs"

definition write_file :: "path \<Rightarrow> bytes \<Rightarrow> host_fs \<Rightarrow> (string + unit) \<times> host_fs" where
  "write_file p data fs =
    (case resolve fs p of
       None \<Rightarrow> (Inl ''No such file or directory'', fs)
     | Some q \<Rightarrow>
         if fs_lookup fs q = Some Dir then (Inl ''Is a directory'', fs)
         else if fs_lookup fs (butlast q) \<noteq> Some Dir then (Inl ''No such file or directory'', fs)
         else (Inr (), set_node q (File data) fs))"

definition remove_file :: "path \<Rightarrow> host_fs \<Rightarrow> (string + unit) \<times> host_fs" where
  "remove_file p fs =
    (case resolve_parent fs p of
       None \<Rightarrow> (Inl ''No such file or directory'', fs)
     | Some q \<Rightarrow> (case fs_lookup fs q of
                    None \<Rightarrow> (Inl ''No such file or directory'', fs)
                  | Some Dir \<Rightarrow> (Inl ''Is a directory'', fs)
                  | Some _ \<Rightarrow> (Inr (), drop_node q fs)))"

definition remove_dir :: "path \<Rightarrow> host_fs \<Rightarrow> (string + unit) \<times> host_fs" where
  "remove_dir p fs =
    (case resolve_parent fs p of
       None \<Rightarrow> (Inl ''No such file or directory'', fs)
     | Some q \<Rightarrow>
         if fs_lookup fs q \<noteq> Some Dir then (Inl ''Not a directory'', fs)
         else if child_names fs q \<noteq> [] then (Inl ''Directory not empty'', fs)
         else (Inr (), drop_node q fs))"

text \<open>\<^verbatim>\<open>remove_dir_all\<close> unlinks a symbolic link and does not follow it.\<close>

definition remove_dir_all :: "path \<Rightarrow> host_fs \<Rightarrow> (string + unit) \<times> host_fs" where
  "remove_dir_all p fs =
    (case resolve_parent fs p of
       None \<Rightarrow> (Inl ''No such file or directory'', fs)
     | Some q \<Rightarrow> (case fs_lookup fs q of
                    None \<Rightarrow> (Inl ''No such file or directory'', fs)
                  | Some (File _) \<Rightarrow> (Inl ''Not a directory'', fs)
                  | Some _ \<Rightarrow> (Inr (), drop_tree q fs)))"

definition symlink :: "string \<Rightarrow> path \<Rightarrow> host_fs \<Rightarrow> (string + unit) \<times> host_fs" where
  "symlink target p fs =
    (case resolve_parent fs p of
       None \<Rightarrow> (Inl ''No such file or directory'', fs)
     | Some q \<Rightarrow> if fs_lookup fs q = None then (Inr (), set_node q (Link target) fs) else (Inl ''File exists'', fs))"

definition read_file :: "host_fs \<Rightarrow> path \<Rightarrow> bytes option" where
  "read_file fs p =
    (case resolve fs p of
       None \<Rightarrow> None
     | Some q \<Rightarrow> (case fs_lookup fs q of Some (File data) \<Rightarrow> Some data | _ \<Rightarrow> None))"

section \<open>Attributes\<close>

definition attrs_of :: "host_fs \<Rightarrow> path \<Rightarrow> file_attrs" where
  "attrs_of fs p = (case map_of (fs_attrs fs) p of None \<Rightarrow> no_attrs | Some a \<Rightarrow> a)"

definition set_attr :: "path option \<Rightarrow> (file_attrs \<Rightarrow> file_attrs) \<Rightarrow> host_fs \<Rightarrow> host_fs" where
  "set_attr q f fs =
    (case q of
       None \<Rightarrow> fs
     | Some p \<Rightarrow> if fs_lookup fs p = None then fs
                 else fs\<lparr>fs_attrs := AList.update p (f (attrs_of fs p)) (fs_attrs fs)\<rparr>)"

section \<open>Facts\<close>

lemma set_attr_nodes [simp]: "fs_nodes (set_attr q f fs) = fs_nodes fs"
  by (simp add: set_attr_def split: option.splits)

lemma fs_lookup_set_attr [simp]: "fs_lookup (set_attr q f fs) p = fs_lookup fs p"
  by (simp add: fs_lookup_def)

lemma fs_lookup_set_node [simp]:
  "fs_lookup (set_node p x fs) q = (if q = p \<and> p \<noteq> [] then Some x else fs_lookup fs q)"
  by (simp add: fs_lookup_def set_node_def)

lemma fs_lookup_root [simp]: "fs_lookup fs [] = Some Dir"
  by (simp add: fs_lookup_def)

text \<open>
  A path all of whose proper prefixes are directories, and that is no link
  itself, is where its lookup ends.
\<close>

definition dirs_above :: "host_fs \<Rightarrow> path \<Rightarrow> bool" where
  "dirs_above fs p \<longleftrightarrow> ''..'' \<notin> set p \<and> (\<forall>i < length p. fs_lookup fs (take i p) = Some Dir)"

lemma resolve_from_dirs:
  assumes "''..'' \<notin> set cs" "\<forall>i < length cs. fs_lookup fs (at @ take i cs) = Some Dir"
    and "\<nexists>t. fs_lookup fs (at @ cs) = Some (Link t)"
  shows "resolve_from fs n at cs = Some (at @ cs)"
  using assms
proof (induction cs arbitrary: at)
  case (Cons c cs)
  show ?case
  proof (cases "cs = []")
    case True
    with Cons.prems(1,3) show ?thesis by (auto simp: resolve_from.simps split: option.splits fs_node.splits)
  next
    case False
    have "fs_lookup fs (at @ [c]) = Some Dir" using Cons.prems(2) False by (auto dest: spec [of _ 1])
    moreover have "resolve_from fs n (at @ [c]) cs = Some ((at @ [c]) @ cs)"
    proof (rule Cons.IH)
      show "\<forall>i < length cs. fs_lookup fs ((at @ [c]) @ take i cs) = Some Dir"
        using Cons.prems(2) by (auto dest: spec [of _ "Suc _"])
    qed (use Cons.prems in auto)
    ultimately show ?thesis using Cons.prems(1) by (auto simp: resolve_from.simps)
  qed
qed (simp add: resolve_from.simps)

lemma resolve_dirs:
  "dirs_above fs p \<Longrightarrow> (\<nexists>t. fs_lookup fs p = Some (Link t)) \<Longrightarrow> resolve fs p = Some p"
  using resolve_from_dirs [of p fs "[]"] by (simp add: resolve_def dirs_above_def)

lemma dirs_above_butlast:
  "dirs_above fs p \<Longrightarrow> p \<noteq> [] \<Longrightarrow> dirs_above fs (butlast p) \<and> fs_lookup fs (butlast p) = Some Dir"
  by (auto simp: dirs_above_def butlast_conv_take min_def dest: in_set_takeD)

lemma dirs_above_snoc:
  "dirs_above fs (p @ [c]) \<longleftrightarrow> dirs_above fs p \<and> fs_lookup fs p = Some Dir \<and> c \<noteq> ''..''"
  by (auto simp: dirs_above_def less_Suc_eq)

lemma resolve_parent_dirs:
  assumes "dirs_above fs p" "p \<noteq> []"
  shows "resolve_parent fs p = Some p"
proof -
  have "dirs_above fs (butlast p)" "fs_lookup fs (butlast p) = Some Dir"
    using dirs_above_butlast [OF assms] by auto
  then have "resolve fs (butlast p) = Some (butlast p)" by (intro resolve_dirs) auto
  then show ?thesis using assms(2) \<open>fs_lookup fs (butlast p) = Some Dir\<close> by (simp add: resolve_parent_def)
qed

lemma write_file_dirs:
  assumes "dirs_above fs p" "p \<noteq> []" "fs_lookup fs p = None \<or> (\<exists>old. fs_lookup fs p = Some (File old))"
  shows "write_file p data fs = (Inr (), set_node p (File data) fs)"
  using resolve_dirs [OF assms(1)] dirs_above_butlast [OF assms(1,2)] assms(3) by (auto simp: write_file_def)

lemma mkdir_prefixes_existing:
  "(\<forall>i \<le> length cs. fs_lookup fs (at @ take i cs) = Some Dir) \<Longrightarrow> ''..'' \<notin> set (at @ cs) \<Longrightarrow> dirs_above fs at \<Longrightarrow>
    mkdir_prefixes at (cs @ rest) fs = mkdir_prefixes (at @ cs) rest fs"
proof (induction cs arbitrary: at)
  case (Cons c cs)
  have at: "fs_lookup fs at = Some Dir" "fs_lookup fs (at @ [c]) = Some Dir"
    using Cons.prems(1) [rule_format, of 0] Cons.prems(1) [rule_format, of 1] by auto
  then have da: "dirs_above fs (at @ [c])" using Cons.prems(2,3) by (auto simp: dirs_above_snoc)
  then have "is_dir_path fs (at @ [c])" using at by (simp add: is_dir_path_def resolve_dirs)
  moreover have "mkdir_prefixes (at @ [c]) (cs @ rest) fs = mkdir_prefixes ((at @ [c]) @ cs) rest fs"
  proof (rule Cons.IH)
    show "\<forall>i \<le> length cs. fs_lookup fs ((at @ [c]) @ take i cs) = Some Dir"
      using Cons.prems(1) by (auto dest: spec [of _ "Suc _"])
  qed (use Cons.prems da in auto)
  ultimately show ?case by simp
qed simp

lemma create_dir_existing:
  assumes "dirs_above fs p" "fs_lookup fs p = Some Dir"
  shows "create_dir_all p fs = (Inr (), fs)"
proof -
  have "\<forall>i \<le> length p. fs_lookup fs (take i p) = Some Dir"
    using assms by (auto simp: dirs_above_def le_less)
  moreover have "dirs_above fs []" by (simp add: dirs_above_def)
  ultimately show ?thesis
    using mkdir_prefixes_existing [of p fs "[]" "[]"] assms(1) by (simp add: create_dir_all_def dirs_above_def)
qed

lemma create_dir_new:
  assumes "dirs_above fs p" "p \<noteq> []" "fs_lookup fs p = None"
  shows "create_dir_all p fs = (Inr (), set_node p Dir fs)"
proof -
  define q where "q = butlast p"
  have p: "p = q @ [last p]" using assms(2) by (simp add: q_def)
  have q: "dirs_above fs q" "fs_lookup fs q = Some Dir" using dirs_above_butlast [OF assms(1,2)] by (auto simp: q_def)
  then have "\<forall>i \<le> length q. fs_lookup fs (take i q) = Some Dir" by (auto simp: dirs_above_def le_less)
  moreover have "dirs_above fs []" by (simp add: dirs_above_def)
  ultimately have "create_dir_all p fs = mkdir_prefixes q [last p] fs"
    using mkdir_prefixes_existing [of q fs "[]" "[last p]"] q(1) p by (simp add: create_dir_all_def dirs_above_def)
  moreover have "\<not> is_dir_path fs p"
    using resolve_dirs [OF assms(1)] assms(3) by (simp add: is_dir_path_def)
  moreover have "mkdir p fs = (Inr (), set_node p Dir fs)"
    using resolve_parent_dirs [OF assms(1,2)] assms(3) by (simp add: mkdir_def)
  ultimately show ?thesis using p by simp
qed

end
