(* ===== verification/Layer_Storage.thy ===== *)
theory Layer_Storage
  imports Converter Host_Fs
begin

text \<open>
  What the converter leaves in the store for a layer of plain files and
  directories: the nodes as pure functions of the archive, the store that holds
  them, and the passes of the conversion one after the other.
\<close>

section \<open>Stores that hold given nodes\<close>

definition node_bytes :: "ext \<Rightarrow> dag_node \<Rightarrow> bytes" where
  "node_bytes E n = (case rkyv_to_bytes E n of Inl _ \<Rightarrow> [] | Inr b \<Rightarrow> b)"

definition node_digest :: "ext \<Rightarrow> dag_node \<Rightarrow> digest" where
  "node_digest E n = compute E (node_bytes E n)"

definition holds :: "ext \<Rightarrow> mmap_store \<Rightarrow> dag_node \<Rightarrow> bool" where
  "holds E s n \<longleftrightarrow> map_of (node_files s) (node_digest E n) = Some (node_bytes E n)"

text \<open>
  The digest of each of the given nodes is free in the store or taken by that
  node, and a blob file of one of them has its content.
\<close>

definition room_for :: "ext \<Rightarrow> dag_node list \<Rightarrow> mmap_store \<Rightarrow> bool" where
  "room_for E ns s \<longleftrightarrow> list_all (\<lambda>n.
      (case map_of (node_files s) (node_digest E n) of None \<Rightarrow> True | Some b \<Rightarrow> b = node_bytes E n) \<and>
      (case map_of (blob_files s) (node_digest E n) of None \<Rightarrow> True | Some b \<Rightarrow> kind n = Blob \<and> b = inline_data n)) ns"

text \<open>No two of the given nodes share a digest, and none has the digest of zeros.\<close>

definition collision_free :: "ext \<Rightarrow> dag_node list \<Rightarrow> bool" where
  "collision_free E ns \<longleftrightarrow>
    list_all (\<lambda>m. node_digest E m \<noteq> ZERO \<and> list_all (\<lambda>n. node_digest E m = node_digest E n \<longrightarrow> m = n) ns) ns"

definition ext_ok :: "ext \<Rightarrow> bool" where
  "ext_ok E \<longleftrightarrow> hex_ok E \<and> sha_ok E \<and> rkyv_ok E"

lemma node_bytes_ok: "ext_ok E \<Longrightarrow> wf_node n \<Longrightarrow> rkyv_to_bytes E n = Inr (node_bytes E n) \<and> rkyv_check E (node_bytes E n) = Inr n"
  by (auto simp: ext_ok_def rkyv_ok_def node_bytes_def)

lemma node_digest_wf [simp]: "ext_ok E \<Longrightarrow> wf_digest (node_digest E n)"
  by (simp add: node_digest_def ext_ok_def compute_wf)

lemma holds_view: "ext_ok E \<Longrightarrow> wf_node n \<Longrightarrow> holds E s n \<Longrightarrow> node_view E s (node_digest E n) = Inr n"
  using node_bytes_ok [of E n] by (simp add: node_view_def holds_def guard_new_def)

definition grows :: "ext \<Rightarrow> mmap_store \<Rightarrow> mmap_store \<Rightarrow> bool" where
  "grows E s s' \<longleftrightarrow> (\<forall>n. holds E s n \<longrightarrow> holds E s' n)"

lemma grows_refl [simp]: "grows E s s"
  by (simp add: grows_def)

lemma growsD: "grows E s s' \<Longrightarrow> holds E s n \<Longrightarrow> holds E s' n"
  by (simp add: grows_def)

lemma grows_trans: "grows E s s' \<Longrightarrow> grows E s' s'' \<Longrightarrow> grows E s s''"
  by (simp add: grows_def)

definition store_ok :: "ext \<Rightarrow> dag_node list \<Rightarrow> mmap_store \<Rightarrow> bool" where
  "store_ok E ns s \<longleftrightarrow> store_inv s \<and> room_for E ns s"

lemma put_grows:
  assumes "ext_ok E" "collision_free E ns" "store_ok E ns s" "n \<in> set ns" "wf_node n"
  shows "\<exists>s'. put E s n = (Inr (node_digest E n), s') \<and> store_ok E ns s' \<and> holds E s' n \<and> grows E s s'"
proof -
  obtain r s' where p: "put E s n = (r, s')" by fastforce
  note nb = node_bytes_ok [OF assms(1,5)]
  have inv: "store_inv s'" using put_inv [of s E n] assms(3) p by (simp add: store_ok_def)
  from p show ?thesis
  proof (cases rule: put_cases)
    case (fail e)
    with nb show ?thesis by simp
  next
    case (dedup b)
    then have b: "b = node_bytes E n" using nb by simp
    have "map_of (node_files s) (node_digest E n) \<noteq> None" using dedup(3) by (simp add: b node_digest_def node_exists_def)
    with assms(3,4) have "holds E s n"
      by (auto simp: store_ok_def room_for_def list_all_iff holds_def split: option.splits)
    then show ?thesis using p dedup assms(3) by (simp add: b node_digest_def)
  next
    case (new b)
    then have b: "b = node_bytes E n" using nb by simp
    have nf: "node_files s' = AList.update (node_digest E n) (node_bytes E n) (node_files s)" "blob_files s' = blob_files s"
      using new(4) by (simp_all add: b node_digest_def)
    have "map_of (node_files s) (node_digest E n) = None" using new(3) by (simp add: b node_digest_def node_exists_def)
    then have "grows E s s'" "holds E s' n" by (auto simp: grows_def holds_def nf)
    moreover have "room_for E ns s'"
      unfolding room_for_def list_all_iff
    proof (intro ballI)
      fix m assume m: "m \<in> set ns"
      have "node_digest E m = node_digest E n \<Longrightarrow> m = n"
        using assms(2,4) m by (auto simp: collision_free_def list_all_iff)
      then show "(case map_of (node_files s') (node_digest E m) of None \<Rightarrow> True | Some b \<Rightarrow> b = node_bytes E m) \<and>
          (case map_of (blob_files s') (node_digest E m) of None \<Rightarrow> True | Some b \<Rightarrow> kind m = Blob \<and> b = inline_data m)"
        using assms(3) m by (auto simp: nf store_ok_def room_for_def list_all_iff)
    qed
    ultimately show ?thesis using p new inv by (simp add: b node_digest_def store_ok_def)
  qed
qed

lemma put_blob_grows:
  assumes "ext_ok E" "collision_free E ns" "store_ok E ns s" "blob_node data \<in> set ns"
  shows "\<exists>s'. put_blob_blocking s (node_digest E (blob_node data)) data = (Inr (), s') \<and> store_ok E ns s' \<and> grows E s s'"
proof -
  define d where "d = node_digest E (blob_node data)"
  have pb: "put_blob_blocking s d data = put_blob s d data" by (simp add: put_blob_def put_blob_blocking_def)
  have r: "room_for E ns (snd (put_blob s d data))"
    unfolding room_for_def list_all_iff
  proof (intro ballI)
    fix m assume m: "m \<in> set ns"
    have "node_digest E m = d \<Longrightarrow> m = blob_node data"
      using assms(2,4) m by (auto simp: collision_free_def list_all_iff d_def)
    then show "(case map_of (node_files (snd (put_blob s d data))) (node_digest E m) of None \<Rightarrow> True | Some b \<Rightarrow> b = node_bytes E m) \<and>
        (case map_of (blob_files (snd (put_blob s d data))) (node_digest E m) of None \<Rightarrow> True | Some b \<Rightarrow> kind m = Blob \<and> b = inline_data m)"
      using assms(3) m by (auto simp: put_blob_def store_ok_def room_for_def list_all_iff blob_node_def)
  qed
  have "store_inv (snd (put_blob s d data))" using assms(3) by (simp add: store_ok_def put_blob_inv)
  moreover have "grows E s (snd (put_blob s d data))" by (simp add: grows_def holds_def put_blob_def)
  moreover have "fst (put_blob s d data) = Inr ()" by (simp add: put_blob_def)
  ultimately show ?thesis
    using r pb by (cases "put_blob s d data") (auto simp: store_ok_def d_def)
qed

lemma get_archived_holds:
  assumes "ext_ok E" "wf_node n" "store_inv s" "holds E s n"
  obtains s' where "get_archived E s (node_digest E n) = (Inr n, s')" "store_inv s'" "only_cache s s'"
proof -
  obtain r s' where g: "get_archived E s (node_digest E n) = (r, s')" by fastforce
  note v = get_archived_view [OF assms(3) g]
  from v(1) have "r = Inr n" using holds_view [OF assms(1,2,4)] by simp
  with g v(2,3) show thesis by (intro that) simp_all
qed

lemma only_cache_holds: "only_cache s s' \<Longrightarrow> holds E s' n \<longleftrightarrow> holds E s n"
  by (simp add: holds_def only_cacheD)

section \<open>Plain layers\<close>

text \<open>
  A plain entry is a regular file or a directory, named by a relative path of
  ordinary names; a directory may end in a slash.
\<close>

definition name_ok :: "string \<Rightarrow> bool" where
  "name_ok c \<longleftrightarrow> c \<noteq> [] \<and> CHR ''/'' \<notin> set c \<and> c \<noteq> ''.'' \<and> \<not> contains_str c ''..'' \<and> \<not> starts_with c ''.wh.'' \<and>
    utf8_valid (as_bytes c)"

definition the_path :: "tar_entry \<Rightarrow> string" where
  "the_path te = (case te_path te of Inr p \<Rightarrow> p | Inl _ \<Rightarrow> [])"

definition the_header :: "tar_entry \<Rightarrow> tar_header" where
  "the_header te = (case te_header te of Inr h \<Rightarrow> h
     | Inl _ \<Rightarrow> \<lparr>th_type = OtherType, th_mode = 0, th_size = 0, th_uid = 0, th_gid = 0, th_mtime = 0, th_link = None\<rparr>)"

definition the_data :: "tar_entry \<Rightarrow> bytes" where
  "the_data te = (case te_data te of Inr b \<Rightarrow> b | Inl _ \<Rightarrow> [])"

definition names_of :: "tar_entry \<Rightarrow> path" where
  "names_of te = path_comps (the_path te)"

definition dir_entry :: "tar_entry \<Rightarrow> bool" where
  "dir_entry te \<longleftrightarrow> th_type (the_header te) = Directory"

definition plain_entry :: "tar_entry \<Rightarrow> bool" where
  "plain_entry te \<longleftrightarrow>
    te_path te = Inr (the_path te) \<and> te_header te = Inr (the_header te) \<and>
    names_of te \<noteq> [] \<and> list_all name_ok (names_of te) \<and>
    (if dir_entry te then the_path te = join ''/'' (names_of te) \<or> the_path te = join ''/'' (names_of te) @ ''/''
     else th_type (the_header te) = RegularFile \<and> the_path te = join ''/'' (names_of te) \<and> te_data te = Inr (the_data te))"

definition plain_layer :: "tar_entry list \<Rightarrow> bool" where
  "plain_layer tes \<longleftrightarrow> list_all plain_entry tes \<and> distinct (map names_of tes)"

lemma join_slash_inject:
  assumes "list_all name_ok a" "list_all name_ok b" "join ''/'' a = join ''/'' b"
  shows "a = b"
proof -
  have ne: "join ''/'' c \<noteq> []" if "list_all name_ok c" "c \<noteq> []" for c
  proof (cases c)
    case (Cons x xs)
    with that show ?thesis by (cases "xs = []") (auto simp: name_ok_def join_cons)
  qed (use that in simp)
  have sp: "split_on (CHR ''/'') (join ''/'' c) = c" if "list_all name_ok c" "c \<noteq> []" for c
    using that by (intro split_on_join_pieces) (auto simp: name_ok_def list_all_iff)
  show ?thesis
  proof (cases "a = [] \<or> b = []")
    case True
    with ne [of a] ne [of b] assms show ?thesis by (cases "a = []"; cases "b = []") auto
  next
    case False
    with sp [of a] sp [of b] assms show ?thesis by metis
  qed
qed

lemma path_comps_join:
  assumes "list_all name_ok cs"
  shows "path_comps (join ''/'' cs) = cs"
proof (cases "cs = []")
  case False
  have "split_on (CHR ''/'') (join ''/'' cs) = cs"
    using assms False by (intro split_on_join_pieces) (auto simp: name_ok_def list_all_iff)
  moreover have "filter (\<lambda>c. c \<noteq> [] \<and> c \<noteq> ''.'') cs = cs"
    using assms by (auto simp: filter_id_conv name_ok_def list_all_iff)
  ultimately show ?thesis by (simp add: path_comps_def)
qed (simp add: path_comps_def)

lemma join_snoc: "cs \<noteq> [] \<Longrightarrow> join sep (cs @ [c]) = join sep cs @ sep @ c"
proof (induction cs)
  case (Cons a cs)
  then show ?case by (cases "cs = []") (simp_all add: join_cons)
qed simp

lemma last_join_slash: "list_all name_ok cs \<Longrightarrow> cs \<noteq> [] \<Longrightarrow> join ''/'' cs \<noteq> [] \<and> last (join ''/'' cs) \<noteq> CHR ''/''"
proof -
  assume cs: "list_all name_ok cs" "cs \<noteq> []"
  then obtain ds c where "cs = ds @ [c]" by (metis rev_exhaust)
  moreover from this cs have c: "c \<noteq> []" "CHR ''/'' \<notin> set c" by (auto simp: name_ok_def)
  moreover from c have "last c \<noteq> CHR ''/''" by (metis last_in_set)
  ultimately show ?thesis by (cases "ds = []") (auto simp: join_snoc)
qed

lemma split_path_join:
  assumes "list_all name_ok cs" "cs \<noteq> []" "p = join ''/'' cs \<or> p = join ''/'' cs @ ''/''"
  shows "split_path p = (join ''/'' (butlast cs), last cs)"
proof -
  obtain ds c where cs: "cs = ds @ [c]" using assms(2) by (metis rev_exhaust)
  have c: "CHR ''/'' \<notin> set c" using assms(1) by (simp add: cs name_ok_def)
  note l = last_join_slash [OF assms(1,2)]
  have "hd (rev (join ''/'' cs)) \<noteq> CHR ''/''" using l by (simp add: hd_rev)
  moreover have "rev (join ''/'' cs) \<noteq> []" using l by simp
  ultimately have "dropWhile (\<lambda>c. c = CHR ''/'') (rev (join ''/'' cs)) = rev (join ''/'' cs)"
    by (cases "rev (join ''/'' cs)") simp_all
  then have "rev (dropWhile (\<lambda>c. c = CHR ''/'') (rev p)) = join ''/'' cs" using assms(3) by auto
  then have sp: "split_path p = (case rsplit_once (CHR ''/'') (join ''/'' cs) of Some (parent, name) \<Rightarrow> (parent, name) | None \<Rightarrow> ([], join ''/'' cs))"
    by (simp add: split_path_def Let_def)
  show ?thesis
  proof (cases "ds = []")
    case True
    then have "rsplit_once (CHR ''/'') (join ''/'' cs) = None" using c by (simp add: cs rsplit_once_None)
    then show ?thesis using sp True by (simp add: cs)
  next
    case False
    then have "join ''/'' cs = join ''/'' ds @ CHR ''/'' # c" by (simp add: cs join_snoc)
    then show ?thesis using sp c by (simp add: cs)
  qed
qed

lemma contains_dots_slash:
  "contains_str (a @ CHR ''/'' # b) ''..'' \<longleftrightarrow> contains_str a ''..'' \<or> contains_str b ''..''"
proof (induction a)
  case (Cons x a)
  have "starts_with (x # a @ CHR ''/'' # b) ''..'' \<longleftrightarrow> starts_with (x # a) ''..''"
    by (cases a) (auto simp: starts_with_def)
  with Cons show ?case by auto
qed (simp add: starts_with_def)

lemma contains_dots_join: "contains_str (join ''/'' cs) ''..'' \<longleftrightarrow> list_ex (\<lambda>c. contains_str c ''..'') cs"
proof (induction cs)
  case (Cons c cs)
  then show ?case by (cases "cs = []") (auto simp: join_cons contains_dots_slash)
qed simp

lemma plain_path:
  assumes "plain_entry te"
  shows "\<not> contains_str (the_path te) ''..''" "the_path te \<noteq> ''.''" "the_path te \<noteq> []"
    "split_path (the_path te) = (join ''/'' (butlast (names_of te)), last (names_of te))"
    "\<not> starts_with (last (names_of te)) ''.wh.''"
proof -
  define cs where "cs = names_of te"
  have cs: "list_all name_ok cs" "cs \<noteq> []" and p: "the_path te = join ''/'' cs \<or> the_path te = join ''/'' cs @ ''/''"
    using assms by (auto simp: plain_entry_def cs_def split: if_splits)
  have nd: "\<not> list_ex (\<lambda>c. contains_str c ''..'') cs" using cs(1) by (auto simp: list_all_iff list_ex_iff name_ok_def)
  have "\<not> contains_str (join ''/'' cs) ''..''" using nd contains_dots_join [of cs] by simp
  then show "\<not> contains_str (the_path te) ''..''" using p contains_dots_slash [of "join ''/'' cs" "[]"] by auto
  show "the_path te \<noteq> []" using p last_join_slash [OF cs] by auto
  show "the_path te \<noteq> ''.''"
  proof
    assume "the_path te = ''.''"
    then have "names_of te = []" by (simp add: names_of_def path_comps_def)
    with cs(2) show False by (simp add: cs_def)
  qed
  show "split_path (the_path te) = (join ''/'' (butlast (names_of te)), last (names_of te))"
    using split_path_join [OF cs p] by (simp add: cs_def)
  show "\<not> starts_with (last (names_of te)) ''.wh.''"
    using cs last_in_set [OF cs(2)] by (auto simp: list_all_iff name_ok_def cs_def)
qed

section \<open>The passes of the conversion\<close>

definition file_node :: "tar_entry \<Rightarrow> dag_node" where
  "file_node te = blob_node (the_data te)"

definition raw_of :: "ext \<Rightarrow> tar_entry \<Rightarrow> raw_entry" where
  "raw_of E te =
    \<lparr>re_path = the_path te, re_parent = join ''/'' (butlast (names_of te)), re_name = last (names_of te),
     re_mode = th_mode (the_header te), re_size = th_size (the_header te), re_uid = ucast (th_uid (the_header te)),
     re_gid = ucast (th_gid (the_header te)), re_mtime = th_mtime (the_header te), re_is_dir = dir_entry te,
     re_is_symlink = False, re_symlink_target = None, re_is_hardlink = False, re_hardlink_target = None,
     re_digest = (if dir_entry te then ZERO else node_digest E (file_node te)),
     re_xattrs = collect_xattrs (te_pax te)\<rparr>"

definition stored_entry :: "ext \<Rightarrow> tar_entry \<Rightarrow> directory_entry" where
  "stored_entry E te =
    entry_of_raw (raw_of E te) (node_digest E (if dir_entry te then blob_node [] else file_node te))"

lemma wf_blob [simp]: "wf_node (blob_node data)"
  by (simp add: wf_node_def blob_node_def)

lemma store_content_plain:
  assumes "ext_ok E" "collision_free E ns" "store_ok E ns s" "plain_entry te" "\<not> dir_entry te \<longrightarrow> file_node te \<in> set ns"
  shows "\<exists>ptd' s'. store_content E te (the_header te) p ptd s = (Inr (re_digest (raw_of E te), ptd'), s') \<and>
    store_ok E ns s' \<and> grows E s s' \<and> (\<not> dir_entry te \<longrightarrow> holds E s' (file_node te))"
proof (cases "dir_entry te")
  case True
  with assms(3) show ?thesis by (simp add: store_content_def dir_entry_def raw_of_def)
next
  case False
  then have t: "th_type (the_header te) = RegularFile" "te_data te = Inr (the_data te)"
    using assms(4) by (auto simp: plain_entry_def)
  obtain s1 where s1: "put E s (blob_node (the_data te)) = (Inr (node_digest E (file_node te)), s1)"
    "store_ok E ns s1" "holds E s1 (file_node te)" "grows E s s1"
    using put_grows [OF assms(1,2,3), of "file_node te"] assms(5) False by (auto simp: file_node_def)
  show ?thesis
  proof (cases "th_size (the_header te) > SMALL_FILE_THRESHOLD")
    case True
    obtain s2 where s2: "put_blob_blocking s1 (node_digest E (file_node te)) (the_data te) = (Inr (), s2)"
      "store_ok E ns s2" "grows E s1 s2"
      using put_blob_grows [OF assms(1,2) s1(2), of "the_data te"] assms(5) False by (auto simp: file_node_def)
    have "grows E s s2" "holds E s2 (file_node te)"
      using grows_trans [OF s1(4) s2(3)] s1(3) s2(3) by (auto simp: grows_def)
    with t s1 s2 False True show ?thesis by (simp add: store_content_def put_eq_put_blocking raw_of_def)
  next
    case f: False
    with t s1 False show ?thesis by (simp add: store_content_def put_eq_put_blocking raw_of_def)
  qed
qed

lemma scan_plain:
  assumes "ext_ok E" "collision_free E ns"
  shows "store_ok E ns s \<Longrightarrow> list_all plain_entry tes \<Longrightarrow> (\<forall>te \<in> set tes. \<not> dir_entry te \<longrightarrow> file_node te \<in> set ns) \<Longrightarrow>
    \<exists>ptd s'. scan_entries E (map Inr tes) st s =
        (Inr (st\<lparr>raw_entries := raw_entries st @ map (raw_of E) tes, path_to_digest := ptd\<rparr>), s') \<and>
      store_ok E ns s' \<and> grows E s s' \<and> (\<forall>te \<in> set tes. \<not> dir_entry te \<longrightarrow> holds E s' (file_node te))"
proof (induction tes arbitrary: st s)
  case Nil
  then show ?case by (auto intro!: exI [of _ "path_to_digest st"])
next
  case (Cons te tes)
  then have te: "plain_entry te" and mem: "\<not> dir_entry te \<longrightarrow> file_node te \<in> set ns" by simp_all
  obtain ptd1 s1 where s1: "store_content E te (the_header te) (the_path te) (path_to_digest st) s =
      (Inr (re_digest (raw_of E te), ptd1), s1)"
    "store_ok E ns s1" "grows E s s1" "\<not> dir_entry te \<longrightarrow> holds E s1 (file_node te)"
    using store_content_plain [OF assms Cons.prems(1) te mem, of "the_path te" "path_to_digest st"] by blast
  define st1 where "st1 = st\<lparr>path_to_digest := ptd1, raw_entries := raw_entries st @ [raw_of E te]\<rparr>"
  have ph: "te_path te = Inr (the_path te)" "te_header te = Inr (the_header te)"
    "th_type (the_header te) = Directory \<or> th_type (the_header te) = RegularFile"
    using te by (auto simp: plain_entry_def dir_entry_def split: if_splits)
  have step: "scan_entries E (Inr te # map Inr tes) st s = scan_entries E (map Inr tes) st1 s1"
    using plain_path [OF te] ph s1(1) by (auto simp: st1_def raw_of_def dir_entry_def)
  obtain ptd s' where s': "scan_entries E (map Inr tes) st1 s1 =
        (Inr (st1\<lparr>raw_entries := raw_entries st1 @ map (raw_of E) tes, path_to_digest := ptd\<rparr>), s')"
    "store_ok E ns s'" "grows E s1 s'" "\<forall>te \<in> set tes. \<not> dir_entry te \<longrightarrow> holds E s' (file_node te)"
    using Cons.IH [OF s1(2), of st1] Cons.prems by auto
  have "grows E s s'" using grows_trans [OF s1(3) s'(3)] .
  moreover have "\<not> dir_entry te \<longrightarrow> holds E s' (file_node te)" using s1(4) s'(3) by (simp add: grows_def)
  ultimately show ?case using s' step by (auto simp: st1_def)
qed

lemma link_pass_plain: "list_all (\<lambda>r. \<not> re_is_hardlink r) rs \<Longrightarrow> link_pass i rs ptd = (rs, ptd, [])"
  by (induction rs arbitrary: i) simp_all

definition index_kids :: "dir_index \<Rightarrow> string \<Rightarrow> nat list" where
  "index_kids ix p = (case map_of ix p of None \<Rightarrow> [] | Some is \<Rightarrow> is)"

lemma index_kids_raw:
  "index_kids (index_raw r i ix) p = index_kids ix p @ (if re_parent r = p then [i] else [])"
proof -
  have "index_kids (or_default k ix) p = index_kids ix p" for k ix
    by (auto simp: index_kids_def or_default_def split: option.splits)
  moreover have "index_kids (push_index k i ix) p = index_kids ix p @ (if k = p then [i] else [])" for k
    by (auto simp: index_kids_def push_index_def)
  ultimately show ?thesis by (simp add: index_raw_def Let_def)
qed

lemma build_plain:
  assumes "ext_ok E" "collision_free E ns" "blob_node [] \<in> set ns"
  shows "store_ok E ns s \<Longrightarrow> (\<forall>te \<in> set tes. \<not> dir_entry te \<longrightarrow> file_node te \<in> set ns) \<Longrightarrow>
    \<exists>ix' s'. build_entries E (map (raw_of E) tes) es ix s = (Inr (es @ map (stored_entry E) tes, ix'), s') \<and>
      store_ok E ns s' \<and> grows E s s' \<and>
      (\<forall>p. index_kids ix' p = index_kids ix p @ map (\<lambda>i. length es + i)
          (filter (\<lambda>i. join ''/'' (butlast (names_of (tes ! i))) = p) [0..<length tes]))"
proof (induction tes arbitrary: es ix s)
  case (Cons te tes)
  obtain s1 where s1: "(if re_digest (raw_of E te) = ZERO
        then (case put_blocking E s (blob_node []) of (Inl e, s1) \<Rightarrow> (Inl (OciStore e), s1) | (Inr d, s1) \<Rightarrow> (Inr d, s1))
        else (Inr (re_digest (raw_of E te)), s)) =
      (Inr (node_digest E (if dir_entry te then blob_node [] else file_node te)), s1)"
    "store_ok E ns s1" "grows E s s1"
  proof (cases "dir_entry te")
    case True
    obtain s1 where "put E s (blob_node []) = (Inr (node_digest E (blob_node [])), s1)" "store_ok E ns s1" "grows E s s1"
      using put_grows [OF assms(1,2) Cons.prems(1) assms(3)] by auto
    with True show ?thesis by (intro that [of s1]) (simp_all add: raw_of_def put_eq_put_blocking)
  next
    case False
    then have "node_digest E (file_node te) \<noteq> ZERO"
      using assms(2) Cons.prems(2) by (auto simp: collision_free_def list_all_iff)
    with False Cons.prems(1) show ?thesis by (intro that [of s]) (simp_all add: raw_of_def)
  qed
  define ix1 where "ix1 = index_raw (raw_of E te) (length es) ix"
  obtain ix' s' where r: "build_entries E (map (raw_of E) tes) (es @ [stored_entry E te]) ix1 s1 =
        (Inr ((es @ [stored_entry E te]) @ map (stored_entry E) tes, ix'), s')" "store_ok E ns s'" "grows E s1 s'"
      "\<forall>p. index_kids ix' p = index_kids ix1 p @ map (\<lambda>i. length (es @ [stored_entry E te]) + i)
          (filter (\<lambda>i. join ''/'' (butlast (names_of (tes ! i))) = p) [0..<length tes])"
    using Cons.IH [OF s1(2), of "es @ [stored_entry E te]" ix1] Cons.prems(2) by auto
  have step: "build_entries E (map (raw_of E) (te # tes)) es ix s =
      build_entries E (map (raw_of E) tes) (es @ [stored_entry E te]) ix1 s1"
    using s1(1) by (simp add: ix1_def stored_entry_def)
  have "index_kids ix' p = index_kids ix p @ map (\<lambda>i. length es + i)
          (filter (\<lambda>i. join ''/'' (butlast (names_of ((te # tes) ! i))) = p) [0..<length (te # tes)])" for p
  proof -
    have "[0..<length (te # tes)] = 0 # map Suc [0..<length tes]"
      by (simp add: map_Suc_upt upt_conv_Cons del: upt_Suc)
    then show ?thesis using r(4) by (auto simp: ix1_def index_kids_raw raw_of_def filter_map comp_def)
  qed
  then show ?case using step r grows_trans [OF s1(3) r(3)] by auto
qed auto

section \<open>The nodes of a layer\<close>

definition kids :: "tar_entry list \<Rightarrow> path \<Rightarrow> tar_entry list" where
  "kids tes cs = filter (\<lambda>te. butlast (names_of te) = cs) tes"

definition depth :: "tar_entry list \<Rightarrow> nat" where
  "depth tes = foldr max (map (\<lambda>te. length (names_of te)) tes) 0"

definition dir_tree :: "(path \<Rightarrow> dag_node) \<Rightarrow> ext \<Rightarrow> conv_env \<Rightarrow> tar_entry list \<Rightarrow> path \<Rightarrow> dag_node" where
  "dir_tree L E C tes cs =
    tree_node (map (\<lambda>te. node_digest E (if dir_entry te then L (names_of te) else file_node te)) (kids tes cs))
      (concat (map (to_inline_bytes E C) (map (stored_entry E) (kids tes cs))))"

primrec dir_layer :: "nat \<Rightarrow> ext \<Rightarrow> conv_env \<Rightarrow> tar_entry list \<Rightarrow> path \<Rightarrow> dag_node" where
  "dir_layer 0 E C tes cs = layer_node [] (as_bytes (join ''/'' cs))"
| "dir_layer (Suc n) E C tes cs =
    layer_node [node_digest E (dir_tree (dir_layer n E C tes) E C tes cs)] (as_bytes (join ''/'' cs))"

definition layer_of_dir :: "ext \<Rightarrow> conv_env \<Rightarrow> tar_entry list \<Rightarrow> path \<Rightarrow> dag_node" where
  "layer_of_dir E C tes cs = dir_layer (Suc (depth tes)) E C tes cs"

definition tree_of_dir :: "ext \<Rightarrow> conv_env \<Rightarrow> tar_entry list \<Rightarrow> path \<Rightarrow> dag_node" where
  "tree_of_dir E C tes cs = dir_tree (layer_of_dir E C tes) E C tes cs"

definition dir_paths :: "tar_entry list \<Rightarrow> path list" where
  "dir_paths tes = [] # map names_of (filter dir_entry tes)"

definition layer_nodes :: "ext \<Rightarrow> conv_env \<Rightarrow> tar_entry list \<Rightarrow> dag_node list" where
  "layer_nodes E C tes =
    blob_node [] # map file_node (filter (\<lambda>te. \<not> dir_entry te) tes) @
    map (tree_of_dir E C tes) (dir_paths tes) @ map (layer_of_dir E C tes) (dir_paths tes)"

lemma depth_ge: "te \<in> set tes \<Longrightarrow> length (names_of te) \<le> depth tes"
  by (induction tes) (auto simp: depth_def)

lemma kids_length: "list_all plain_entry tes \<Longrightarrow> te \<in> set (kids tes cs) \<Longrightarrow>
    te \<in> set tes \<and> length (names_of te) = Suc (length cs) \<and> (\<exists>c. names_of te = cs @ [c])"
proof -
  assume "list_all plain_entry tes" "te \<in> set (kids tes cs)"
  then have te: "te \<in> set tes" "butlast (names_of te) = cs" "names_of te \<noteq> []"
    by (auto simp: kids_def list_all_iff plain_entry_def)
  then have "names_of te = cs @ [last (names_of te)]" using append_butlast_last_id [of "names_of te"] by simp
  with te(1) show ?thesis by (metis length_append_singleton)
qed

lemma dir_layer_stable:
  assumes "list_all plain_entry tes"
  shows "n > 0 \<Longrightarrow> m > 0 \<Longrightarrow> depth tes < n + length cs \<Longrightarrow> depth tes < m + length cs \<Longrightarrow>
    dir_layer n E C tes cs = dir_layer m E C tes cs"
proof (induction n arbitrary: m cs)
  case (Suc n)
  then obtain m' where m: "m = Suc m'" by (cases m) auto
  have "dir_layer n E C tes (names_of te) = dir_layer m' E C tes (names_of te)" if "te \<in> set (kids tes cs)" for te
  proof -
    have l: "length (names_of te) = Suc (length cs)" "length (names_of te) \<le> depth tes"
      using kids_length [OF assms that] depth_ge [of te tes] by simp_all
    show ?thesis using Suc.prems m l by (intro Suc.IH) auto
  qed
  then have "dir_tree (dir_layer n E C tes) E C tes cs = dir_tree (dir_layer m' E C tes) E C tes cs"
    by (auto simp: dir_tree_def intro!: arg_cong2 [where f = tree_node] map_cong)
  then show ?case by (simp add: m)
qed simp

lemma layer_of_dir_eq:
  assumes "list_all plain_entry tes"
  shows "layer_of_dir E C tes cs = layer_node [node_digest E (tree_of_dir E C tes cs)] (as_bytes (join ''/'' cs))"
proof -
  have "dir_layer (depth tes) E C tes (names_of te) = layer_of_dir E C tes (names_of te)" if "te \<in> set (kids tes cs)" for te
  proof -
    have l: "length (names_of te) = Suc (length cs)" "length (names_of te) \<le> depth tes"
      using kids_length [OF assms that] depth_ge [of te tes] by simp_all
    then show ?thesis unfolding layer_of_dir_def by (intro dir_layer_stable [OF assms]) auto
  qed
  then have "dir_tree (dir_layer (depth tes) E C tes) E C tes cs = tree_of_dir E C tes cs"
    by (auto simp: dir_tree_def tree_of_dir_def intro!: arg_cong2 [where f = tree_node] map_cong)
  then show ?thesis by (simp add: layer_of_dir_def)
qed

lemma wf_layer_nodes:
  assumes "ext_ok E" "list_all plain_entry tes"
  shows "wf_node (tree_of_dir E C tes cs)" "wf_node (layer_of_dir E C tes cs)"
  using assms by (simp_all add: layer_of_dir_eq tree_of_dir_def dir_tree_def wf_node_def tree_node_def layer_node_def list_all_iff)

text \<open>The store holds a directory with everything below it, to a given depth.\<close>

primrec holds_dir :: "nat \<Rightarrow> ext \<Rightarrow> conv_env \<Rightarrow> tar_entry list \<Rightarrow> mmap_store \<Rightarrow> path \<Rightarrow> bool" where
  "holds_dir 0 E C tes s cs \<longleftrightarrow> False"
| "holds_dir (Suc n) E C tes s cs \<longleftrightarrow>
    holds E s (tree_of_dir E C tes cs) \<and> holds E s (layer_of_dir E C tes cs) \<and>
    (\<forall>te \<in> set (kids tes cs). if dir_entry te then holds_dir n E C tes s (names_of te) else holds E s (file_node te))"

lemma holds_dir_grows: "grows E s s' \<Longrightarrow> holds_dir n E C tes s cs \<Longrightarrow> holds_dir n E C tes s' cs"
proof (induction n arbitrary: cs)
  case (Suc n)
  note g = growsD [OF Suc.prems(1)]
  show ?case unfolding holds_dir.simps
  proof (intro conjI ballI)
    show "holds E s' (tree_of_dir E C tes cs)" "holds E s' (layer_of_dir E C tes cs)"
      using Suc.prems(2) by (auto intro: g)
    fix te assume "te \<in> set (kids tes cs)"
    then show "if dir_entry te then holds_dir n E C tes s' (names_of te) else holds E s' (file_node te)"
      using Suc.prems(2) Suc.IH [OF Suc.prems(1), of "names_of te"] g [of "file_node te"] by (cases "dir_entry te") auto
  qed
qed simp

lemma child_string:
  assumes "list_all plain_entry tes" "te \<in> set (kids tes cs)"
  shows "(if join ''/'' cs = [] then de_name (stored_entry E te) else join ''/'' cs @ ''/'' @ de_name (stored_entry E te)) =
    join ''/'' (names_of te)"
proof -
  have te: "plain_entry te" using assms(1) kids_length [OF assms] by (simp add: list_all_iff)
  obtain c where c: "names_of te = cs @ [c]" using kids_length [OF assms] by blast
  have ok: "list_all name_ok cs" using te c by (simp add: plain_entry_def)
  show ?thesis
  proof (cases "cs = []")
    case True
    then show ?thesis by (simp add: c stored_entry_def entry_of_raw_def raw_of_def)
  next
    case False
    then have "join ''/'' cs \<noteq> []" using last_join_slash [OF ok] by simp
    then show ?thesis by (simp add: c join_snoc [OF False] stored_entry_def entry_of_raw_def raw_of_def)
  qed
qed

lemma store_children_plain:
  assumes pl: "list_all plain_entry tes"
    and rec: "\<And>te s. te \<in> set ks \<Longrightarrow> dir_entry te \<Longrightarrow> Q s \<Longrightarrow>
      \<exists>s'. rec (join ''/'' (names_of te)) s = Some (Inr (node_digest E (layer_of_dir E C tes (names_of te))), s') \<and>
        Q s' \<and> grows E s s' \<and> holds_dir n E C tes s' (names_of te)"
    and sub: "set ks \<subseteq> set (kids tes cs)" and ix: "map (nth es) is = map (stored_entry E) ks" and s: "Q s"
  shows "\<exists>s'. store_children rec es (join ''/'' cs) is s =
      Some (Inr (map (\<lambda>te. node_digest E (if dir_entry te then layer_of_dir E C tes (names_of te) else file_node te)) ks,
                 map (stored_entry E) ks), s') \<and>
    Q s' \<and> grows E s s' \<and> (\<forall>te \<in> set ks. dir_entry te \<longrightarrow> holds_dir n E C tes s' (names_of te))"
  using rec sub ix s
proof (induction ks arbitrary: "is" s)
  case Nil
  then show ?case by simp
next
  case (Cons te ks)
  then obtain i is' where i: "is = i # is'" "es ! i = stored_entry E te" "map (nth es) is' = map (stored_entry E) ks"
    by auto
  have cp: "(if join ''/'' cs = [] then de_name (stored_entry E te) else join ''/'' cs @ ''/'' @ de_name (stored_entry E te)) =
      join ''/'' (names_of te)"
    using Cons.prems(2) by (intro child_string [OF pl]) simp
  have se: "de_is_dir (stored_entry E te) = dir_entry te" "\<not> dir_entry te \<Longrightarrow> de_digest (stored_entry E te) = node_digest E (file_node te)"
    by (simp_all add: stored_entry_def entry_of_raw_def raw_of_def)
  obtain s1 where s1: "(if dir_entry te then rec (join ''/'' (names_of te)) s else Some (Inr (de_digest (stored_entry E te)), s)) =
      Some (Inr (node_digest E (if dir_entry te then layer_of_dir E C tes (names_of te) else file_node te)), s1)"
    "Q s1" "grows E s s1" "dir_entry te \<longrightarrow> holds_dir n E C tes s1 (names_of te)"
  proof (cases "dir_entry te")
    case True
    then show ?thesis using Cons.prems(1) [of te s] Cons.prems(4) that by auto
  next
    case False
    then show ?thesis using Cons.prems(4) se that [of s] by auto
  qed
  obtain s' where s': "store_children rec es (join ''/'' cs) is' s1 =
      Some (Inr (map (\<lambda>te. node_digest E (if dir_entry te then layer_of_dir E C tes (names_of te) else file_node te)) ks,
                 map (stored_entry E) ks), s')"
    "Q s'" "grows E s1 s'" "\<forall>te \<in> set ks. dir_entry te \<longrightarrow> holds_dir n E C tes s' (names_of te)"
    using Cons.IH [of is' s1] Cons.prems i s1(2) by auto
  have "store_children rec es (join ''/'' cs) is s =
      Some (Inr (map (\<lambda>te. node_digest E (if dir_entry te then layer_of_dir E C tes (names_of te) else file_node te)) (te # ks),
                 map (stored_entry E) (te # ks)), s')"
    using s1(1) s'(1) cp by (cases "dir_entry te") (simp_all add: i Let_def se)
  then show ?case
    using s' s1 grows_trans [OF s1(3) s'(3)] holds_dir_grows [OF s'(3)] by auto
qed

lemma filter_nth: "map (nth xs) (filter (\<lambda>i. P (xs ! i)) [0..<length xs]) = filter P xs"
proof -
  have "filter P (map (nth xs) [0..<length xs]) = map (nth xs) (filter (P \<circ> nth xs) [0..<length xs])" by (rule filter_map)
  then show ?thesis by (simp add: map_nth comp_def)
qed

lemma index_kids_plain:
  assumes pl: "plain_layer tes" and cs: "list_all name_ok cs"
    and ix: "\<forall>p. index_kids ix p = filter (\<lambda>i. join ''/'' (butlast (names_of (tes ! i))) = p) [0..<length tes]"
  shows "map (nth (map (stored_entry E) tes)) (index_kids ix (join ''/'' cs)) = map (stored_entry E) (kids tes cs)"
proof -
  have "join ''/'' (butlast (names_of te)) = join ''/'' cs \<longleftrightarrow> butlast (names_of te) = cs" if "te \<in> set tes" for te
  proof -
    have "list_all name_ok (butlast (names_of te))"
      using pl that by (auto simp: plain_layer_def list_all_iff plain_entry_def dest: in_set_butlastD)
    then show ?thesis using cs join_slash_inject by blast
  qed
  then have "filter (\<lambda>te. join ''/'' (butlast (names_of te)) = join ''/'' cs) tes = kids tes cs"
    by (simp add: kids_def cong: filter_cong)
  moreover have "map (nth (map (stored_entry E) tes)) (index_kids ix (join ''/'' cs)) =
      map (stored_entry E) (map (nth tes) (index_kids ix (join ''/'' cs)))"
    using ix by (auto intro!: map_cong)
  ultimately show ?thesis using ix by (simp add: filter_nth [where P = "\<lambda>te. join ''/'' (butlast (names_of te)) = join ''/'' cs"])
qed

lemma dir_paths_ok: "plain_layer tes \<Longrightarrow> cs \<in> set (dir_paths tes) \<Longrightarrow> list_all name_ok cs"
  by (auto simp: dir_paths_def plain_layer_def list_all_iff plain_entry_def)

definition files_stored :: "ext \<Rightarrow> dag_node list \<Rightarrow> tar_entry list \<Rightarrow> mmap_store \<Rightarrow> bool" where
  "files_stored E ns tes s \<longleftrightarrow> store_ok E ns s \<and> (\<forall>te \<in> set tes. \<not> dir_entry te \<longrightarrow> holds E s (file_node te))"

lemma store_trees_plain:
  assumes E: "ext_ok E" and cf: "collision_free E ns" and ns: "set (layer_nodes E C tes) \<subseteq> set ns" and pl: "plain_layer tes"
    and ix: "\<forall>p. index_kids ix p = filter (\<lambda>i. join ''/'' (butlast (names_of (tes ! i))) = p) [0..<length tes]"
  shows "n > 0 \<Longrightarrow> depth tes < n + length cs \<Longrightarrow> cs \<in> set (dir_paths tes) \<Longrightarrow> files_stored E ns tes s \<Longrightarrow>
    \<exists>s'. store_trees n E C ix (map (stored_entry E) tes) (join ''/'' cs) s =
        Some (Inr (node_digest E (layer_of_dir E C tes cs)), s') \<and>
      files_stored E ns tes s' \<and> grows E s s' \<and> holds_dir n E C tes s' cs"
proof (induction n arbitrary: cs s)
  case (Suc n)
  have plain: "list_all plain_entry tes" using pl by (simp add: plain_layer_def)
  let ?rec = "store_trees n E C ix (map (stored_entry E) tes)"
  have rec: "\<exists>s'. ?rec (join ''/'' (names_of te)) s = Some (Inr (node_digest E (layer_of_dir E C tes (names_of te))), s') \<and>
        files_stored E ns tes s' \<and> grows E s s' \<and> holds_dir n E C tes s' (names_of te)"
    if te: "te \<in> set (kids tes cs)" "dir_entry te" and s: "files_stored E ns tes s" for te s
  proof -
    have l: "te \<in> set tes" "length (names_of te) = Suc (length cs)" "length (names_of te) \<le> depth tes"
      using kids_length [OF plain te(1)] depth_ge [of te tes] by simp_all
    then have "names_of te \<in> set (dir_paths tes)" using te(2) by (auto simp: dir_paths_def)
    then show ?thesis using Suc.prems(2) l s by (intro Suc.IH) auto
  qed
  have kx: "map (nth (map (stored_entry E) tes)) (index_kids ix (join ''/'' cs)) = map (stored_entry E) (kids tes cs)"
    by (rule index_kids_plain [OF pl dir_paths_ok [OF pl Suc.prems(3)] ix])
  obtain s1 where s1: "store_children ?rec (map (stored_entry E) tes) (join ''/'' cs) (index_kids ix (join ''/'' cs)) s =
      Some (Inr (map (\<lambda>te. node_digest E (if dir_entry te then layer_of_dir E C tes (names_of te) else file_node te)) (kids tes cs),
                 map (stored_entry E) (kids tes cs)), s1)"
    "files_stored E ns tes s1" "grows E s s1"
    "\<forall>te \<in> set (kids tes cs). dir_entry te \<longrightarrow> holds_dir n E C tes s1 (names_of te)"
    using store_children_plain [OF plain rec _ kx Suc.prems(4)] by auto
  have mem: "tree_of_dir E C tes cs \<in> set ns" "layer_of_dir E C tes cs \<in> set ns"
    using ns Suc.prems(3) by (auto simp: layer_nodes_def)
  obtain s2 where s2: "put E s1 (tree_of_dir E C tes cs) = (Inr (node_digest E (tree_of_dir E C tes cs)), s2)"
    "store_ok E ns s2" "holds E s2 (tree_of_dir E C tes cs)" "grows E s1 s2"
    using put_grows [OF E cf _ mem(1) wf_layer_nodes(1) [OF E plain]] s1(2) by (auto simp: files_stored_def)
  obtain s3 where s3: "put E s2 (layer_of_dir E C tes cs) = (Inr (node_digest E (layer_of_dir E C tes cs)), s3)"
    "store_ok E ns s3" "holds E s3 (layer_of_dir E C tes cs)" "grows E s2 s3"
    using put_grows [OF E cf s2(2) mem(2) wf_layer_nodes(2) [OF E plain]] by auto
  have g: "grows E s1 s3" using grows_trans [OF s2(4) s3(4)] .
  have "store_trees (Suc n) E C ix (map (stored_entry E) tes) (join ''/'' cs) s =
      Some (Inr (node_digest E (layer_of_dir E C tes cs)), s3)"
    using s1(1) s2(1) s3(1)
    by (simp add: index_kids_def [symmetric] tree_of_dir_def dir_tree_def layer_of_dir_eq [OF plain])
  moreover have "files_stored E ns tes s3" using s1(2) s3(2) g by (auto simp: files_stored_def grows_def)
  moreover have "holds_dir (Suc n) E C tes s3 cs"
    using s2(3) s3(3,4) holds_dir_grows [OF g] s1(4) calculation(2) kids_length [OF plain]
    by (auto simp: grows_def files_stored_def)
  ultimately show ?case using grows_trans [OF s1(3) g] by auto
qed simp

section \<open>A whole layer\<close>

lemma convert_layer_plain:
  assumes E: "ext_ok E" and pl: "plain_layer tes"
    and cf: "collision_free E (layer_nodes E C tes)" and s: "store_ok E (layer_nodes E C tes) s"
    and blob: "decompress_layer C blob mt = Inr tar" "tar_entries C tar = Inr (map Inr tes)"
    and n: "n > depth tes"
  shows "\<exists>s'. convert_layer n E C blob mt s = Some (Inr (node_digest E (layer_of_dir E C tes [])), s') \<and>
    store_ok E (layer_nodes E C tes) s' \<and> holds_dir n E C tes s' []"
proof -
  let ?ns = "layer_nodes E C tes" and ?st = "\<lparr>raw_entries = [], path_to_digest = [], whiteouts = []\<rparr>"
  have plain: "list_all plain_entry tes" using pl by (simp add: plain_layer_def)
  have mem: "\<forall>te \<in> set tes. \<not> dir_entry te \<longrightarrow> file_node te \<in> set ?ns" "blob_node [] \<in> set ?ns"
    by (auto simp: layer_nodes_def)
  obtain ptd s1 where s1: "scan_entries E (map Inr tes) ?st s =
      (Inr (?st\<lparr>raw_entries := raw_entries ?st @ map (raw_of E) tes, path_to_digest := ptd\<rparr>), s1)" "store_ok E ?ns s1"
      "\<forall>te \<in> set tes. \<not> dir_entry te \<longrightarrow> holds E s1 (file_node te)"
    using scan_plain [OF E cf s plain mem(1), of ?st] by blast
  have lp: "link_pass 0 (map (raw_of E) tes) ptd = (map (raw_of E) tes, ptd, [])"
    by (intro link_pass_plain) (simp add: list_all_iff raw_of_def)
  obtain ix s2 where s2: "build_entries E (map (raw_of E) tes) [] [] s1 = (Inr ([] @ map (stored_entry E) tes, ix), s2)"
      "store_ok E ?ns s2" "grows E s1 s2"
      "\<forall>p. index_kids ix p = index_kids [] p @ map (\<lambda>i. length ([] :: directory_entry list) + i)
          (filter (\<lambda>i. join ''/'' (butlast (names_of (tes ! i))) = p) [0..<length tes])"
    using build_plain [OF E cf mem(2) s1(2) mem(1), of "[]" "[]"] by blast
  have ex: "extract_tar_entries_sync E C tar s = (Inr (map (stored_entry E) tes, ix, []), s2)"
    using s1(1) s2(1) lp by (simp add: extract_tar_entries_sync_def blob(2))
  have ix: "\<forall>p. index_kids ix p = filter (\<lambda>i. join ''/'' (butlast (names_of (tes ! i))) = p) [0..<length tes]"
    using s2(4) by (simp add: index_kids_def [of "[]"])
  have fs: "files_stored E ?ns tes s2" using s1(3) s2(2,3) by (auto simp: files_stored_def grows_def)
  obtain s3 where "store_trees n E C ix (map (stored_entry E) tes) (join ''/'' []) s2 =
        Some (Inr (node_digest E (layer_of_dir E C tes [])), s3)"
      "files_stored E ?ns tes s3" "holds_dir n E C tes s3 []"
    using store_trees_plain [OF E cf subset_refl pl ix, of n "[]" s2] n fs by (auto simp: dir_paths_def)
  then show ?thesis by (simp add: convert_layer_def blob(1) ex files_stored_def)
qed

end
