(* ===== verification/Materializer.thy ===== *)
theory Materializer
  imports Converter Host_Fs
begin

text \<open>
  From nodes of the store to a directory, \<^verbatim>\<open>pullrun-oci/src/materializer.rs\<close>:
  layers with their whiteouts, trees, file attributes, and the OCI runtime
  configuration.  The files of the store lie outside the target directory.  The
  recursion over tree nodes has fuel, and \<open>None\<close> when the fuel is used up.
\<close>

section \<open>Attributes\<close>

definition set_permissions :: "path \<Rightarrow> u32 \<Rightarrow> host_fs \<Rightarrow> host_fs" where
  "set_permissions p mode fs = set_attr (resolve fs p) (a_mode_update (\<lambda>_. Some mode)) fs"

definition set_owner :: "path \<Rightarrow> u32 \<Rightarrow> u32 \<Rightarrow> host_fs \<Rightarrow> host_fs" where
  "set_owner p uid gid fs = set_attr (resolve fs p) (a_owner_update (\<lambda>_. Some (uid, gid))) fs"

definition set_mtime :: "path \<Rightarrow> u64 \<Rightarrow> host_fs \<Rightarrow> host_fs" where
  "set_mtime p mt fs =
    (if sint mt < 0 then fs else set_attr (resolve fs p) (a_mtime_update (\<lambda>_. Some mt)) fs)"

definition set_xattr :: "path \<Rightarrow> string \<Rightarrow> bytes \<Rightarrow> host_fs \<Rightarrow> host_fs" where
  "set_xattr p name v fs = set_attr (resolve_parent fs p) (a_xattrs_update (AList.update name v)) fs"

definition apply_unix_attributes :: "path \<Rightarrow> directory_entry \<Rightarrow> host_fs \<Rightarrow> host_fs" where
  "apply_unix_attributes p e fs =
    (let mode = (if de_is_dir e then (if de_mode e = 0 then 493 else de_mode e)
                 else if de_is_symlink e then 511
                 else if de_mode e = 0 then 420
                 else de_mode e);
         fs1 = set_permissions p mode fs;
         fs2 = set_owner p (de_uid e) (de_gid e) fs1;
         fs3 = set_mtime p (de_mtime e) fs2
     in fold (\<lambda>(name, v). set_xattr p name v) (de_xattrs e) fs3)"

section \<open>Trees\<close>

definition write_entry ::
    "ext \<Rightarrow> directory_entry \<Rightarrow> path \<Rightarrow> mmap_store \<Rightarrow> host_fs \<Rightarrow> (string + unit) \<times> mmap_store \<times> host_fs" where
  "write_entry E e full s fs =
    (if de_is_dir e then (case create_dir_all full fs of (r, fs1) \<Rightarrow> (r, s, fs1))
     else if de_is_symlink e then
       (case de_symlink_target e of
          None \<Rightarrow> (Inr (), s, fs)
        | Some target \<Rightarrow> (Inr (), s, snd (symlink target full (snd (remove_file full fs)))))
     else
       (case (if full = [] then (Inr (), fs) else create_dir_all (butlast full) fs) of
          (Inl err, fs1) \<Rightarrow> (Inl err, s, fs1)
        | (Inr _, fs1) \<Rightarrow>
            (case map_of (blob_files s) (de_digest e) of
               Some data \<Rightarrow> (case write_file full data fs1 of (r, fs2) \<Rightarrow> (r, s, fs2))
             | None \<Rightarrow>
                 (case get_archived E s (de_digest e) of
                    (Inl _, s1) \<Rightarrow> (Inr (), s1, fs1)
                  | (Inr node, s1) \<Rightarrow> (case write_file full (inline_data node) fs1 of (r, fs2) \<Rightarrow> (r, s1, fs2))))))"

fun materialize_entries ::
    "ext \<Rightarrow> directory_entry list \<Rightarrow> path \<Rightarrow> string \<Rightarrow> mmap_store \<Rightarrow> host_fs \<Rightarrow>
     (oci_error + unit) \<times> mmap_store \<times> host_fs" where
  "materialize_entries E [] rootfs_path base_path s fs = (Inr (), s, fs)"
| "materialize_entries E (e # es) rootfs_path base_path s fs =
    (let entry_path = (if base_path = [] then de_name e else base_path @ ''/'' @ de_name e);
         full_path = path_join rootfs_path entry_path
     in case write_entry E e full_path s fs of
          (Inl err, s1, fs1) \<Rightarrow> (Inl (OciIo err), s1, fs1)
        | (Inr _, s1, fs1) \<Rightarrow>
            materialize_entries E es rootfs_path base_path s1 (apply_unix_attributes full_path e fs1))"

fun each_edge ::
    "(digest \<Rightarrow> mmap_store \<Rightarrow> host_fs \<Rightarrow> ((oci_error + unit) \<times> mmap_store \<times> host_fs) option) \<Rightarrow> digest list \<Rightarrow>
     mmap_store \<Rightarrow> host_fs \<Rightarrow> ((oci_error + unit) \<times> mmap_store \<times> host_fs) option" where
  "each_edge f [] s fs = Some (Inr (), s, fs)"
| "each_edge f (d # ds) s fs =
    (case f d s fs of
       None \<Rightarrow> None
     | Some (Inl err, s1, fs1) \<Rightarrow> Some (Inl err, s1, fs1)
     | Some (Inr _, s1, fs1) \<Rightarrow> each_edge f ds s1 fs1)"

text \<open>An edge whose node cannot be read is skipped.\<close>

definition skip_missing ::
    "(digest \<Rightarrow> mmap_store \<Rightarrow> host_fs \<Rightarrow> ((oci_error + unit) \<times> mmap_store \<times> host_fs) option) \<Rightarrow>
     digest \<Rightarrow> mmap_store \<Rightarrow> host_fs \<Rightarrow> ((oci_error + unit) \<times> mmap_store \<times> host_fs) option" where
  "skip_missing f d s fs =
    (case get s d of
       (Inl _, s1) \<Rightarrow> Some (Inr (), s1, fs)
     | (Inr _, s1) \<Rightarrow> f d s1 fs)"

primrec materialize_tree ::
    "nat \<Rightarrow> ext \<Rightarrow> conv_env \<Rightarrow> path \<Rightarrow> string \<Rightarrow> digest \<Rightarrow> mmap_store \<Rightarrow> host_fs \<Rightarrow>
     ((oci_error + unit) \<times> mmap_store \<times> host_fs) option" where
  "materialize_tree 0 E C rootfs_path base_path d s fs = None"
| "materialize_tree (Suc n) E C rootfs_path base_path d s fs =
    (case get_archived E s d of
       (Inl e, s1) \<Rightarrow> Some (Inl (Other (''corrupt tree node '' @ as_hex E d)), s1, fs)
     | (Inr node, s1) \<Rightarrow>
         if is_layer node
         then each_edge (materialize_tree n E C rootfs_path (from_utf8_lossy (inline_data node))) (edges node) s1 fs
         else if \<not> is_tree node then Some (Inr (), s1, fs)
         else
           (case (if inline_data node = [] then (Inr (), s1, fs)
                  else materialize_entries E (from_inline_bytes E C (inline_data node)) rootfs_path base_path s1 fs) of
              (Inl err, s2, fs2) \<Rightarrow> Some (Inl err, s2, fs2)
            | (Inr _, s2, fs2) \<Rightarrow>
                each_edge (skip_missing (materialize_tree n E C rootfs_path base_path)) (edges node) s2 fs2))"

section \<open>Layers\<close>

fun split_edges :: "ext \<Rightarrow> digest list \<Rightarrow> mmap_store \<Rightarrow> (digest list \<times> (digest \<times> bool) list) \<times> mmap_store" where
  "split_edges E [] s = (([], []), s)"
| "split_edges E (d # ds) s =
    (case get_archived E s d of
       (r, s1) \<Rightarrow>
         (case split_edges E ds s1 of
            ((ts, ws), s2) \<Rightarrow>
              (case r of
                 Inr child \<Rightarrow>
                   if is_whiteout child \<or> is_opaque_dir child
                   then ((ts, (d, is_opaque_dir child) # ws), s2)
                   else ((d # ts, ws), s2)
               | Inl _ \<Rightarrow> ((d # ts, ws), s2))))"

fun clear_children :: "path \<Rightarrow> string list \<Rightarrow> host_fs \<Rightarrow> (string + unit) \<times> host_fs" where
  "clear_children dir [] fs = (Inr (), fs)"
| "clear_children dir (name # names) fs =
    (case (if is_dir_path fs (dir @ [name]) then remove_dir_all (dir @ [name]) fs
           else remove_file (dir @ [name]) fs) of
       (Inl e, fs1) \<Rightarrow> (Inl e, fs1)
     | (Inr _, fs1) \<Rightarrow> clear_children dir names fs1)"

definition whiteout_target :: "path \<Rightarrow> string \<Rightarrow> string \<Rightarrow> path" where
  "whiteout_target rootfs_path layer_path target =
    (if layer_path = [] then path_join rootfs_path target
     else path_join (path_join rootfs_path layer_path) target)"

definition apply_opaque :: "path \<Rightarrow> host_fs \<Rightarrow> (string + unit) \<times> host_fs" where
  "apply_opaque dir fs =
    (case resolve fs dir of
       None \<Rightarrow> (Inr (), fs)
     | Some q \<Rightarrow> if fs_lookup fs q = Some Dir then clear_children dir (child_names fs q) fs else (Inr (), fs))"

definition apply_delete :: "path \<Rightarrow> host_fs \<Rightarrow> host_fs" where
  "apply_delete p fs = snd (remove_dir p (snd (remove_file p fs)))"

fun apply_whiteouts ::
    "ext \<Rightarrow> path \<Rightarrow> string \<Rightarrow> (digest \<times> bool) list \<Rightarrow> mmap_store \<Rightarrow> host_fs \<Rightarrow>
     (oci_error + unit) \<times> mmap_store \<times> host_fs" where
  "apply_whiteouts E rootfs_path layer_path [] s fs = (Inr (), s, fs)"
| "apply_whiteouts E rootfs_path layer_path ((d, opq) # ws) s fs =
    (case get_archived E s d of
       (Inl e, s1) \<Rightarrow> (Inl (Other (''corrupt whiteout node '' @ as_hex E d)), s1, fs)
     | (Inr node, s1) \<Rightarrow>
         (let p = whiteout_target rootfs_path layer_path (from_utf8_lossy (inline_data node))
          in if opq
             then (case apply_opaque p fs of
                     (Inl e, fs1) \<Rightarrow> (Inl (OciIo e), s1, fs1)
                   | (Inr _, fs1) \<Rightarrow> apply_whiteouts E rootfs_path layer_path ws s1 fs1)
             else apply_whiteouts E rootfs_path layer_path ws s1 (apply_delete p fs)))"

definition materialize_layer ::
    "nat \<Rightarrow> ext \<Rightarrow> conv_env \<Rightarrow> path \<Rightarrow> digest \<Rightarrow> mmap_store \<Rightarrow> host_fs \<Rightarrow>
     ((oci_error + unit) \<times> mmap_store \<times> host_fs) option" where
  "materialize_layer n E C rootfs_path d s fs =
    (case get_archived E s d of
       (Inl e, s1) \<Rightarrow> Some (Inl (Other (''corrupt layer node '' @ as_hex E d)), s1, fs)
     | (Inr node, s1) \<Rightarrow>
         if \<not> is_layer node then Some (Inr (), s1, fs)
         else
           (let layer_path = from_utf8_lossy (inline_data node)
            in case split_edges E (edges node) s1 of
                 ((tree_edges, whiteout_edges), s2) \<Rightarrow>
                   (case apply_whiteouts E rootfs_path layer_path whiteout_edges s2 fs of
                      (Inl e, s3, fs1) \<Rightarrow> Some (Inl e, s3, fs1)
                    | (Inr _, s3, fs1) \<Rightarrow>
                        each_edge (materialize_tree n E C rootfs_path layer_path) tree_edges s3 fs1)))"

section \<open>Images\<close>

definition materialize_manifest ::
    "ext \<Rightarrow> conv_env \<Rightarrow> digest \<Rightarrow> mmap_store \<Rightarrow> (oci_error + manifest_data) \<times> mmap_store" where
  "materialize_manifest E C d s =
    (case get_archived E s d of
       (Inl e, s1) \<Rightarrow> (Inl (Other (''corrupt manifest node '' @ as_hex E d)), s1)
     | (Inr node, s1) \<Rightarrow>
         if \<not> is_manifest node
         then (Inl (InvalidManifest (''node '' @ as_hex E d @ '' is not a manifest'')), s1)
         else (case manifest_from_slice C (inline_data node) of
                 Inl e \<Rightarrow> (Inl (InvalidManifest (''manifest data parse: '' @ e)), s1)
               | Inr data \<Rightarrow> (Inr data, s1)))"

definition materialize_into ::
    "nat \<Rightarrow> ext \<Rightarrow> conv_env \<Rightarrow> digest \<Rightarrow> path \<Rightarrow> mmap_store \<Rightarrow> host_fs \<Rightarrow>
     ((oci_error + unit) \<times> mmap_store \<times> host_fs) option" where
  "materialize_into n E C d target_dir s fs =
    (case create_dir_all target_dir fs of
       (Inl e, fs1) \<Rightarrow> Some (Inl (OciIo e), s, fs1)
     | (Inr _, fs1) \<Rightarrow>
         (case get_archived E s d of
            (Inl e, s1) \<Rightarrow> Some (Inl (Other (''corrupt manifest node '' @ as_hex E d)), s1, fs1)
          | (Inr node, s1) \<Rightarrow> each_edge (materialize_layer n E C target_dir) (edges node) s1 fs1))"

definition parse_user_string :: "string option \<Rightarrow> u32 \<times> u32" where
  "parse_user_string u =
    (case u of
       None \<Rightarrow> (0, 0)
     | Some raw \<Rightarrow>
         (let t = trim raw;
              num = (\<lambda>x. case parse_u32 x of None \<Rightarrow> 0 | Some v \<Rightarrow> v)
          in if t = [] then (0, 0)
             else (case split_once (CHR '':'') t of
                     Some (uid_str, gid_str) \<Rightarrow> (num uid_str, num gid_str)
                   | None \<Rightarrow> (case parse_u32 t of Some uid \<Rightarrow> (uid, 0) | None \<Rightarrow> (0, 0)))))"

definition or_insert :: "string \<Rightarrow> string \<Rightarrow> str_map \<Rightarrow> str_map" where
  "or_insert k v m = (case map_of m k of None \<Rightarrow> AList.update k v m | Some _ \<Rightarrow> m)"

definition config_annotations :: "manifest_data \<Rightarrow> str_map" where
  "config_annotations md =
    (let a0 = (case md_annotations md of None \<Rightarrow> [] | Some a \<Rightarrow> a);
         a1 = or_insert ''org.opencontainers.image.os'' (md_os md) a0;
         a2 = or_insert ''org.opencontainers.image.architecture'' (md_architecture md) a1;
         a3 = (case md_variant md of None \<Rightarrow> a2 | Some v \<Rightarrow> or_insert ''org.opencontainers.image.variant'' v a2);
         a4 = (case md_stop_signal md of None \<Rightarrow> a3 | Some v \<Rightarrow> or_insert ''org.opencontainers.image.stopSignal'' v a3)
     in case md_exposed_ports md of
          None \<Rightarrow> a4
        | Some ports \<Rightarrow>
            if ports = [] then a4 else or_insert ''org.opencontainers.image.exposedPorts'' (join '','' ports) a4)"

definition path_text :: "path \<Rightarrow> string" where
  "path_text p = (if p = [] then ''/'' else concat (map (\<lambda>c. CHR ''/'' # c) p))"

definition volume_mount :: "string \<Rightarrow> json" where
  "volume_mount vol = JObject
    [(''destination'', JString vol), (''type'', JString ''bind''), (''source'', JString vol),
     (''options'', JArray [JString ''rbind'', JString ''rw''])]"

definition oci_spec :: "manifest_data \<Rightarrow> path \<Rightarrow> json" where
  "oci_spec md rootfs_path =
    (let (uid, gid) = parse_user_string (md_user md)
     in JObject
       [(''ociVersion'', JString ''1.1.0''),
        (''process'', JObject
           [(''terminal'', JBool False),
            (''user'', JObject [(''uid'', jnat (unat uid)), (''gid'', jnat (unat gid))]),
            (''args'', JArray (map JString
               (if md_entrypoint md \<noteq> [] then md_entrypoint md @ md_cmd md else md_cmd md))),
            (''env'', JArray (map JString (md_env md))),
            (''cwd'', JString (case md_working_dir md of None \<Rightarrow> ''/'' | Some w \<Rightarrow> w))]),
        (''root'', JObject [(''path'', JString (path_text rootfs_path)), (''readonly'', JBool False)]),
        (''linux'', JObject
           [(''namespaces'', JArray (map (\<lambda>t. JObject [(''type'', JString t)])
              [''pid'', ''network'', ''ipc'', ''uts'', ''mount'']))]),
        (''annotations'', JObject (map (\<lambda>(k, v). (k, JString v)) (config_annotations md))),
        (''mounts'', JArray (map volume_mount (case md_volumes md of None \<Rightarrow> [] | Some vols \<Rightarrow> vols)))])"

definition write_oci_config :: "conv_env \<Rightarrow> path \<Rightarrow> manifest_data \<Rightarrow> path \<Rightarrow> host_fs \<Rightarrow> (oci_error + unit) \<times> host_fs" where
  "write_oci_config C config_path md rootfs_path fs =
    (case write_file config_path (json_pretty C (oci_spec md rootfs_path)) fs of
       (Inl e, fs1) \<Rightarrow> (Inl (OciIo e), fs1)
     | (Inr _, fs1) \<Rightarrow> (Inr (), fs1))"

record materialized_bundle =
  mb_rootfs_path :: path
  mb_config_path :: path
  mb_entrypoint :: "string list"
  mb_cmd :: "string list"
  mb_env :: "string list"
  mb_working_dir :: "string option"

definition materialize_bundle ::
    "nat \<Rightarrow> ext \<Rightarrow> conv_env \<Rightarrow> digest \<Rightarrow> path \<Rightarrow> mmap_store \<Rightarrow> host_fs \<Rightarrow>
     ((oci_error + materialized_bundle) \<times> mmap_store \<times> host_fs) option" where
  "materialize_bundle n E C d output_dir s fs =
    (let rootfs_path = output_dir @ [''rootfs'']; config_path = output_dir @ [''config.json'']
     in case create_dir_all rootfs_path fs of
          (Inl e, fs1) \<Rightarrow> Some (Inl (OciIo e), s, fs1)
        | (Inr _, fs1) \<Rightarrow>
            (case materialize_manifest E C d s of
               (Inl e, s1) \<Rightarrow> Some (Inl e, s1, fs1)
             | (Inr md, s1) \<Rightarrow>
                 (case get_archived E s1 d of
                    (Inl e, s2) \<Rightarrow> Some (Inl (Other (''corrupt manifest node '' @ as_hex E d)), s2, fs1)
                  | (Inr node, s2) \<Rightarrow>
                      (case each_edge (materialize_layer n E C rootfs_path) (edges node) s2 fs1 of
                         None \<Rightarrow> None
                       | Some (Inl e, s3, fs2) \<Rightarrow> Some (Inl e, s3, fs2)
                       | Some (Inr _, s3, fs2) \<Rightarrow>
                           (case write_oci_config C config_path md rootfs_path fs2 of
                              (Inl e, fs3) \<Rightarrow> Some (Inl e, s3, fs3)
                            | (Inr _, fs3) \<Rightarrow>
                                Some (Inr \<lparr>mb_rootfs_path = rootfs_path, mb_config_path = config_path,
                                           mb_entrypoint = md_entrypoint md, mb_cmd = md_cmd md, mb_env = md_env md,
                                           mb_working_dir = md_working_dir md\<rparr>, s3, fs3))))))"

end
