(* ===== verification/Image_Roundtrip.thy ===== *)
theory Image_Roundtrip
  imports Layer_Storage Materializer Reference_Crates
begin

text \<open>
  Converting a layer of plain files and directories and materializing it again
  gives the files of the layer, on top of what the target directory held.
\<close>

section \<open>Writing according to a plan\<close>

definition fs_item :: "tar_entry \<Rightarrow> fs_node" where
  "fs_item te = (if dir_entry te then Dir else File (the_data te))"

definition plan :: "path \<Rightarrow> tar_entry list \<Rightarrow> (path \<times> fs_node) list" where
  "plan target tes = map (\<lambda>te. (target @ names_of te, fs_item te)) tes"

text \<open>A planned directory may exist as one, a planned file may replace a file.\<close>

fun may_write :: "fs_node \<Rightarrow> fs_node option \<Rightarrow> bool" where
  "may_write Dir old \<longleftrightarrow> old = None \<or> old = Some Dir"
| "may_write (File _) old \<longleftrightarrow> (case old of None \<Rightarrow> True | Some (File _) \<Rightarrow> True | _ \<Rightarrow> False)"
| "may_write (Link _) old \<longleftrightarrow> False"

definition compatible :: "(path \<times> fs_node) list \<Rightarrow> host_fs \<Rightarrow> bool" where
  "compatible P fs \<longleftrightarrow> list_all (\<lambda>(q, x). may_write x (fs_lookup fs q)) P"

definition wrote :: "(path \<times> fs_node) list \<Rightarrow> path set \<Rightarrow> host_fs \<Rightarrow> host_fs \<Rightarrow> bool" where
  "wrote P W fs fs' \<longleftrightarrow> W \<subseteq> fst ` set P \<and>
    (\<forall>q. fs_lookup fs' q = (if q \<in> W then map_of P q else fs_lookup fs q))"

lemma wrote_refl [simp]: "wrote P {} fs fs"
  by (simp add: wrote_def)

lemma wrote_trans: "wrote P V fs fs1 \<Longrightarrow> wrote P W fs1 fs2 \<Longrightarrow> wrote P (V \<union> W) fs fs2"
  by (auto simp: wrote_def)

lemma compatibleD: "compatible P fs \<Longrightarrow> map_of P q = Some x \<Longrightarrow> may_write x (fs_lookup fs q)"
  by (auto simp: compatible_def list_all_iff dest: map_of_SomeD)

lemma may_write_again: "may_write x old \<Longrightarrow> may_write x (Some x)"
  by (cases x) auto

lemma wrote_compatible:
  assumes "compatible P fs" "wrote P W fs fs'" "distinct (map fst P)"
  shows "compatible P fs'"
  unfolding compatible_def list_all_iff
proof (clarify)
  fix q x assume qx: "(q, x) \<in> set P"
  then have m: "map_of P q = Some x" using assms(3) by simp
  then show "may_write x (fs_lookup fs' q)"
    using compatibleD [OF assms(1) m] may_write_again assms(2) by (simp add: wrote_def)
qed

lemma wrote_dir:
  assumes "compatible P fs" "wrote P W fs fs'" "fs_lookup fs q = Some Dir"
  shows "fs_lookup fs' q = Some Dir"
proof (cases "q \<in> W")
  case True
  then obtain x where x: "map_of P q = Some x" using assms(2) unfolding wrote_def
    by (metis map_of_eq_None_iff not_None_eq subsetD)
  then have "x = Dir" using compatibleD [OF assms(1) x] assms(3) by (cases x) auto
  with x True assms(2) show ?thesis by (simp add: wrote_def)
qed (use assms in \<open>simp add: wrote_def\<close>)

lemma wrote_dirs_above:
  "compatible P fs \<Longrightarrow> wrote P W fs fs' \<Longrightarrow> dirs_above fs p \<Longrightarrow> dirs_above fs' p"
  by (auto simp: dirs_above_def intro: wrote_dir)

section \<open>Attributes\<close>

lemma fs_lookup_attributes [simp]: "fs_lookup (apply_unix_attributes p e fs) q = fs_lookup fs q"
proof -
  have "fs_lookup (fold (\<lambda>(name, v). set_xattr p name v) xs fs) q = fs_lookup fs q" for xs fs
    by (induction xs arbitrary: fs) (auto simp: set_xattr_def)
  then show ?thesis
    by (simp add: apply_unix_attributes_def Let_def set_permissions_def set_owner_def set_mtime_def)
qed

section \<open>One entry\<close>

lemma name_not_dots: "name_ok c \<Longrightarrow> c \<noteq> ''..''"
  by (auto simp: name_ok_def starts_with_def)

lemma plan_lookup:
  assumes "plain_layer tes" "te \<in> set tes"
  shows "map_of (plan target tes) (target @ names_of te) = Some (fs_item te)"
proof -
  have "distinct (map fst (plan target tes))"
    using assms(1) by (auto simp: plan_def comp_def plain_layer_def distinct_map inj_on_def)
  moreover have "(target @ names_of te, fs_item te) \<in> set (plan target tes)" using assms(2) by (auto simp: plan_def)
  ultimately show ?thesis by simp
qed

lemma plan_distinct: "plain_layer tes \<Longrightarrow> distinct (map fst (plan target tes))"
  by (auto simp: plan_def comp_def plain_layer_def distinct_map inj_on_def)

lemma plan_key: "te \<in> set tes \<Longrightarrow> target @ names_of te \<in> fst ` set (plan target tes)"
  by (force simp: plan_def)

lemma wrote_node:
  assumes "plain_layer tes" "te \<in> set tes" "target @ names_of te \<noteq> []"
  shows "wrote (plan target tes) {target @ names_of te} fs (set_node (target @ names_of te) (fs_item te) fs)"
  using assms(3) plan_lookup [OF assms(1,2), of target] plan_key [OF assms(2), of target] by (auto simp: wrote_def)

lemma wrote_same:
  assumes "plain_layer tes" "te \<in> set tes" "fs_lookup fs (target @ names_of te) = Some (fs_item te)"
  shows "wrote (plan target tes) {target @ names_of te} fs fs"
  using assms(3) plan_lookup [OF assms(1,2), of target] plan_key [OF assms(2), of target] by (auto simp: wrote_def)

lemma stored_entry_fields [simp]:
  "de_is_dir (stored_entry E te) = dir_entry te" "\<not> de_is_symlink (stored_entry E te)"
  "de_name (stored_entry E te) = last (names_of te)"
  "de_digest (stored_entry E te) = node_digest E (if dir_entry te then blob_node [] else file_node te)"
  by (simp_all add: stored_entry_def entry_of_raw_def raw_of_def)

lemma write_entry_plain:
  assumes E: "ext_ok E" and pl: "plain_layer tes" and te: "te \<in> set tes" "names_of te = cs @ [c]"
    and fs: "dirs_above fs (target @ cs)" "fs_lookup fs (target @ cs) = Some Dir" "compatible (plan target tes) fs"
    and s: "store_ok E ns s" "\<not> dir_entry te \<longrightarrow> holds E s (file_node te) \<and> file_node te \<in> set ns"
  shows "\<exists>s' fs'. write_entry E (stored_entry E te) (target @ names_of te) s fs = (Inr (), s', fs') \<and>
    only_cache s s' \<and> store_inv s' \<and> wrote (plan target tes) {target @ names_of te} fs fs'"
proof -
  define full where "full = target @ names_of te"
  have ne: "full \<noteq> []" and bl: "butlast full = target @ cs" by (simp_all add: full_def te(2) butlast_append)
  have "name_ok c" using pl te by (auto simp: plain_layer_def list_all_iff plain_entry_def)
  then have da: "dirs_above fs full"
    using fs(1,2) name_not_dots dirs_above_snoc [of fs "target @ cs" c] by (simp add: full_def te(2))
  have mw: "may_write (fs_item te) (fs_lookup fs full)"
    using compatibleD [OF fs(3) plan_lookup [OF pl te(1)]] by (simp add: full_def)
  have inv: "store_inv s" using s(1) by (simp add: store_ok_def)
  show ?thesis
  proof (cases "dir_entry te")
    case True
    then consider "fs_lookup fs full = None" | "fs_lookup fs full = Some Dir" using mw by (auto simp: fs_item_def)
    then show ?thesis
    proof cases
      case 1
      have "create_dir_all full fs = (Inr (), set_node full Dir fs)" by (rule create_dir_new [OF da ne 1])
      then show ?thesis using True inv wrote_node [OF pl te(1), of target fs] ne
        by (simp add: write_entry_def full_def [symmetric] fs_item_def)
    next
      case 2
      have "create_dir_all full fs = (Inr (), fs)" by (rule create_dir_existing [OF da 2])
      then show ?thesis using True inv wrote_same [OF pl te(1), of fs target] 2
        by (simp add: write_entry_def full_def [symmetric] fs_item_def)
    qed
  next
    case False
    have cd: "create_dir_all (butlast full) fs = (Inr (), fs)" unfolding bl by (rule create_dir_existing [OF fs(1,2)])
    have old: "fs_lookup fs full = None \<or> (\<exists>b. fs_lookup fs full = Some (File b))"
      using mw False by (auto simp: fs_item_def split: option.splits fs_node.splits)
    have wf: "write_file full (the_data te) fs = (Inr (), set_node full (File (the_data te)) fs)"
      by (rule write_file_dirs [OF da ne old])
    have wr: "wrote (plan target tes) {full} fs (set_node full (File (the_data te)) fs)"
      using wrote_node [OF pl te(1), of target fs] ne False by (simp add: full_def fs_item_def)
    have fn: "inline_data (file_node te) = the_data te" by (simp add: file_node_def blob_node_def)
    have h: "holds E s (file_node te)" "file_node te \<in> set ns" using s(2) False by auto
    show ?thesis
    proof (cases "map_of (blob_files s) (node_digest E (file_node te))")
      case None
      obtain s' where g: "get_archived E s (node_digest E (file_node te)) = (Inr (file_node te), s')"
        "store_inv s'" "only_cache s s'"
        using get_archived_holds [OF E _ inv h(1)] by (auto simp: file_node_def)
      with None cd wf wr ne False show ?thesis by (simp add: write_entry_def full_def [symmetric] fn)
    next
      case (Some b)
      then have "b = the_data te" using s(1) h(2) by (auto simp: store_ok_def room_for_def list_all_iff fn)
      with Some cd wf wr ne False inv show ?thesis by (simp add: write_entry_def full_def [symmetric])
    qed
  qed
qed

section \<open>The entries of one directory\<close>

lemma only_cache_store_ok: "only_cache s s' \<Longrightarrow> store_inv s' \<Longrightarrow> store_ok E ns s \<Longrightarrow> store_ok E ns s'"
  by (simp add: store_ok_def room_for_def only_cacheD)

lemma only_cache_holds_dir: "only_cache s s' \<Longrightarrow> holds_dir n E C tes s' cs \<longleftrightarrow> holds_dir n E C tes s cs"
  by (induction n arbitrary: cs) (auto simp: only_cache_holds)

lemma join_relative: "list_all name_ok cs \<Longrightarrow> \<not> starts_with (join ''/'' cs) ''/''"
proof (cases cs)
  case (Cons c ds)
  assume "list_all name_ok cs"
  then have "c \<noteq> []" "CHR ''/'' \<notin> set c" by (auto simp: Cons name_ok_def)
  then show ?thesis by (cases c; cases "ds = []") (auto simp: Cons join_cons starts_with_def)
qed (simp add: starts_with_def)

lemma full_path_plain:
  assumes "list_all plain_entry tes" "te \<in> set (kids tes cs)"
  shows "path_join target (if join ''/'' cs = [] then de_name (stored_entry E te) else join ''/'' cs @ ''/'' @ de_name (stored_entry E te)) =
    target @ names_of te"
proof -
  have "plain_entry te" using assms(1) kids_length [OF assms] by (simp add: list_all_iff)
  then have "list_all name_ok (names_of te)" by (simp add: plain_entry_def)
  then show ?thesis
    unfolding child_string [OF assms] by (simp add: path_join_def join_relative path_comps_join)
qed

lemma materialize_entries_plain:
  assumes E: "ext_ok E" and pl: "plain_layer tes"
    and files: "\<forall>te \<in> set tes. \<not> dir_entry te \<longrightarrow> file_node te \<in> set ns"
  shows "set ks \<subseteq> set (kids tes cs) \<Longrightarrow> store_ok E ns s \<Longrightarrow> (\<forall>te \<in> set ks. \<not> dir_entry te \<longrightarrow> holds E s (file_node te)) \<Longrightarrow>
    dirs_above fs (target @ cs) \<Longrightarrow> fs_lookup fs (target @ cs) = Some Dir \<Longrightarrow> compatible (plan target tes) fs \<Longrightarrow>
    \<exists>s' fs'. materialize_entries E (map (stored_entry E) ks) target (join ''/'' cs) s fs = (Inr (), s', fs') \<and>
      only_cache s s' \<and> store_inv s' \<and> wrote (plan target tes) ((\<lambda>te. target @ names_of te) ` set ks) fs fs'"
proof (induction ks arbitrary: s fs)
  case Nil
  then show ?case by (simp add: store_ok_def)
next
  case (Cons te ks)
  have plain: "list_all plain_entry tes" using pl by (simp add: plain_layer_def)
  have tk: "te \<in> set (kids tes cs)" using Cons.prems(1) by simp
  then obtain c where te: "te \<in> set tes" "names_of te = cs @ [c]" using kids_length [OF plain tk] by blast
  have hf: "\<not> dir_entry te \<longrightarrow> holds E s (file_node te) \<and> file_node te \<in> set ns"
    using Cons.prems(3) files te(1) by simp
  obtain s1 fs1 where w: "write_entry E (stored_entry E te) (target @ names_of te) s fs = (Inr (), s1, fs1)"
    "only_cache s s1" "store_inv s1" "wrote (plan target tes) {target @ names_of te} fs fs1"
    using write_entry_plain [OF E pl te Cons.prems(4,5,6) Cons.prems(2) hf] by blast
  define fs2 where "fs2 = apply_unix_attributes (target @ names_of te) (stored_entry E te) fs1"
  have w2: "wrote (plan target tes) {target @ names_of te} fs fs2" using w(4) by (simp add: wrote_def fs2_def)
  have step: "materialize_entries E (map (stored_entry E) (te # ks)) target (join ''/'' cs) s fs =
      materialize_entries E (map (stored_entry E) ks) target (join ''/'' cs) s1 fs2"
    using full_path_plain [OF plain tk, of target E] w(1) by (simp add: Let_def fs2_def)
  have ks: "set ks \<subseteq> set (kids tes cs)" using Cons.prems(1) by simp
  have hk: "\<forall>te \<in> set ks. \<not> dir_entry te \<longrightarrow> holds E s1 (file_node te)"
    using Cons.prems(3) only_cache_holds [OF w(2)] by simp
  obtain s' fs' where r: "materialize_entries E (map (stored_entry E) ks) target (join ''/'' cs) s1 fs2 = (Inr (), s', fs')"
    "only_cache s1 s'" "store_inv s'" "wrote (plan target tes) ((\<lambda>te. target @ names_of te) ` set ks) fs2 fs'"
    using Cons.IH [OF ks only_cache_store_ok [OF w(2,3) Cons.prems(2)] hk wrote_dirs_above [OF Cons.prems(6) w2 Cons.prems(4)]
        wrote_dir [OF Cons.prems(6) w2 Cons.prems(5)] wrote_compatible [OF Cons.prems(6) w2 plan_distinct [OF pl]]] by blast
  have "wrote (plan target tes) ((\<lambda>te. target @ names_of te) ` set (te # ks)) fs fs'"
    using wrote_trans [OF w2 r(4)] by simp
  then show ?case using step r only_cache_trans [OF w(2) r(2)] by auto
qed

section \<open>Whole directories\<close>

primrec reached :: "nat \<Rightarrow> tar_entry list \<Rightarrow> path \<Rightarrow> tar_entry set" where
  "reached 0 tes cs = {}"
| "reached (Suc n) tes cs =
    set (kids tes cs) \<union> (\<Union>te \<in> set (kids tes cs). if dir_entry te then reached n tes (names_of te) else {})"

text \<open>The outcome of one step: nothing but cache entries and planned nodes changed.\<close>

definition good_step ::
    "ext \<Rightarrow> path \<Rightarrow> tar_entry list \<Rightarrow> tar_entry set \<Rightarrow> mmap_store \<Rightarrow> host_fs \<Rightarrow>
     ((oci_error + unit) \<times> mmap_store \<times> host_fs) option \<Rightarrow> bool" where
  "good_step E target tes T s fs r \<longleftrightarrow> (\<exists>s' fs'. r = Some (Inr (), s', fs') \<and> only_cache s s' \<and> store_inv s' \<and>
     wrote (plan target tes) ((\<lambda>te. target @ names_of te) ` T) fs fs')"

lemma each_edge_good:
  assumes pl: "plain_layer tes"
    and step: "\<And>te s' fs'. te \<in> set ks \<Longrightarrow> only_cache s s' \<Longrightarrow> store_inv s' \<Longrightarrow> compatible (plan target tes) fs' \<Longrightarrow>
      (\<And>q. fs_lookup fs q = Some Dir \<Longrightarrow> fs_lookup fs' q = Some Dir) \<Longrightarrow>
      good_step E target tes (T te) s' fs' (f (dg te) s' fs')"
    and init: "store_inv s" "compatible (plan target tes) fs"
  shows "good_step E target tes (\<Union>te \<in> set ks. T te) s fs (each_edge f (map dg ks) s fs)"
proof -
  have "good_step E target tes (\<Union>te \<in> set ks'. T te) s1 fs1 (each_edge f (map dg ks') s1 fs1)"
    if "set ks' \<subseteq> set ks" "only_cache s s1" "store_inv s1" "compatible (plan target tes) fs1"
      "\<And>q. fs_lookup fs q = Some Dir \<Longrightarrow> fs_lookup fs1 q = Some Dir" for ks' s1 fs1
    using that
  proof (induction ks' arbitrary: s1 fs1)
    case Nil
    then show ?case by (simp add: good_step_def)
  next
    case (Cons te ks')
    obtain s2 fs2 where w: "f (dg te) s1 fs1 = Some (Inr (), s2, fs2)" "only_cache s1 s2" "store_inv s2"
      "wrote (plan target tes) ((\<lambda>te. target @ names_of te) ` T te) fs1 fs2"
      using step [of te s1 fs1] Cons.prems by (auto simp: good_step_def)
    have "good_step E target tes (\<Union>te \<in> set ks'. T te) s2 fs2 (each_edge f (map dg ks') s2 fs2)"
    proof (rule Cons.IH)
      show "fs_lookup fs q = Some Dir \<Longrightarrow> fs_lookup fs2 q = Some Dir" for q
        using Cons.prems(5) wrote_dir [OF Cons.prems(4) w(4)] by blast
    qed (use Cons.prems w(3) only_cache_trans [OF Cons.prems(2) w(2)] wrote_compatible [OF Cons.prems(4) w(4) plan_distinct [OF pl]]
          in auto)
    then obtain s' fs' where r: "each_edge f (map dg ks') s2 fs2 = Some (Inr (), s', fs')" "only_cache s2 s'" "store_inv s'"
      "wrote (plan target tes) ((\<lambda>te. target @ names_of te) ` (\<Union>te \<in> set ks'. T te)) fs2 fs'"
      by (auto simp: good_step_def)
    have "wrote (plan target tes) ((\<lambda>te. target @ names_of te) ` (\<Union>te \<in> set (te # ks'). T te)) fs1 fs'"
      using wrote_trans [OF w(4) r(4)] by (simp add: image_Un)
    then show ?case using w(1) r only_cache_trans [OF w(2) r(2)] by (simp add: good_step_def)
  qed
  then show ?thesis using init by simp
qed

lemma get_holds:
  assumes "ext_ok E" "wf_node n" "store_inv s" "holds E s n"
  obtains b s' where "get s (node_digest E n) = (Inr b, s')" "store_inv s'" "only_cache s s'"
proof -
  obtain r s' where g: "get s (node_digest E n) = (r, s')" by fastforce
  obtain s'' where a: "get_archived E s (node_digest E n) = (Inr n, s'')" "store_inv s''" "only_cache s s''"
    using get_archived_holds [OF assms] .
  from a(1) g obtain b where "r = Inr b" "s'' = s'" by (cases r) (auto simp: get_archived_def)
  with g a show thesis by (intro that) auto
qed

lemma layer_text:
  assumes "list_all name_ok cs"
  shows "from_utf8_lossy (as_bytes (join ''/'' cs)) = join ''/'' cs"
proof -
  have "as_bytes (a @ b) = as_bytes a @ as_bytes b" for a b by (simp add: as_bytes_def)
  moreover have "utf8_valid (as_bytes ''/'')" by code_simp
  ultimately have "utf8_valid (as_bytes (join ''/'' cs))"
    using assms by (induction cs rule: join.induct [of _ "''/''"]) (auto simp: name_ok_def utf8_valid_append as_bytes_def)
  then show ?thesis by simp
qed

lemma tree_inline_entries:
  assumes "ext_ok E" "list_all (\<lambda>te. te \<in> set tes) ks" "json_ok C (map (\<lambda>te. entry_to_json E (stored_entry E te)) tes)"
  shows "from_inline_bytes E C (concat (map (to_inline_bytes E C) (map (stored_entry E) ks))) = map (stored_entry E) ks"
proof (rule inline_roundtrip)
  show "hex_ok E" using assms(1) by (simp add: ext_ok_def)
  show "list_all (\<lambda>e. wf_digest (de_digest e)) (map (stored_entry E) ks)" using assms(1) by (simp add: list_all_iff)
  show "json_ok C (map (entry_to_json E) (map (stored_entry E) ks))" using assms(2,3) by (auto simp: json_ok_def list_all_iff)
qed

lemma materialize_file_edge:
  assumes "ext_ok E" "store_inv s" "holds E s (file_node te)"
  shows "good_step E target tes {} s fs (materialize_tree (Suc m) E C target base (node_digest E (file_node te)) s fs)"
proof -
  obtain s' where "get_archived E s (node_digest E (file_node te)) = (Inr (file_node te), s')" "store_inv s'" "only_cache s s'"
    using get_archived_holds [OF assms(1) _ assms(2,3)] by (auto simp: file_node_def)
  then show ?thesis by (simp add: good_step_def file_node_def blob_node_def is_layer_def is_tree_def)
qed

lemma skip_missing_good:
  assumes "ext_ok E" "wf_node n" "store_inv s" "holds E s n"
    and "\<And>s'. store_inv s' \<Longrightarrow> only_cache s s' \<Longrightarrow> good_step E target tes T s' fs (f (node_digest E n) s' fs)"
  shows "good_step E target tes T s fs (skip_missing f (node_digest E n) s fs)"
proof -
  obtain b s' where g: "get s (node_digest E n) = (Inr b, s')" "store_inv s'" "only_cache s s'"
    using get_holds [OF assms(1-4)] .
  then obtain s'' fs' where "f (node_digest E n) s' fs = Some (Inr (), s'', fs')" "only_cache s' s''" "store_inv s''"
    "wrote (plan target tes) ((\<lambda>te. target @ names_of te) ` T) fs fs'"
    using assms(5) [of s'] by (auto simp: good_step_def)
  then show ?thesis using g only_cache_trans [OF g(3)] by (simp add: skip_missing_def good_step_def)
qed

lemma good_step_seq:
  assumes "only_cache s s1" "wrote (plan target tes) ((\<lambda>te. target @ names_of te) ` V) fs fs1"
    and "good_step E target tes T s1 fs1 r"
  shows "good_step E target tes (V \<union> T) s fs r"
  using assms(3) only_cache_trans [OF assms(1)] wrote_trans [OF assms(2)] unfolding good_step_def image_Un by blast

lemma materialize_layer_edge:
  assumes E: "ext_ok E" and pl: "plain_layer tes" and cs: "list_all name_ok cs"
    and s: "store_inv s" "holds E s (layer_of_dir E C tes cs)"
    and tree: "\<And>s'. store_inv s' \<Longrightarrow> only_cache s s' \<Longrightarrow>
      good_step E target tes T s' fs (materialize_tree m E C target (join ''/'' cs) (node_digest E (tree_of_dir E C tes cs)) s' fs)"
  shows "good_step E target tes T s fs (materialize_tree (Suc m) E C target base (node_digest E (layer_of_dir E C tes cs)) s fs)"
proof -
  have plain: "list_all plain_entry tes" using pl by (simp add: plain_layer_def)
  obtain s1 where g: "get_archived E s (node_digest E (layer_of_dir E C tes cs)) = (Inr (layer_of_dir E C tes cs), s1)"
    "store_inv s1" "only_cache s s1"
    using get_archived_holds [OF E wf_layer_nodes(2) [OF E plain] s] .
  obtain s2 fs2 where r: "materialize_tree m E C target (join ''/'' cs) (node_digest E (tree_of_dir E C tes cs)) s1 fs = Some (Inr (), s2, fs2)"
    "only_cache s1 s2" "store_inv s2" "wrote (plan target tes) ((\<lambda>te. target @ names_of te) ` T) fs fs2"
    using tree [OF g(2,3)] by (auto simp: good_step_def)
  have "materialize_tree (Suc m) E C target base (node_digest E (layer_of_dir E C tes cs)) s fs = Some (Inr (), s2, fs2)"
    using g(1) r(1) layer_text [OF cs]
    by (simp add: layer_of_dir_eq [OF plain] layer_node_def is_layer_def)
  then show ?thesis using r only_cache_trans [OF g(3) r(2)] by (simp add: good_step_def)
qed

lemma materialize_tree_entries:
  assumes E: "ext_ok E" and pl: "plain_layer tes" and js: "json_ok C (map (\<lambda>te. entry_to_json E (stored_entry E te)) tes)"
    and s: "store_inv s" "holds E s (tree_of_dir E C tes cs)"
  obtains s1 where "store_inv s1" "only_cache s s1"
    "materialize_tree (Suc m) E C target base (node_digest E (tree_of_dir E C tes cs)) s fs =
      (case materialize_entries E (map (stored_entry E) (kids tes cs)) target base s1 fs of
         (Inl err, s2, fs2) \<Rightarrow> Some (Inl err, s2, fs2)
       | (Inr _, s2, fs2) \<Rightarrow>
           each_edge (skip_missing (materialize_tree m E C target base))
             (map (\<lambda>te. node_digest E (if dir_entry te then layer_of_dir E C tes (names_of te) else file_node te)) (kids tes cs)) s2 fs2)"
proof -
  have plain: "list_all plain_entry tes" using pl by (simp add: plain_layer_def)
  obtain s1 where g: "get_archived E s (node_digest E (tree_of_dir E C tes cs)) = (Inr (tree_of_dir E C tes cs), s1)"
    "store_inv s1" "only_cache s s1"
    using get_archived_holds [OF E wf_layer_nodes(1) [OF E plain] s] .
  define inl where "inl = concat (map (to_inline_bytes E C) (map (stored_entry E) (kids tes cs)))"
  have t: "inline_data (tree_of_dir E C tes cs) = inl" "is_tree (tree_of_dir E C tes cs)" "\<not> is_layer (tree_of_dir E C tes cs)"
    "edges (tree_of_dir E C tes cs) =
      map (\<lambda>te. node_digest E (if dir_entry te then layer_of_dir E C tes (names_of te) else file_node te)) (kids tes cs)"
    by (simp_all add: tree_of_dir_def dir_tree_def tree_node_def is_tree_def is_layer_def inl_def)
  have me: "(if inl = [] then (Inr (), s1, fs) else materialize_entries E (from_inline_bytes E C inl) target base s1 fs) =
      materialize_entries E (map (stored_entry E) (kids tes cs)) target base s1 fs"
  proof (cases "kids tes cs = []")
    case False
    then have "inl \<noteq> []" unfolding inl_def by (intro inline_nonempty) simp
    moreover have "from_inline_bytes E C inl = map (stored_entry E) (kids tes cs)"
      unfolding inl_def by (rule tree_inline_entries [OF E _ js]) (simp add: list_all_iff kids_def)
    ultimately show ?thesis by simp
  qed (simp add: inl_def)
  have "materialize_tree (Suc m) E C target base (node_digest E (tree_of_dir E C tes cs)) s fs =
      (case materialize_entries E (map (stored_entry E) (kids tes cs)) target base s1 fs of
         (Inl err, s2, fs2) \<Rightarrow> Some (Inl err, s2, fs2)
       | (Inr _, s2, fs2) \<Rightarrow>
           each_edge (skip_missing (materialize_tree m E C target base))
             (map (\<lambda>te. node_digest E (if dir_entry te then layer_of_dir E C tes (names_of te) else file_node te)) (kids tes cs)) s2 fs2)"
    by (simp only: materialize_tree.simps g(1) prod.case sum.case t if_False not_True_eq_False me)
  with g(2,3) show thesis by (rule that)
qed

lemma materialize_tree_plain:
  assumes E: "ext_ok E" and pl: "plain_layer tes" and files: "\<forall>te \<in> set tes. \<not> dir_entry te \<longrightarrow> file_node te \<in> set ns"
    and js: "json_ok C (map (\<lambda>te. entry_to_json E (stored_entry E te)) tes)"
  shows "holds_dir n E C tes s cs \<Longrightarrow> store_ok E ns s \<Longrightarrow> cs \<in> set (dir_paths tes) \<Longrightarrow> dirs_above fs (target @ cs) \<Longrightarrow>
    fs_lookup fs (target @ cs) = Some Dir \<Longrightarrow> compatible (plan target tes) fs \<Longrightarrow> 2 * n \<le> m \<Longrightarrow>
    good_step E target tes (reached n tes cs) s fs
      (materialize_tree m E C target (join ''/'' cs) (node_digest E (tree_of_dir E C tes cs)) s fs)"
proof (induction n arbitrary: s fs cs m)
  case (Suc n)
  have plain: "list_all plain_entry tes" using pl by (simp add: plain_layer_def)
  obtain k where m: "m = Suc (Suc k)" "2 * n \<le> k" using Suc.prems(7) by (cases m; cases "m - 1") auto
  have inv: "store_inv s" using Suc.prems(2) by (simp add: store_ok_def)
  let ?K = "kids tes cs"
  obtain s1 where s1: "store_inv s1" "only_cache s s1" "materialize_tree m E C target (join ''/'' cs) (node_digest E (tree_of_dir E C tes cs)) s fs =
      (case materialize_entries E (map (stored_entry E) ?K) target (join ''/'' cs) s1 fs of
         (Inl err, s2, fs2) \<Rightarrow> Some (Inl err, s2, fs2)
       | (Inr _, s2, fs2) \<Rightarrow>
           each_edge (skip_missing (materialize_tree (Suc k) E C target (join ''/'' cs)))
             (map (\<lambda>te. node_digest E (if dir_entry te then layer_of_dir E C tes (names_of te) else file_node te)) ?K) s2 fs2)"
    using materialize_tree_entries [OF E pl js inv, of cs "Suc k" target "join ''/'' cs" fs] Suc.prems(1) m(1) by auto
  have hk: "\<forall>te \<in> set ?K. \<not> dir_entry te \<longrightarrow> holds E s1 (file_node te)"
    using Suc.prems(1) only_cache_holds [OF s1(2)] by auto
  obtain s2 fs2 where e: "materialize_entries E (map (stored_entry E) ?K) target (join ''/'' cs) s1 fs = (Inr (), s2, fs2)"
    "only_cache s1 s2" "store_inv s2" "wrote (plan target tes) ((\<lambda>te. target @ names_of te) ` set ?K) fs fs2"
    using materialize_entries_plain [OF E pl files subset_refl only_cache_store_ok [OF s1(2,1) Suc.prems(2)] hk Suc.prems(4-6)] by blast
  have c2: "compatible (plan target tes) fs2" by (rule wrote_compatible [OF Suc.prems(6) e(4) plan_distinct [OF pl]])
  have oc: "only_cache s s2" using only_cache_trans [OF s1(2) e(2)] .
  let ?T = "\<lambda>te. if dir_entry te then reached n tes (names_of te) else {}"
  have "good_step E target tes (\<Union>te \<in> set ?K. ?T te) s2 fs2
      (each_edge (skip_missing (materialize_tree (Suc k) E C target (join ''/'' cs)))
        (map (\<lambda>te. node_digest E (if dir_entry te then layer_of_dir E C tes (names_of te) else file_node te)) ?K) s2 fs2)"
  proof (rule each_edge_good [OF pl _ e(3) c2])
    fix te s' fs'
    assume te: "te \<in> set ?K" and s': "only_cache s2 s'" "store_inv s'" and fs': "compatible (plan target tes) fs'"
      and dirs: "\<And>q. fs_lookup fs2 q = Some Dir \<Longrightarrow> fs_lookup fs' q = Some Dir"
    have oc': "only_cache s s'" using only_cache_trans [OF oc s'(1)] .
    obtain c where nm: "te \<in> set tes" "names_of te = cs @ [c]" using kids_length [OF plain te] by blast
    show "good_step E target tes (?T te) s' fs'
        (skip_missing (materialize_tree (Suc k) E C target (join ''/'' cs))
          (node_digest E (if dir_entry te then layer_of_dir E C tes (names_of te) else file_node te)) s' fs')"
    proof (cases "dir_entry te")
      case False
      then have h: "holds E s' (file_node te)" using Suc.prems(1) te only_cache_holds [OF oc'] by auto
      have "good_step E target tes {} s' fs' (skip_missing (materialize_tree (Suc k) E C target (join ''/'' cs)) (node_digest E (file_node te)) s' fs')"
      proof (rule skip_missing_good [OF E _ s'(2) h])
        show "wf_node (file_node te)" by (simp add: file_node_def)
        fix s'' assume "store_inv s''" "only_cache s' s''"
        then show "good_step E target tes {} s'' fs' (materialize_tree (Suc k) E C target (join ''/'' cs) (node_digest E (file_node te)) s'' fs')"
          using h only_cache_holds by (intro materialize_file_edge [OF E]) auto
      qed
      then show ?thesis using False by simp
    next
      case True
      then have hd: "holds_dir n E C tes s' (names_of te)" using Suc.prems(1) te only_cache_holds_dir [OF oc'] by auto
      then have hl: "holds E s' (layer_of_dir E C tes (names_of te))" by (cases n) auto
      have dp: "names_of te \<in> set (dir_paths tes)" using nm(1) True by (auto simp: dir_paths_def)
      have "name_ok c" using pl nm by (auto simp: plain_layer_def list_all_iff plain_entry_def)
      moreover have "target @ names_of te \<in> (\<lambda>te. target @ names_of te) ` set ?K" using te by blast
      ultimately have da: "dirs_above fs2 (target @ names_of te)" "fs_lookup fs2 (target @ names_of te) = Some Dir"
        using wrote_dirs_above [OF Suc.prems(6) e(4) Suc.prems(4)] wrote_dir [OF Suc.prems(6) e(4) Suc.prems(5)]
          dirs_above_snoc [of fs2 "target @ cs" c] name_not_dots e(4) plan_lookup [OF pl nm(1), of target] True
        by (simp_all add: nm(2) wrote_def fs_item_def)
      have "good_step E target tes (reached n tes (names_of te)) s' fs'
          (skip_missing (materialize_tree (Suc k) E C target (join ''/'' cs)) (node_digest E (layer_of_dir E C tes (names_of te))) s' fs')"
      proof (rule skip_missing_good [OF E wf_layer_nodes(2) [OF E plain] s'(2) hl])
        fix s'' assume s'': "store_inv s''" "only_cache s' s''"
        show "good_step E target tes (reached n tes (names_of te)) s'' fs'
            (materialize_tree (Suc k) E C target (join ''/'' cs) (node_digest E (layer_of_dir E C tes (names_of te))) s'' fs')"
        proof (rule materialize_layer_edge [OF E pl dir_paths_ok [OF pl dp] s''(1)])
          show "holds E s'' (layer_of_dir E C tes (names_of te))" using hl only_cache_holds [OF s''(2)] by simp
          fix s3 assume s3: "store_inv s3" "only_cache s'' s3"
          have oc3: "only_cache s s3" using only_cache_trans [OF oc' only_cache_trans [OF s''(2) s3(2)]] .
          show "good_step E target tes (reached n tes (names_of te)) s3 fs'
              (materialize_tree k E C target (join ''/'' (names_of te)) (node_digest E (tree_of_dir E C tes (names_of te))) s3 fs')"
          proof (rule Suc.IH [OF _ only_cache_store_ok [OF oc3 s3(1) Suc.prems(2)] dp _ _ fs' m(2)])
            show "holds_dir n E C tes s3 (names_of te)"
              using hd only_cache_holds_dir [OF only_cache_trans [OF s''(2) s3(2)]] by simp
            show "dirs_above fs' (target @ names_of te)" "fs_lookup fs' (target @ names_of te) = Some Dir"
              using da dirs by (auto simp: dirs_above_def)
          qed
        qed
      qed
      then show ?thesis using True by simp
    qed
  qed
  from good_step_seq [OF oc e(4) this] show ?case by (simp add: s1(3) e(1))
qed simp

section \<open>Layers\<close>

lemma reached_mono: "reached n tes cs \<subseteq> reached (Suc n) tes cs"
proof (induction n arbitrary: cs)
  case (Suc n)
  have "reached n tes (names_of te) \<subseteq> reached (Suc n) tes (names_of te)" for te by (rule Suc.IH)
  then show ?case by (simp only: reached.simps) (auto split: if_splits)
qed simp

lemma reached_le: "m \<le> n \<Longrightarrow> reached m tes cs \<subseteq> reached n tes cs"
proof (induction n)
  case (Suc n)
  then show ?case using reached_mono [of n tes cs] by (cases "m = Suc n") (auto simp del: reached.simps)
qed simp

lemma reached_child:
  "te' \<in> reached n tes cs \<Longrightarrow> dir_entry te' \<Longrightarrow> te \<in> set (kids tes (names_of te')) \<Longrightarrow> te \<in> reached (Suc n) tes cs"
proof (induction n arbitrary: cs)
  case (Suc n)
  from Suc.prems(1) consider "te' \<in> set (kids tes cs)"
    | k where "k \<in> set (kids tes cs)" "dir_entry k" "te' \<in> reached n tes (names_of k)"
    by (auto split: if_splits)
  then show ?case
  proof cases
    case 1
    have "te \<in> reached (Suc n) tes (names_of te')" using Suc.prems(3) by simp
    with 1 Suc.prems(2) show ?thesis by (simp only: reached.simps) (auto split: if_splits)
  next
    case 2
    have "te \<in> reached (Suc n) tes (names_of k)" by (rule Suc.IH [OF 2(3) Suc.prems(2,3)])
    with 2 show ?thesis by (simp only: reached.simps) (auto split: if_splits)
  qed
qed simp

text \<open>Every entry's directory is the root of the layer or has an entry of its own.\<close>

definition parents_listed :: "tar_entry list \<Rightarrow> bool" where
  "parents_listed tes \<longleftrightarrow> list_all (\<lambda>te. butlast (names_of te) \<in> set (dir_paths tes)) tes"

lemma reached_all:
  assumes "plain_layer tes" "parents_listed tes"
  shows "te \<in> set tes \<Longrightarrow> te \<in> reached (length (names_of te)) tes []"
proof (induction "length (names_of te)" arbitrary: te rule: less_induct)
  case less
  have ne: "names_of te \<noteq> []" using assms(1) less.prems by (auto simp: plain_layer_def list_all_iff plain_entry_def)
  then obtain n where n: "length (names_of te) = Suc n" by (cases "names_of te") auto
  have k: "te \<in> set (kids tes (butlast (names_of te)))" using less.prems by (simp add: kids_def)
  show ?case
  proof (cases "butlast (names_of te) = []")
    case True
    with k show ?thesis by (simp add: n)
  next
    case False
    then obtain te' where te': "te' \<in> set tes" "dir_entry te'" "names_of te' = butlast (names_of te)"
      using assms(2) less.prems by (auto simp: parents_listed_def list_all_iff dir_paths_def)
    then have l: "length (names_of te') = n" using n by simp
    have "te' \<in> reached n tes []" using less.hyps [of te'] te'(1) l n by simp
    then show ?thesis using reached_child [OF _ te'(2), of n tes "[]" te] k te'(3) n by simp
  qed
qed

lemma reached_eq:
  assumes "plain_layer tes" "parents_listed tes" "depth tes < n"
  shows "reached n tes [] = set tes"
proof
  have "reached n tes cs \<subseteq> set tes" for cs
    by (induction n arbitrary: cs) (auto simp: kids_def split: if_splits)
  then show "reached n tes [] \<subseteq> set tes" .
  show "set tes \<subseteq> reached n tes []"
  proof
    fix te assume te: "te \<in> set tes"
    have "length (names_of te) \<le> n" using depth_ge [OF te] assms(3) by simp
    then show "te \<in> reached n tes []" using reached_all [OF assms(1,2) te] reached_le by blast
  qed
qed

lemma materialize_layer_plain:
  assumes E: "ext_ok E" and pl: "plain_layer tes" and par: "parents_listed tes"
    and js: "json_ok C (map (\<lambda>te. entry_to_json E (stored_entry E te)) tes)"
    and s: "store_ok E (layer_nodes E C tes) s" "holds_dir n E C tes s []" "depth tes < n" "2 * n \<le> m"
    and fs: "dirs_above fs target" "fs_lookup fs target = Some Dir" "compatible (plan target tes) fs"
  shows "\<exists>s' fs'. materialize_layer m E C target (node_digest E (layer_of_dir E C tes [])) s fs = Some (Inr (), s', fs') \<and>
    (\<forall>q. fs_lookup fs' q = (case map_of (plan target tes) q of Some x \<Rightarrow> Some x | None \<Rightarrow> fs_lookup fs q))"
proof -
  have plain: "list_all plain_entry tes" using pl by (simp add: plain_layer_def)
  let ?L = "layer_of_dir E C tes []" and ?T = "tree_of_dir E C tes []"
  have inv: "store_inv s" using s(1) by (simp add: store_ok_def)
  have hl: "holds E s ?L" and ht: "holds E s ?T" using s(2) by (cases n, simp, simp)+
  obtain s1 where g1: "get_archived E s (node_digest E ?L) = (Inr ?L, s1)" "store_inv s1" "only_cache s s1"
    using get_archived_holds [OF E wf_layer_nodes(2) [OF E plain] inv hl] .
  have "holds E s1 ?T" using ht only_cache_holds [OF g1(3)] by simp
  then obtain s2 where g2: "get_archived E s1 (node_digest E ?T) = (Inr ?T, s2)" "store_inv s2" "only_cache s1 s2"
    using get_archived_holds [OF E wf_layer_nodes(1) [OF E plain] g1(2)] by blast
  have oc: "only_cache s s2" using only_cache_trans [OF g1(3) g2(3)] .
  have files: "\<forall>te \<in> set tes. \<not> dir_entry te \<longrightarrow> file_node te \<in> set (layer_nodes E C tes)" by (auto simp: layer_nodes_def)
  have "good_step E target tes (reached n tes []) s2 fs
      (materialize_tree m E C target (join ''/'' []) (node_digest E ?T) s2 fs)"
    using s fs only_cache_holds_dir [OF oc] only_cache_store_ok [OF oc g2(2) s(1)]
    by (intro materialize_tree_plain [OF E pl files js]) (simp_all add: dir_paths_def)
  then obtain s3 fs3 where r: "materialize_tree m E C target [] (node_digest E ?T) s2 fs = Some (Inr (), s3, fs3)"
    "wrote (plan target tes) ((\<lambda>te. target @ names_of te) ` set tes) fs fs3"
    by (auto simp: good_step_def reached_eq [OF pl par s(3)])
  have "materialize_layer m E C target (node_digest E ?L) s fs = Some (Inr (), s3, fs3)"
    using g1(1) g2(1) r(1) layer_text [of "[]"]
    by (simp add: materialize_layer_def layer_of_dir_eq [OF plain] layer_node_def is_layer_def Let_def
        tree_of_dir_def dir_tree_def tree_node_def is_whiteout_def is_opaque_dir_def)
  moreover have "fs_lookup fs3 q = (case map_of (plan target tes) q of Some x \<Rightarrow> Some x | None \<Rightarrow> fs_lookup fs q)" for q
  proof -
    have "map_of (plan target tes) q = None \<longleftrightarrow> q \<notin> (\<lambda>te. target @ names_of te) ` set tes"
      by (force simp: map_of_eq_None_iff plan_def)
    then show ?thesis using r(2) by (auto simp: wrote_def split: option.splits)
  qed
  ultimately show ?thesis by blast
qed


section \<open>A sample layer\<close>

text \<open>The reference instance of the crates with a digest that is never zero.\<close>

definition layer_ext :: ext where
  "layer_ext = ref_ext\<lparr>sha256 := (\<lambda>bs. 1 # take 31 (bs @ replicate 31 0))\<rparr>"

lemma layer_ext_ok: "ext_ok layer_ext"
  using ref_hex_ok ref_rkyv_ok by (simp add: ext_ok_def layer_ext_def hex_ok_def sha_ok_def rkyv_ok_def min_def)

definition sample_header :: "entry_type \<Rightarrow> tar_header" where
  "sample_header t = \<lparr>th_type = t, th_mode = 493, th_size = 2, th_uid = 0, th_gid = 0, th_mtime = 0, th_link = None\<rparr>"

definition sample_tar :: "tar_entry list" where
  "sample_tar =
    [\<lparr>te_path = Inr ''etc/'', te_header = Inr (sample_header Directory), te_pax = [], te_data = Inr []\<rparr>,
     \<lparr>te_path = Inr ''etc/motd'', te_header = Inr (sample_header RegularFile), te_pax = [], te_data = Inr [72, 105]\<rparr>,
     \<lparr>te_path = Inr ''init'', te_header = Inr (sample_header RegularFile), te_pax = [], te_data = Inr [35, 33]\<rparr>]"

definition sample_lines :: "json list" where
  "sample_lines = map (\<lambda>te. entry_to_json layer_ext (stored_entry layer_ext te)) sample_tar"

text \<open>A JSON codec for these lines: a line is written as its number.\<close>

definition number_lines :: "json list \<Rightarrow> json \<Rightarrow> bytes" where
  "number_lines js j = [word_of_nat (48 + length (takeWhile (\<lambda>x. x \<noteq> j) js))]"

definition numbered_line :: "json list \<Rightarrow> bytes \<Rightarrow> json option" where
  "numbered_line js bs =
    (case bs of [b] \<Rightarrow> if 48 \<le> unat b \<and> unat b - 48 < length js then Some (js ! (unat b - 48)) else None | _ \<Rightarrow> None)"

definition sample_conv :: "json list \<Rightarrow> tar_entry list \<Rightarrow> conv_env" where
  "sample_conv js tes =
    \<lparr>tar_entries = (\<lambda>_. Inr (map Inr tes)), zstd_decode = (\<lambda>_. Inl ''zstd''), gzip_decode = (\<lambda>_. Inl ''gzip''),
     json_to_vec = number_lines js, json_from_slice = numbered_line js, json_pretty = number_lines js,
     manifest_to_vec = (\<lambda>_. []), manifest_from_slice = (\<lambda>_. Inl ''manifest'')\<rparr>"

definition sample_layer_env :: conv_env where
  "sample_layer_env = sample_conv sample_lines sample_tar"

definition empty_root :: host_fs where
  "empty_root = \<lparr>fs_nodes = [([''run''], Dir), ([''run'', ''old''], File [1])], fs_attrs = []\<rparr>"


lemma sample_plain: "plain_layer sample_tar" "parents_listed sample_tar" "depth sample_tar < 3"
  by code_simp+

lemma sample_collision_free: "collision_free layer_ext (layer_nodes layer_ext sample_layer_env sample_tar)"
  by code_simp

lemma sample_json_ok:
  "json_ok sample_layer_env (map (\<lambda>te. entry_to_json layer_ext (stored_entry layer_ext te)) sample_tar)"
  by code_simp


end
