(* ===== verification/Conversion_Limits.thy ===== *)
theory Conversion_Limits
  imports Image_Roundtrip
begin

text \<open>
  Where the conversion and the materialization of layers stop being faithful:
  directories without a name, opaque whiteouts of the image root, whiteouts of
  directories that are not empty, entries below unlisted directories, and the
  third pass over hard links.
\<close>

section \<open>Termination of the conversion\<close>

definition rkyv_total :: "ext \<Rightarrow> bool" where
  "rkyv_total E \<longleftrightarrow> (\<forall>n. \<exists>b. rkyv_to_bytes E n = Inr b)"

lemma put_never_fails: "rkyv_total E \<Longrightarrow> \<exists>d s'. put E s n = (Inr d, s')"
proof -
  assume "rkyv_total E"
  then obtain b where "rkyv_to_bytes E n = Inr b" by (auto simp: rkyv_total_def)
  then show ?thesis by (simp add: put_def Let_def)
qed

lemma put_blocking_never_fails: "rkyv_total E \<Longrightarrow> \<exists>d s'. put_blocking E s n = (Inr d, s')"
  unfolding put_eq_put_blocking by (rule put_never_fails)

text \<open>Directories found in the index have a name.\<close>

definition named_dirs :: "dir_index \<Rightarrow> directory_entry list \<Rightarrow> bool" where
  "named_dirs ix es \<longleftrightarrow> (\<forall>p. \<forall>i \<in> set (index_kids ix p). de_is_dir (es ! i) \<longrightarrow> de_name (es ! i) \<noteq> [])"

definition longest_key :: "dir_index \<Rightarrow> nat" where
  "longest_key ix = foldr (\<lambda>kv m. max (length (fst kv)) m) ix 0"

lemma longest_key_ge: "kv \<in> set ix \<Longrightarrow> length (fst kv) \<le> longest_key ix"
  by (induction ix) (auto simp: longest_key_def le_max_iff_disj)

lemma index_kids_long: "longest_key ix < length p \<Longrightarrow> index_kids ix p = []"
  using longest_key_ge by (fastforce simp: index_kids_def split: option.splits dest: map_of_SomeD)

lemma store_children_returns:
  assumes "\<And>i s. i \<in> set is \<Longrightarrow> de_is_dir (es ! i) \<Longrightarrow>
      rec (if cur = [] then de_name (es ! i) else cur @ ''/'' @ de_name (es ! i)) s \<noteq> None"
  shows "store_children rec es cur is s \<noteq> None"
  using assms
proof (induction "is" arbitrary: s)
  case (Cons i "is")
  have IH: "store_children rec es cur is s1 \<noteq> None" for s1 using Cons.IH [of s1] Cons.prems by auto
  show ?case
  proof (cases "de_is_dir (es ! i)")
    case True
    then obtain r s1 where "rec (if cur = [] then de_name (es ! i) else cur @ ''/'' @ de_name (es ! i)) s = Some (r, s1)"
      using Cons.prems [of i s] by auto
    then show ?thesis using IH [of s1] True by (auto simp: Let_def split: sum.splits option.splits)
  next
    case False
    then show ?thesis using IH [of s] by (auto simp: Let_def split: sum.splits option.splits)
  qed
qed simp

lemma store_trees_returns:
  assumes "named_dirs ix es"
  shows "longest_key ix + 1 < n + length cur \<Longrightarrow> n > 0 \<Longrightarrow> store_trees n E C ix es cur s \<noteq> None"
proof (induction n arbitrary: cur s)
  case (Suc n)
  let ?K = "index_kids ix cur"
  have "store_children (store_trees n E C ix es) es cur ?K s \<noteq> None"
  proof (cases "?K = []")
    case False
    then have l: "length cur \<le> longest_key ix" using index_kids_long [of ix cur] by (meson not_le)
    show ?thesis
    proof (rule store_children_returns)
      fix i s assume "i \<in> set ?K" "de_is_dir (es ! i)"
      then have "de_name (es ! i) \<noteq> []" using assms by (auto simp: named_dirs_def)
      then show "store_trees n E C ix es (if cur = [] then de_name (es ! i) else cur @ ''/'' @ de_name (es ! i)) s \<noteq> None"
        using Suc.prems(1) l by (intro Suc.IH) (auto simp: Suc_le_eq neq_Nil_conv)
    qed
  qed simp
  then obtain r s1 where c: "store_children (store_trees n E C ix es) es cur ?K s = Some (r, s1)" by auto
  show ?case
  proof (cases r)
    case (Inl e)
    with c show ?thesis by (simp add: index_kids_def)
  next
    case (Inr ds)
    obtain ds1 ces where ds: "ds = (ds1, ces)" by fastforce
    obtain r2 s2 where p: "put E s1 (tree_node ds1 (concat (map (to_inline_bytes E C) ces))) = (r2, s2)" by fastforce
    show ?thesis
    proof (cases r2)
      case (Inr t)
      obtain r3 s3 where "put E s2 (layer_node [t] (as_bytes cur)) = (r3, s3)" by fastforce
      with c p Inr \<open>r = Inr ds\<close> ds show ?thesis by (cases r3) (simp_all add: index_kids_def)
    qed (use c p \<open>r = Inr ds\<close> ds in \<open>simp add: index_kids_def\<close>)
  qed
qed simp

definition fails :: "((oci_error + 'a) \<times> mmap_store) option \<Rightarrow> bool" where
  "fails r \<longleftrightarrow> (case r of Some (Inl _, _) \<Rightarrow> True | _ \<Rightarrow> False)"

lemma store_children_no_error:
  assumes "\<And>p s. \<not> fails (rec p s)"
  shows "\<not> fails (store_children rec es cur is s)"
proof (induction "is" arbitrary: s)
  case (Cons i "is")
  define q where "q = (if cur = [] then de_name (es ! i) else cur @ ''/'' @ de_name (es ! i))"
  define r where "r = (if de_is_dir (es ! i) then rec q s else Some (Inr (de_digest (es ! i)), s))"
  have nf: "\<not> fails r" using assms by (simp add: r_def fails_def)
  have eq: "store_children rec es cur (i # is) s =
      (case r of None \<Rightarrow> None | Some (Inl err, s1) \<Rightarrow> Some (Inl err, s1)
       | Some (Inr d, s1) \<Rightarrow>
          (case store_children rec es cur is s1 of
             None \<Rightarrow> None | Some (Inl err, s2) \<Rightarrow> Some (Inl err, s2)
           | Some (Inr (ds, ces), s2) \<Rightarrow> Some (Inr (d # ds, es ! i # ces), s2)))"
    by (simp add: r_def q_def Let_def)
  show ?case
  proof (cases r)
    case (Some rs)
    then obtain d s1 where "r = Some (Inr d, s1)" using nf by (cases rs; cases "fst rs") (auto simp: fails_def)
    with Cons.IH [of s1] show ?thesis
      unfolding eq by (auto simp: fails_def split: option.splits prod.splits sum.splits)
  qed (unfold eq, simp add: fails_def)
qed (simp add: fails_def)

lemma store_trees_no_error: "rkyv_total E \<Longrightarrow> \<not> fails (store_trees n E C ix es cur s)"
proof (induction n arbitrary: cur s)
  case (Suc n)
  have nf: "\<not> fails (store_children (store_trees n E C ix es) es cur (index_kids ix cur) s)"
    by (rule store_children_no_error) (rule Suc.IH [OF Suc.prems])
  show ?case
  proof (cases "store_children (store_trees n E C ix es) es cur (index_kids ix cur) s")
    case None
    then show ?thesis by (simp add: index_kids_def fails_def)
  next
    case (Some rs)
    then obtain ds ces s1 where c: "store_children (store_trees n E C ix es) es cur (index_kids ix cur) s = Some (Inr (ds, ces), s1)"
      using nf by (cases rs; cases "fst rs") (auto simp: fails_def)
    obtain t s2 where "put E s1 (tree_node ds (concat (map (to_inline_bytes E C) ces))) = (Inr t, s2)"
      using put_never_fails [OF Suc.prems] by blast
    moreover obtain d s3 where "put E s2 (layer_node [t] (as_bytes cur)) = (Inr d, s3)"
      using put_never_fails [OF Suc.prems] by blast
    ultimately show ?thesis using c by (simp add: index_kids_def fails_def)
  qed
qed (simp add: fails_def)

lemma store_children_diverges:
  assumes "\<And>p s. \<not> fails (rec p s)" "\<And>s. rec [] s = None" "i \<in> set is" "de_is_dir (es ! i)" "de_name (es ! i) = []"
  shows "store_children rec es [] is s = None"
  using assms(3)
proof (induction "is" arbitrary: s)
  case (Cons j "is")
  show ?case
  proof (cases "j = i")
    case True
    then show ?thesis using assms(2,4,5) by (simp add: Let_def)
  next
    case False
    then have IH: "store_children rec es [] is s1 = None" for s1 using Cons by simp
    show ?thesis
    proof (cases "de_is_dir (es ! j)")
      case True
      show ?thesis
      proof (cases "rec (de_name (es ! j)) s")
        case (Some rs)
        then obtain d s1 where "rec (de_name (es ! j)) s = Some (Inr d, s1)"
          using assms(1) [of "de_name (es ! j)" s] by (cases rs; cases "fst rs") (auto simp: fails_def)
        then show ?thesis using True IH [of s1] by (simp add: Let_def)
      qed (use True in \<open>simp add: Let_def\<close>)
    qed (use IH [of s] in \<open>simp add: Let_def\<close>)
  qed
qed simp

lemma store_trees_diverges:
  assumes "rkyv_total E" "i \<in> set (index_kids ix [])" "de_is_dir (es ! i)" "de_name (es ! i) = []"
  shows "store_trees n E C ix es [] s = None"
proof (induction n arbitrary: s)
  case (Suc n)
  have "store_children (store_trees n E C ix es) es [] (index_kids ix []) s = None"
    by (rule store_children_diverges [where i = i])
      (simp_all add: Suc.IH assms(2-4) store_trees_no_error [OF assms(1)])
  then show ?case by (simp add: index_kids_def)
qed simp

text \<open>What the extraction guarantees about the index: positions are in range, and unnamed entries are in the root.\<close>

definition rooted :: "raw_entry \<Rightarrow> bool" where
  "rooted r \<longleftrightarrow> (re_name r = [] \<longrightarrow> re_parent r = [])"

lemma split_path_rooted: "split_path p = (parent, name) \<Longrightarrow> name = [] \<Longrightarrow> parent = []"
proof -
  assume sp: "split_path p = (parent, name)" and n: "name = []"
  define q where "q = rev (dropWhile (\<lambda>c. c = CHR ''/'') (rev p))"
  have q: "q \<noteq> [] \<Longrightarrow> last q \<noteq> CHR ''/''" unfolding q_def
    using hd_dropWhile [of "\<lambda>c. c = CHR ''/''" "rev p"] by (auto simp: last_rev)
  show "parent = []"
  proof (cases "rsplit_once (CHR ''/'') q")
    case None
    then show ?thesis using sp by (simp add: split_path_def Let_def q_def)
  next
    case (Some ab)
    then have ab: "ab = (parent, [])" using sp n by (simp add: split_path_def Let_def q_def split: prod.splits)
    then obtain b where "split_once (CHR ''/'') (rev q) = Some ([], b)"
      using Some by (auto simp: rsplit_once_def split: option.splits)
    then have "rev q = CHR ''/'' # b" by (auto dest: split_once_SomeD)
    then have "q \<noteq> [] \<and> last q = CHR ''/''" by (metis last_rev list.sel(1) list.distinct(1) rev_rev_ident rev.simps(1))
    with q show ?thesis by simp
  qed
qed

lemma scan_rooted:
  "scan_entries E tes st s = (Inr st', s') \<Longrightarrow> list_all rooted (raw_entries st) \<Longrightarrow> list_all rooted (raw_entries st')"
proof (induction E tes st s rule: scan_entries.induct)
  case (3 E te tes st s)
  show ?case
  proof (cases "te_path te")
    case (Inr path)
    show ?thesis
    proof (cases "path = ''.'' \<or> path = [] \<or> contains_str path ''..''")
      case False
      obtain parent name where sp: "split_path path = (parent, name)" by fastforce
      have "rooted r" if "re_parent r = parent" "re_name r = name" for r
        using split_path_rooted [OF sp] that by (simp add: rooted_def)
      with 3 Inr False sp show ?thesis
        by (auto split: sum.splits if_splits prod.splits)
    qed (use 3 Inr in auto)
  qed (use 3 in simp)
qed auto

lemma link_pass_rooted: "list_all rooted rs \<Longrightarrow> list_all rooted (fst (link_pass i rs ptd))"
proof (induction rs arbitrary: i ptd)
  case (Cons r rs)
  have IH: "list_all rooted (fst (link_pass j rs q))" for j q using Cons by simp
  have "rooted (r\<lparr>re_digest := d\<rparr>)" for d using Cons.prems by (simp add: rooted_def)
  with IH Cons.prems show ?case by (auto simp: case_prod_beta split: option.splits)
qed simp

lemma retry_round_rooted:
  "list_all rooted rs \<Longrightarrow> list_all rooted (fst (retry_round ptd is rs))"
proof (induction ptd "is" rs rule: retry_round.induct)
  case (2 ptd i "is" rs)
  have "list_all rooted (rs[i := (rs ! i)\<lparr>re_digest := d\<rparr>])" for d
    using 2(4) by (cases "i < length rs") (auto simp: list_all_length nth_list_update rooted_def)
  with 2 show ?case by (auto split: option.splits prod.splits)
qed simp

lemma retry_loop_rooted: "list_all rooted rs \<Longrightarrow> list_all rooted (retry_loop n ptd def rs)"
proof (induction n arbitrary: "def" rs)
  case (Suc n)
  then show ?case using retry_round_rooted [OF Suc.prems] by (simp add: case_prod_beta)
qed simp

lemma build_index:
  "build_entries E rs es ix s = (Inr (es', ix'), s') \<Longrightarrow> list_all rooted rs \<Longrightarrow>
    (\<forall>p. \<forall>i \<in> set (index_kids ix p). i < length es) \<Longrightarrow>
    (\<forall>i < length es. de_name (es ! i) = [] \<longrightarrow> i \<in> set (index_kids ix [])) \<Longrightarrow>
    (\<forall>p. \<forall>i \<in> set (index_kids ix' p). i < length es') \<and>
    (\<forall>i < length es'. de_name (es' ! i) = [] \<longrightarrow> i \<in> set (index_kids ix' []))"
proof (induction rs arbitrary: es ix s)
  case (Cons r rs)
  from Cons.prems(1) obtain d s1 where
    "build_entries E rs (es @ [entry_of_raw r d]) (index_raw r (length es) ix) s1 = (Inr (es', ix'), s')"
    by (auto split: prod.splits sum.splits if_splits)
  then show ?case
  proof (rule Cons.IH)
    show "list_all rooted rs" using Cons.prems(2) by simp
    show "\<forall>p. \<forall>i \<in> set (index_kids (index_raw r (length es) ix) p). i < length (es @ [entry_of_raw r d])"
      using Cons.prems(3) by (auto simp: index_kids_raw less_Suc_eq)
    show "\<forall>i < length (es @ [entry_of_raw r d]). de_name ((es @ [entry_of_raw r d]) ! i) = [] \<longrightarrow>
        i \<in> set (index_kids (index_raw r (length es) ix) [])"
      using Cons.prems(2,4) by (auto simp: index_kids_raw less_Suc_eq nth_append entry_of_raw_def rooted_def)
  qed
qed auto

lemma extract_index:
  assumes "extract_tar_entries_sync E C tar s = (Inr (es, ix, ws), s')"
  shows "(\<forall>p. \<forall>i \<in> set (index_kids ix p). i < length es) \<and>
    (\<forall>i < length es. de_name (es ! i) = [] \<longrightarrow> i \<in> set (index_kids ix []))"
proof -
  obtain tes st s1 rs ptd "def" where a: "scan_entries E tes \<lparr>raw_entries = [], path_to_digest = [], whiteouts = []\<rparr> s = (Inr st, s1)"
    "link_pass 0 (raw_entries st) (path_to_digest st) = (rs, ptd, def)"
    "build_entries E (retry_loop (length def) ptd def rs) [] [] s1 = (Inr (es, ix), s')"
    using assms by (auto simp: extract_tar_entries_sync_def split: sum.splits prod.splits)
  have "list_all rooted (raw_entries st)" using scan_rooted [OF a(1)] by simp
  then have "list_all rooted rs" using link_pass_rooted [of "raw_entries st" 0 "path_to_digest st"] a(2) by simp
  then show ?thesis using build_index [OF a(3) retry_loop_rooted] by (simp add: index_kids_def)
qed

text \<open>
  C37: converting a layer comes to an end exactly when every directory of the
  archive has a name.  The recursion over the directories of an extracted layer
  returns for all sufficiently large fuel if no directory entry has an empty name;
  if one has (its archive path consists of slashes only, like \<^verbatim>\<open>/\<close>), it
  never returns, since the directory is its own child.
\<close>

theorem store_trees_terminates_iff:
  assumes "rkyv_total E" and ex: "extract_tar_entries_sync E C tar s = (Inr (es, ix, ws), s1)"
  shows "(\<exists>n. \<forall>m \<ge> n. store_trees m E C ix es [] s2 \<noteq> None) \<longleftrightarrow> (\<forall>e \<in> set es. de_is_dir e \<longrightarrow> de_name e \<noteq> [])"
proof
  assume "\<forall>e \<in> set es. de_is_dir e \<longrightarrow> de_name e \<noteq> []"
  then have "named_dirs ix es" using extract_index [OF ex] by (auto simp: named_dirs_def)
  then have "store_trees m E C ix es [] s2 \<noteq> None" if "m \<ge> longest_key ix + 2" for m
    using that by (intro store_trees_returns) auto
  then show "\<exists>n. \<forall>m \<ge> n. store_trees m E C ix es [] s2 \<noteq> None" by blast
next
  assume r: "\<exists>n. \<forall>m \<ge> n. store_trees m E C ix es [] s2 \<noteq> None"
  show "\<forall>e \<in> set es. de_is_dir e \<longrightarrow> de_name e \<noteq> []"
  proof (intro ballI impI notI)
    fix e assume e: "e \<in> set es" "de_is_dir e" "de_name e = []"
    then obtain i where i: "i < length es" "es ! i = e" by (auto simp: in_set_conv_nth)
    then have "i \<in> set (index_kids ix [])" using extract_index [OF ex] e by simp
    then have "store_trees n E C ix es [] s2 = None" for n using store_trees_diverges [OF assms(1)] i e by blast
    with r show False by blast
  qed
qed

definition slash_tar :: "tar_entry list" where
  "slash_tar = [\<lparr>te_path = Inr ''/'', te_header = Inr (sample_header Directory), te_pax = [], te_data = Inr []\<rparr>]"

lemma layer_ext_total: "rkyv_total layer_ext"
  by (simp add: rkyv_total_def layer_ext_def ref_ext_def ref_to_bytes_def)

theorem store_trees_terminates_iff_witness:
  "\<exists>es ix ws s1. extract_tar_entries_sync layer_ext (sample_conv [] slash_tar) [] (new_unbounded []) = (Inr (es, ix, ws), s1) \<and>
    \<not> (\<exists>n. \<forall>m \<ge> n. store_trees m layer_ext (sample_conv [] slash_tar) ix es [] s1 \<noteq> None)"
proof -
  let ?r = "extract_tar_entries_sync layer_ext (sample_conv [] slash_tar) [] (new_unbounded [])"
  have "case ?r of (Inr (es, _), _) \<Rightarrow> list_ex (\<lambda>e. de_is_dir e \<and> de_name e = []) es | _ \<Rightarrow> False" by code_simp
  then obtain es ix ws s1 where r: "?r = (Inr (es, ix, ws), s1)" and e: "\<exists>e \<in> set es. de_is_dir e \<and> de_name e = []"
    by (auto simp: list_ex_iff split: prod.splits sum.splits)
  then show ?thesis using store_trees_terminates_iff [OF layer_ext_total r, of s1] by blast
qed

section \<open>Whiteouts of the image root\<close>

text \<open>
  A file system in which every path is listed once, below directories, and no
  name is the parent directory.
\<close>

definition fs_wf :: "host_fs \<Rightarrow> bool" where
  "fs_wf fs \<longleftrightarrow> distinct (map fst (fs_nodes fs)) \<and>
    list_all (\<lambda>(p, _). p \<noteq> [] \<and> ''..'' \<notin> set p \<and> fs_lookup fs (butlast p) = Some Dir) (fs_nodes fs)"

definition top_names :: "host_fs \<Rightarrow> string set" where
  "top_names fs = {c. fs_lookup fs [c] \<noteq> None}"

lemma fs_wf_top:
  assumes "fs_wf fs" "fs_lookup fs p \<noteq> None" "p \<noteq> []"
  shows "hd p \<in> top_names fs"
  using assms(2,3)
proof (induction p rule: rev_induct)
  case (snoc c p)
  have m: "map_of (fs_nodes fs) (p @ [c]) \<noteq> None" using snoc.prems(1) by (simp add: fs_lookup_def)
  then have d: "fs_lookup fs p = Some Dir"
    using assms(1) by (auto simp: fs_wf_def list_all_iff dest!: map_of_SomeD)
  show ?case
  proof (cases "p = []")
    case True
    then show ?thesis using snoc.prems(1) by (simp add: top_names_def)
  next
    case False
    then show ?thesis using snoc.IH d by simp
  qed
qed simp

lemma child_names_root: "fs_wf fs \<Longrightarrow> set (child_names fs []) = top_names fs \<and> distinct (child_names fs [])"
proof -
  assume wf: "fs_wf fs"
  have "q \<noteq> [] \<and> butlast q = [] \<longleftrightarrow> (\<exists>c. q = [c])" for q :: path
    by (cases q) (auto simp: butlast_conv_take)
  then have eq: "child_names fs [] = map last (filter (\<lambda>q. \<exists>c. q = [c]) (map fst (fs_nodes fs)))"
    by (simp add: child_names_def)
  have "distinct (child_names fs [])"
    unfolding eq using wf by (auto simp: distinct_map inj_on_def fs_wf_def distinct_map_filter)
  moreover have "set (child_names fs []) = top_names fs"
    unfolding eq top_names_def by (force simp: fs_lookup_def map_of_eq_None_iff)
  ultimately show ?thesis by simp
qed

lemma drop_tree_lookup: "p \<noteq> [] \<Longrightarrow> fs_lookup (drop_tree p fs) q = (if is_below p q then None else fs_lookup fs q)"
proof -
  assume p: "p \<noteq> []"
  have "map_of (filter (\<lambda>(q, _). \<not> is_below p q) xs) q = (if is_below p q then None else map_of xs q)" for xs :: "(path \<times> fs_node) list"
    by (induction xs) auto
  then show ?thesis using p by (auto simp: fs_lookup_def drop_tree_def is_below_def)
qed

lemma resolve_top: "resolve_parent fs [c] = Some [c]"
  by (simp add: resolve_parent_def resolve_def resolve_from.simps)

lemma drop_tree_wf:
  assumes "fs_wf fs"
  shows "fs_wf (drop_tree [c] fs)"
proof -
  have "fs_lookup (drop_tree [c] fs) (butlast p) = Some Dir" if "(p, x) \<in> set (fs_nodes fs)" "\<not> is_below [c] p" for p x
  proof -
    have "p \<noteq> []" "fs_lookup fs (butlast p) = Some Dir" using assms that(1) by (auto simp: fs_wf_def list_all_iff)
    moreover have "\<not> is_below [c] (butlast p)" using that(2) by (cases p) (auto simp: is_below_def split: if_splits)
    ultimately show ?thesis by (simp add: drop_tree_lookup)
  qed
  then show ?thesis
    using assms by (auto simp: fs_wf_def list_all_iff drop_tree_def distinct_map inj_on_def intro: distinct_filter)
qed

lemma file_alone:
  assumes "fs_wf fs" "fs_lookup fs [c] \<noteq> Some Dir" "fs_lookup fs q \<noteq> None" "is_below [c] q"
  shows "q = [c]"
  using assms(3,4)
proof (induction q rule: rev_induct)
  case (snoc d q)
  have "map_of (fs_nodes fs) (q @ [d]) \<noteq> None" using snoc.prems(1) by (simp add: fs_lookup_def)
  then have dir: "fs_lookup fs q = Some Dir" using assms(1) by (auto simp: fs_wf_def list_all_iff dest!: map_of_SomeD)
  show ?case
  proof (cases "q = []")
    case True
    then show ?thesis using snoc.prems(2) by (simp add: is_below_def)
  next
    case False
    then have "is_below [c] q" using snoc.prems(2) by (cases q) (auto simp: is_below_def)
    then have "q = [c]" using snoc.IH dir by simp
    then show ?thesis using dir assms(2) by simp
  qed
qed (simp add: is_below_def)

lemma drop_node_file:
  assumes "fs_wf fs" "fs_lookup fs [c] \<noteq> Some Dir"
  shows "fs_nodes (drop_node [c] fs) = fs_nodes (drop_tree [c] fs)"
proof -
  have "q = [c] \<longleftrightarrow> is_below [c] q" if "(q, x) \<in> set (fs_nodes fs)" for q x
  proof -
    have "map_of (fs_nodes fs) q \<noteq> None" using weak_map_of_SomeI [OF that] by simp
    then have "fs_lookup fs q \<noteq> None" by (simp add: fs_lookup_def)
    then show ?thesis using file_alone [OF assms] by (auto simp: is_below_def)
  qed
  then show ?thesis by (auto simp: drop_node_def drop_tree_def AList.delete_eq intro!: filter_cong)
qed

lemma fs_same_nodes: "fs_nodes a = fs_nodes b \<Longrightarrow> fs_lookup a = fs_lookup b \<and> (fs_wf a \<longleftrightarrow> fs_wf b)"
proof -
  assume n: "fs_nodes a = fs_nodes b"
  then have "fs_lookup a = fs_lookup b" by (simp add: fs_lookup_def fun_eq_iff)
  then show ?thesis using n by (simp add: fs_wf_def)
qed

lemma clear_top_child:
  assumes wf: "fs_wf fs" and c: "c \<in> top_names fs"
  shows "\<exists>fs'. (if is_dir_path fs [c] then remove_dir_all [c] fs else remove_file [c] fs) = (Inr (), fs') \<and> fs_wf fs' \<and>
    (\<forall>q. fs_lookup fs' q = (if is_below [c] q then None else fs_lookup fs q))"
proof -
  have t: "fs_wf (drop_tree [c] fs)" "\<forall>q. fs_lookup (drop_tree [c] fs) q = (if is_below [c] q then None else fs_lookup fs q)"
    using drop_tree_wf [OF wf] by (simp_all add: drop_tree_lookup)
  have n: "fs_wf (drop_node [c] fs)" "\<forall>q. fs_lookup (drop_node [c] fs) q = (if is_below [c] q then None else fs_lookup fs q)"
    if "fs_lookup fs [c] \<noteq> Some Dir"
    using fs_same_nodes [OF drop_node_file [OF wf that]] t by simp_all
  obtain x where x: "fs_lookup fs [c] = Some x" using c by (auto simp: top_names_def)
  then have "([c], x) \<in> set (fs_nodes fs)" by (simp add: fs_lookup_def map_of_SomeD)
  then have "c \<noteq> ''..''" using wf by (auto simp: fs_wf_def list_all_iff)
  then have res: "is_dir_path fs [c] \<longleftrightarrow> x = Dir" if "\<forall>l. x \<noteq> Link l"
    using that x by (cases x) (simp_all add: is_dir_path_def resolve_def resolve_from.simps)
  show ?thesis
  proof (cases x)
    case (File b)
    then show ?thesis using res x n by (simp add: remove_file_def resolve_top)
  next
    case Dir
    then show ?thesis using res x t by (simp add: remove_dir_all_def resolve_top)
  next
    case (Link l)
    then show ?thesis using x t n by (auto simp: remove_dir_all_def remove_file_def resolve_top)
  qed
qed

lemma clear_root:
  "fs_wf fs \<Longrightarrow> distinct names \<Longrightarrow> set names \<subseteq> top_names fs \<Longrightarrow>
    \<exists>fs'. clear_children [] names fs = (Inr (), fs') \<and>
      (\<forall>q. fs_lookup fs' q = (if q \<noteq> [] \<and> hd q \<in> set names then None else fs_lookup fs q))"
proof (induction names arbitrary: fs)
  case (Cons c names)
  obtain fs1 where f: "(if is_dir_path fs [c] then remove_dir_all [c] fs else remove_file [c] fs) = (Inr (), fs1)"
    "fs_wf fs1" "\<forall>q. fs_lookup fs1 q = (if is_below [c] q then None else fs_lookup fs q)"
    using clear_top_child [OF Cons.prems(1), of c] Cons.prems(3) by auto
  have "set names \<subseteq> top_names fs1" using Cons.prems(2,3) f(3) by (auto simp: top_names_def is_below_def)
  then obtain fs' where r: "clear_children [] names fs1 = (Inr (), fs')"
    "\<forall>q. fs_lookup fs' q = (if q \<noteq> [] \<and> hd q \<in> set names then None else fs_lookup fs1 q)"
    using Cons.IH [OF f(2)] Cons.prems(2) by auto
  have "is_below [c] q \<longleftrightarrow> q \<noteq> [] \<and> hd q = c" for q by (cases q) (auto simp: is_below_def)
  then show ?case using f r by auto
qed simp

lemma opaque_root:
  assumes "fs_wf fs"
  shows "\<exists>fs'. apply_opaque [] fs = (Inr (), fs') \<and> (\<forall>q. q \<noteq> [] \<longrightarrow> fs_lookup fs' q = None)"
proof -
  note k = child_names_root [OF assms]
  obtain fs' where f: "clear_children [] (child_names fs []) fs = (Inr (), fs')"
    "\<forall>q. fs_lookup fs' q = (if q \<noteq> [] \<and> hd q \<in> set (child_names fs []) then None else fs_lookup fs q)"
    using clear_root [OF assms, of "child_names fs []"] k by auto
  have "fs_lookup fs' q = None" if "q \<noteq> []" for q
    using f(2) fs_wf_top [OF assms _ that] k that by (cases "fs_lookup fs q") auto
  then show ?thesis using f(1) by (simp add: apply_opaque_def resolve_def resolve_from.simps)
qed

text \<open>
  C39: an opaque whiteout node that names the root directory empties the host.
  When a layer with an empty path refers to an \<^verbatim>\<open>OpaqueDir\<close> node with the
  content \<^verbatim>\<open>/\<close>, applying it during materialization removes every file,
  directory and link of the file system, whatever the root directory of the bundle
  is: joining an absolute path to it gives the host's root.  The file system of the
  model permits every removal, as a host does to a daemon that runs as root.
\<close>

theorem opaque_root_clears_host:
  assumes "store_inv s" "node_view E s d = Inr (opaque_dir_node (as_bytes ''/''))" "fs_wf fs"
  shows "\<exists>s' fs'. apply_whiteouts E rootfs_path [] [(d, True)] s fs = (Inr (), s', fs') \<and>
    (\<forall>q. q \<noteq> [] \<longrightarrow> fs_lookup fs' q = None)"
proof -
  obtain r s' where g: "get_archived E s d = (r, s')" by fastforce
  then have "r = Inr (opaque_dir_node (as_bytes ''/''))" using get_archived_view(1) [OF assms(1) g] assms(2) by simp
  moreover have "from_utf8_lossy (as_bytes ''/'') = ''/''" by (rule lossy_text) code_simp
  moreover have "whiteout_target rootfs_path [] ''/'' = []"
    by (simp add: whiteout_target_def path_join_def starts_with_def path_comps_def)
  moreover obtain fs' where "apply_opaque [] fs = (Inr (), fs')" "\<forall>q. q \<noteq> [] \<longrightarrow> fs_lookup fs' q = None"
    using opaque_root [OF assms(3)] by blast
  ultimately show ?thesis using g by (simp add: opaque_dir_node_def Let_def)
qed

definition opaque_store :: mmap_store where
  "opaque_store = snd (put layer_ext (new_unbounded []) (opaque_dir_node (as_bytes ''/'')))"

theorem opaque_root_clears_host_witness:
  "\<exists>s' fs'. apply_whiteouts layer_ext [''run'', ''bundle''] []
      [(node_digest layer_ext (opaque_dir_node (as_bytes ''/'')), True)] opaque_store empty_root = (Inr (), s', fs') \<and>
    (\<forall>q. q \<noteq> [] \<longrightarrow> fs_lookup fs' q = None)"
proof (rule opaque_root_clears_host)
  show "store_inv opaque_store" using put_inv new_unbounded_inv by (simp add: opaque_store_def)
  show "node_view layer_ext opaque_store (node_digest layer_ext (opaque_dir_node (as_bytes ''/''))) =
      Inr (opaque_dir_node (as_bytes ''/''))"
    by code_simp
  show "fs_wf empty_root" by code_simp
qed

section \<open>Whiteouts in archives\<close>

lemma contains_strI: "contains_str (a @ p @ b) p"
proof (induction a)
  case Nil
  have "starts_with (p @ b) p" by (auto simp: starts_with_iff)
  then show ?case by (cases "p @ b") simp_all
next
  case (Cons c a)
  then show ?case by simp
qed

lemma contains_str_mono: "contains_str m p \<Longrightarrow> contains_str (a @ m @ b) p"
proof -
  assume "contains_str m p"
  then obtain x y where "m = x @ p @ y"
  proof (induction m arbitrary: thesis)
    case Nil
    then show ?case using Nil(1) [of "[]" "[]"] by simp
  next
    case (Cons c m)
    then consider "starts_with (c # m) p" | "contains_str m p" by auto
    then show ?case
    proof cases
      case 1
      then obtain r where "c # m = p @ r" by (auto simp: starts_with_iff)
      then show ?thesis using Cons(2) [of "[]" r] by simp
    next
      case 2
      then show ?thesis using Cons(1) [of thesis] Cons(2) [of "c # _"] by (metis append_Cons)
    qed
  qed
  then show ?thesis using contains_strI [of "a @ x" p "y @ b"] by simp
qed

lemma split_path_contains: "split_path p = (parent, name) \<Longrightarrow> contains_str name q \<Longrightarrow> contains_str p q"
proof -
  assume sp: "split_path p = (parent, name)" and c: "contains_str name q"
  define t where "t = rev (dropWhile (\<lambda>c. c = CHR ''/'') (rev p))"
  define u where "u = rev (takeWhile (\<lambda>c. c = CHR ''/'') (rev p))"
  have p: "p = t @ u" unfolding t_def u_def by (metis rev_append rev_rev_ident takeWhile_dropWhile_id)
  have "\<exists>a. t = a @ name"
  proof (cases "rsplit_once (CHR ''/'') t")
    case None
    then show ?thesis using sp by (simp add: split_path_def Let_def t_def)
  next
    case (Some ab)
    then have ab: "ab = (parent, name)" using sp by (simp add: split_path_def Let_def t_def split: prod.splits)
    then obtain x y where "split_once (CHR ''/'') (rev t) = Some (x, y)" "name = rev x"
      using Some by (auto simp: rsplit_once_def split: option.splits)
    then have "rev t = x @ CHR ''/'' # y" by (auto dest: split_once_SomeD)
    then have "t = rev y @ CHR ''/'' # rev x" by (metis append.assoc append_Cons append_Nil rev.simps(2) rev_append rev_rev_ident)
    then show ?thesis using \<open>name = rev x\<close> by (metis append.assoc append_Cons append_Nil)
  qed
  then obtain a where "p = a @ name @ u" using p by auto
  then show ?thesis using contains_str_mono [OF c] by simp
qed

text \<open>
  C38: no archive ever gives an opaque whiteout.  Whatever the layer archive
  contains, all whiteouts found in it are deletions of single paths: the marker
  \<^verbatim>\<open>.wh..wh..opq\<close> contains two consecutive dots, and entries whose path
  contains them are skipped before markers are looked for.  Files of lower layers
  below an opaque directory therefore stay visible.
\<close>

theorem opaque_markers_skipped:
  assumes "extract_tar_entries_sync E C tar s = (Inr (es, ix, ws), s')"
  shows "\<forall>w \<in> set ws. \<exists>p. w = DeleteEntry p"
proof -
  have dots: "contains_str ''.wh..wh..opq'' ''..''" by code_simp
  have "\<forall>w \<in> set (whiteouts st'). \<exists>p. w = DeleteEntry p"
    if "scan_entries E tes st s = (Inr st', s')" "\<forall>w \<in> set (whiteouts st). \<exists>p. w = DeleteEntry p" for tes st st' s s'
    using that
  proof (induction E tes st s rule: scan_entries.induct)
    case (3 E te tes st s)
    show ?case
    proof (cases "te_path te")
      case (Inr path)
      show ?thesis
      proof (cases "path = ''.'' \<or> path = [] \<or> contains_str path ''..''")
        case False
        obtain parent name where sp: "split_path path = (parent, name)" by fastforce
        have "name \<noteq> ''.wh..wh..opq''" using split_path_contains [OF sp, of "''..''"] dots False by auto
        then have "\<exists>p. whiteout_of parent name = DeleteEntry p" by (simp add: whiteout_of_def Let_def)
        with 3 Inr False sp show ?thesis by (auto split: sum.splits if_splits prod.splits)
      qed (use 3 Inr in auto)
    qed (use 3 in simp)
  qed auto
  then show ?thesis using assms by (fastforce simp: extract_tar_entries_sync_def split: sum.splits prod.splits)
qed

definition opaque_tar :: "tar_entry list" where
  "opaque_tar =
    [\<lparr>te_path = Inr ''etc/.wh..wh..opq'', te_header = Inr (sample_header RegularFile), te_pax = [], te_data = Inr []\<rparr>,
     \<lparr>te_path = Inr ''etc/.wh.motd'', te_header = Inr (sample_header RegularFile), te_pax = [], te_data = Inr []\<rparr>]"

theorem opaque_markers_skipped_witness:
  "\<exists>es ix ws s'. extract_tar_entries_sync layer_ext (sample_conv [] opaque_tar) [] (new_unbounded []) = (Inr (es, ix, ws), s') \<and>
    ws \<noteq> [] \<and> (\<forall>w \<in> set ws. \<exists>p. w = DeleteEntry p)"
proof -
  let ?r = "extract_tar_entries_sync layer_ext (sample_conv [] opaque_tar) [] (new_unbounded [])"
  have "case ?r of (Inr (_, _, ws), _) \<Rightarrow> ws \<noteq> [] | _ \<Rightarrow> False" by code_simp
  then obtain es ix ws s' where r: "?r = (Inr (es, ix, ws), s')" "ws \<noteq> []" by (auto split: prod.splits sum.splits)
  then show ?thesis using opaque_markers_skipped [OF r(1)] by blast
qed

section \<open>Observations\<close>

text \<open>A whiteout of a directory that is not empty changes nothing.\<close>

lemma delete_nonempty_dir:
  assumes "resolve_parent fs p = Some q" "fs_lookup fs q = Some Dir" "child_names fs q \<noteq> []"
  shows "apply_delete p fs = fs"
  using assms by (simp add: apply_delete_def remove_file_def remove_dir_def)

end
