(* ===== verification/Tar_Archive.thy ===== *)
theory Tar_Archive
  imports Converter
begin

text \<open>
  Writing archives with the \<^verbatim>\<open>tar\<close> crate.  The writer is a parameter: what
  appending an entry may fail with, and the bytes of a finished archive.  The entries
  hold the fields of the header that the sources set.
\<close>

record tar_out =
  out_path :: string
  out_type :: entry_type
  out_mode :: u32
  out_size :: u64
  out_mtime :: u64
  out_uid :: u64
  out_gid :: u64
  out_link :: "string option"
  out_data :: bytes

record tar_writer =
  append_error :: "tar_out \<Rightarrow> string option"
  archive_bytes :: "tar_out list \<Rightarrow> bytes"

text \<open>The entry a reader sees for a written one.\<close>

definition entry_of_out :: "tar_out \<Rightarrow> tar_entry" where
  "entry_of_out t =
    \<lparr>te_path = Inr (out_path t),
     te_header = Inr \<lparr>th_type = out_type t, th_mode = out_mode t, th_size = out_size t, th_uid = out_uid t,
                      th_gid = out_gid t, th_mtime = out_mtime t, th_link = out_link t\<rparr>,
     te_pax = [], te_data = Inr (out_data t)\<rparr>"

text \<open>
  The documented behaviour of the crate: an entry is accepted when its path is
  relative and goes nowhere up, and an archive of accepted entries, each with as many
  bytes as its header says, is read back entry by entry (a byte vector is always
  shorter than 2 to the power of 63).
\<close>

definition relative_path :: "string \<Rightarrow> bool" where
  "relative_path p \<longleftrightarrow> p \<noteq> [] \<and> hd p \<noteq> CHR ''/'' \<and> ''..'' \<notin> set (split_on (CHR ''/'') p)"

definition sized :: "tar_out \<Rightarrow> bool" where
  "sized t \<longleftrightarrow> out_size t = word_of_nat (length (out_data t))"

definition tar_ok :: "conv_env \<Rightarrow> tar_writer \<Rightarrow> bool" where
  "tar_ok C T \<longleftrightarrow>
    (\<forall>t. relative_path (out_path t) \<longrightarrow> append_error T t = None) \<and>
    (\<forall>ts. list_all (\<lambda>t. relative_path (out_path t) \<and> sized t) ts \<longrightarrow>
       tar_entries C (archive_bytes T ts) = Inr (map (\<lambda>t. Inr (entry_of_out t)) ts))"

end
