(* ===== verification/Reference_Codecs.thy ===== *)
theory Reference_Codecs
  imports Tar_Archive
begin

text \<open>
  A concrete instance of the JSON and archive codecs: a prefix code for JSON values
  and one for archive entries, each with a decoder that reads every encoding back.
  The witnesses of the development evaluate on it.
\<close>

section \<open>Strings and lists\<close>

fun enc_bytes :: "bytes \<Rightarrow> bytes" where
  "enc_bytes [] = [0]"
| "enc_bytes (b # bs) = 1 # b # enc_bytes bs"

fun dec_bytes :: "bytes \<Rightarrow> (bytes \<times> bytes) option" where
  "dec_bytes [] = None"
| "dec_bytes [t] = (if t = 0 then Some ([], []) else None)"
| "dec_bytes (t # b # r) =
    (if t = 0 then Some ([], b # r)
     else case dec_bytes r of None \<Rightarrow> None | Some (bs, r') \<Rightarrow> Some (b # bs, r'))"

lemma dec_enc_bytes [simp]: "dec_bytes (enc_bytes bs @ r) = Some (bs, r)"
proof (induction bs)
  case Nil
  then show ?case by (cases r) simp_all
qed simp

definition enc_str :: "string \<Rightarrow> bytes" where "enc_str s = enc_bytes (as_bytes s)"

definition dec_str :: "bytes \<Rightarrow> (string \<times> bytes) option" where
  "dec_str bs = map_option (\<lambda>(b, r). (bytes_text b, r)) (dec_bytes bs)"

lemma dec_enc_str [simp]: "dec_str (enc_str s @ r) = Some (s, r)"
  by (simp add: dec_str_def enc_str_def)

section \<open>JSON\<close>

fun enc_json :: "json \<Rightarrow> bytes" where
  "enc_json JNull = [0]"
| "enc_json (JBool b) = [1, if b then 1 else 0]"
| "enc_json (JNumber s) = 2 # enc_str s"
| "enc_json (JString s) = 3 # enc_str s"
| "enc_json (JArray js) = 4 # concat (map (\<lambda>j. 1 # enc_json j) js) @ [0]"
| "enc_json (JObject fs) = 5 # concat (map (\<lambda>(k, j). 1 # enc_str k @ enc_json j) fs) @ [0]"

fun dec_json :: "nat \<Rightarrow> bytes \<Rightarrow> (json \<times> bytes) option"
  and dec_array :: "nat \<Rightarrow> bytes \<Rightarrow> (json list \<times> bytes) option"
  and dec_object :: "nat \<Rightarrow> bytes \<Rightarrow> ((string \<times> json) list \<times> bytes) option" where
  "dec_json 0 bs = None"
| "dec_json (Suc n) bs =
    (case bs of
       [] \<Rightarrow> None
     | t # r \<Rightarrow>
         if t = 0 then Some (JNull, r)
         else if t = 1 then (case r of [] \<Rightarrow> None | b # r' \<Rightarrow> Some (JBool (b = 1), r'))
         else if t = 2 then map_option (\<lambda>(s, r'). (JNumber s, r')) (dec_str r)
         else if t = 3 then map_option (\<lambda>(s, r'). (JString s, r')) (dec_str r)
         else if t = 4 then map_option (\<lambda>(js, r'). (JArray js, r')) (dec_array n r)
         else map_option (\<lambda>(fs, r'). (JObject fs, r')) (dec_object n r))"
| "dec_array 0 bs = None"
| "dec_array (Suc n) bs =
    (case bs of
       [] \<Rightarrow> None
     | t # r \<Rightarrow>
         if t = 0 then Some ([], r)
         else (case dec_json n r of
                 None \<Rightarrow> None
               | Some (j, r1) \<Rightarrow> map_option (\<lambda>(js, r2). (j # js, r2)) (dec_array n r1)))"
| "dec_object 0 bs = None"
| "dec_object (Suc n) bs =
    (case bs of
       [] \<Rightarrow> None
     | t # r \<Rightarrow>
         if t = 0 then Some ([], r)
         else (case dec_str r of
                 None \<Rightarrow> None
               | Some (k, r0) \<Rightarrow>
                   (case dec_json n r0 of
                      None \<Rightarrow> None
                    | Some (j, r1) \<Rightarrow> map_option (\<lambda>(fs, r2). ((k, j) # fs, r2)) (dec_object n r1))))"

lemma dec_enc_array:
  assumes "\<And>j n r. j \<in> set js \<Longrightarrow> length (enc_json j) \<le> n \<Longrightarrow> dec_json n (enc_json j @ r) = Some (j, r)"
    and "length (concat (map (\<lambda>j. 1 # enc_json j) js)) < n"
  shows "dec_array n (concat (map (\<lambda>j. 1 # enc_json j) js) @ 0 # r) = Some (js, r)"
  using assms
proof (induction js arbitrary: n)
  case Nil
  then show ?case by (cases n) simp_all
next
  case (Cons j js)
  then obtain m where m: "n = Suc m" by (cases n) auto
  have "dec_json m (enc_json j @ concat (map (\<lambda>j. 1 # enc_json j) js) @ 0 # r) =
      Some (j, concat (map (\<lambda>j. 1 # enc_json j) js) @ 0 # r)"
    using Cons.prems(2) by (intro Cons.prems(1)) (auto simp: m)
  moreover have "dec_array m (concat (map (\<lambda>j. 1 # enc_json j) js) @ 0 # r) = Some (js, r)"
    using Cons.prems by (intro Cons.IH) (auto simp: m)
  ultimately show ?case by (simp add: m)
qed

lemma dec_enc_object:
  assumes "\<And>k j n r. (k, j) \<in> set fs \<Longrightarrow> length (enc_json j) \<le> n \<Longrightarrow> dec_json n (enc_json j @ r) = Some (j, r)"
    and "length (concat (map (\<lambda>(k, j). 1 # enc_str k @ enc_json j) fs)) < n"
  shows "dec_object n (concat (map (\<lambda>(k, j). 1 # enc_str k @ enc_json j) fs) @ 0 # r) = Some (fs, r)"
  using assms
proof (induction fs arbitrary: n)
  case Nil
  then show ?case by (cases n) simp_all
next
  case (Cons f fs)
  obtain k j where f: "f = (k, j)" by fastforce
  obtain m where m: "n = Suc m" using Cons.prems(2) by (cases n) auto
  have "dec_json m (enc_json j @ concat (map (\<lambda>(k, j). 1 # enc_str k @ enc_json j) fs) @ 0 # r) =
      Some (j, concat (map (\<lambda>(k, j). 1 # enc_str k @ enc_json j) fs) @ 0 # r)"
    using Cons.prems(2) by (intro Cons.prems(1) [of k]) (auto simp: m f)
  moreover have "dec_object m (concat (map (\<lambda>(k, j). 1 # enc_str k @ enc_json j) fs) @ 0 # r) = Some (fs, r)"
  proof (rule Cons.IH)
    show "length (concat (map (\<lambda>(k, j). 1 # enc_str k @ enc_json j) fs)) < m" using Cons.prems(2) by (simp add: m f)
  qed (use Cons.prems(1) in auto)
  ultimately show ?case by (simp add: m f)
qed

lemma dec_enc_json: "length (enc_json j) \<le> n \<Longrightarrow> dec_json n (enc_json j @ r) = Some (j, r)"
proof (induction j arbitrary: n r)
  case (JArray js)
  then obtain m where m: "n = Suc m" by (cases n) auto
  have "dec_array m (concat (map (\<lambda>j. 1 # enc_json j) js) @ 0 # r) = Some (js, r)"
    using JArray by (intro dec_enc_array) (auto simp: m)
  then show ?case by (simp add: m)
next
  case (JObject fs)
  then obtain m where m: "n = Suc m" by (cases n) auto
  have "dec_object m (concat (map (\<lambda>(k, j). 1 # enc_str k @ enc_json j) fs) @ 0 # r) = Some (fs, r)"
    using JObject by (intro dec_enc_object) (auto simp: m)
  then show ?case by (simp add: m)
qed (case_tac [!] n, auto)

definition ref_from_slice :: "bytes \<Rightarrow> json option" where
  "ref_from_slice bs = (case dec_json (length bs) bs of Some (j, []) \<Rightarrow> Some j | _ \<Rightarrow> None)"

lemma ref_json_ok [simp]: "ref_from_slice (enc_json j) = Some j"
  using dec_enc_json [of j "length (enc_json j)" "[]"] by (simp add: ref_from_slice_def)

section \<open>Archives\<close>

fun type_byte :: "entry_type \<Rightarrow> byte" where
  "type_byte RegularFile = 0"
| "type_byte Directory = 1"
| "type_byte SymbolicLink = 2"
| "type_byte HardLink = 3"
| "type_byte OtherType = 4"

definition byte_type :: "byte \<Rightarrow> entry_type" where
  "byte_type b = (if b = 0 then RegularFile else if b = 1 then Directory else if b = 2 then SymbolicLink
     else if b = 3 then HardLink else OtherType)"

definition enc_out :: "tar_out \<Rightarrow> bytes" where
  "enc_out t = enc_str (out_path t) @ type_byte (out_type t) # u32_to_le_bytes (out_mode t) @ u64_to_le_bytes (out_size t) @
    u64_to_le_bytes (out_mtime t) @ u64_to_le_bytes (out_uid t) @ u64_to_le_bytes (out_gid t) @
    (case out_link t of None \<Rightarrow> [0] | Some l \<Rightarrow> 1 # enc_str l) @ enc_bytes (out_data t)"

definition dec_tail :: "string \<Rightarrow> byte \<Rightarrow> bytes \<Rightarrow> bytes \<Rightarrow> (tar_entry \<times> bytes) option" where
  "dec_tail p t nums r =
    (case (case r of [] \<Rightarrow> None | b # r' \<Rightarrow> if b = 0 then Some (None, r') else map_option (\<lambda>(l, r''). (Some l, r'')) (dec_str r')) of
       None \<Rightarrow> None
     | Some (link, r1) \<Rightarrow>
         map_option (\<lambda>(data, r2).
           (\<lparr>te_path = Inr p,
             te_header = Inr \<lparr>th_type = byte_type t, th_mode = u32_from_le_bytes (take 4 nums),
               th_size = u64_from_le_bytes (take 8 (drop 4 nums)), th_uid = u64_from_le_bytes (take 8 (drop 20 nums)),
               th_gid = u64_from_le_bytes (take 8 (drop 28 nums)), th_mtime = u64_from_le_bytes (take 8 (drop 12 nums)), th_link = link\<rparr>,
             te_pax = [], te_data = Inr data\<rparr>, r2)) (dec_bytes r1))"

definition dec_out :: "bytes \<Rightarrow> (tar_entry \<times> bytes) option" where
  "dec_out bs =
    (case dec_str bs of
       Some (p, t # r) \<Rightarrow> dec_tail p t (take 36 r) (drop 36 r)
     | _ \<Rightarrow> None)"

lemma byte_type_ok [simp]: "byte_type (type_byte t) = t"
  by (cases t) (simp_all add: byte_type_def)

lemma dec_enc_out: "dec_out (enc_out t @ r) = Some (entry_of_out t, r)"
proof (cases "out_link t")
  case None
  then show ?thesis by (simp add: enc_out_def dec_out_def dec_tail_def entry_of_out_def)
next
  case (Some l)
  then show ?thesis by (simp add: enc_out_def dec_out_def dec_tail_def entry_of_out_def)
qed

fun dec_outs :: "nat \<Rightarrow> bytes \<Rightarrow> string + (string + tar_entry) list" where
  "dec_outs n [] = Inr []"
| "dec_outs 0 (b # bs) = Inl ''archive''"
| "dec_outs (Suc n) (b # bs) =
    (case dec_out (b # bs) of
       None \<Rightarrow> Inr [Inl ''entry'']
     | Some (te, r) \<Rightarrow> (case dec_outs n r of Inl e \<Rightarrow> Inl e | Inr tes \<Rightarrow> Inr (Inr te # tes)))"

lemma dec_enc_outs: "length ts \<le> n \<Longrightarrow> dec_outs n (concat (map enc_out ts)) = Inr (map (\<lambda>t. Inr (entry_of_out t)) ts)"
proof (induction ts arbitrary: n)
  case (Cons t ts)
  then obtain m where m: "n = Suc m" by (cases n) auto
  have "enc_out t \<noteq> []" by (cases "as_bytes (out_path t)") (simp_all add: enc_out_def enc_str_def)
  then obtain b bs where b: "enc_out t = b # bs" by (cases "enc_out t") auto
  have "dec_outs n (concat (map enc_out (t # ts))) =
      (case dec_out (enc_out t @ concat (map enc_out ts)) of
         None \<Rightarrow> Inr [Inl ''entry'']
       | Some (te, r) \<Rightarrow> (case dec_outs m r of Inl e \<Rightarrow> Inl e | Inr tes \<Rightarrow> Inr (Inr te # tes)))"
    by (simp add: m b)
  then show ?case using Cons by (simp add: dec_enc_out m)
qed simp

definition ref_writer :: tar_writer where
  "ref_writer = \<lparr>append_error = (\<lambda>t. if relative_path (out_path t) then None else Some ''path''),
                 archive_bytes = (\<lambda>ts. concat (map enc_out ts))\<rparr>"

text \<open>Manifests are stored as their JSON text by the sources; here any manifest is one byte.\<close>

definition ref_conv :: conv_env where
  "ref_conv =
    \<lparr>tar_entries = (\<lambda>bs. dec_outs (length bs) bs), zstd_decode = Inr, gzip_decode = Inr,
     json_to_vec = enc_json, json_from_slice = ref_from_slice, json_pretty = enc_json,
     manifest_to_vec = (\<lambda>_. [0]), manifest_from_slice = (\<lambda>_. Inl ''manifest'')\<rparr>"

lemma enc_out_length: "length ts \<le> length (concat (map enc_out ts))"
proof (induction ts)
  case (Cons t ts)
  have "1 \<le> length (enc_out t)" by (simp add: enc_out_def)
  then have "1 + length ts \<le> length (enc_out t) + length (concat (map enc_out ts))" using Cons.IH by (rule add_mono)
  then show ?case by simp
qed simp

lemma ref_tar_ok: "tar_ok ref_conv ref_writer"
  by (simp add: tar_ok_def ref_conv_def ref_writer_def dec_enc_outs enc_out_length)

end
