(* ===== verification/Dag_Transfer.thy ===== *)
theory Dag_Transfer
  imports Layer_Storage Reference_Codecs Sample_Store
begin

text \<open>
  Moving an image between stores as one archive,
  \<^verbatim>\<open>pullrun-oci/src/dag_export.rs\<close> and
  \<^verbatim>\<open>dag_import.rs\<close>: every reachable node and blob file is an entry of the
  archive, after an entry that names the root.  What a failed export has already
  written is not modelled.
\<close>

section \<open>Export\<close>

text \<open>The header of an exported file: its size, the mode 0644 and time 0.\<close>

definition plain_out :: "string \<Rightarrow> bytes \<Rightarrow> tar_out" where
  "plain_out path data =
    \<lparr>out_path = path, out_type = RegularFile, out_mode = 420, out_size = word_of_nat (length data), out_mtime = 0,
     out_uid = 0, out_gid = 0, out_link = None, out_data = data\<rparr>"

record export_manifest =
  xm_root_digest :: string
  xm_format :: string
  xm_node_count :: u64
  xm_blob_count :: u64

definition export_manifest_json :: "export_manifest \<Rightarrow> json" where
  "export_manifest_json m = JObject
    [(''root_digest'', JString (xm_root_digest m)), (''format'', JString (xm_format m)),
     (''node_count'', jnat (unat (xm_node_count m))), (''blob_count'', jnat (unat (xm_blob_count m)))]"

definition MANIFEST_PATH :: string where "MANIFEST_PATH = ''pullrun-manifest.json''"
definition NODES_PREFIX :: string where "NODES_PREFIX = ''pullrun-nodes/''"
definition BLOBS_PREFIX :: string where "BLOBS_PREFIX = ''pullrun-blobs/''"

definition walk_dag_collect :: "ext \<Rightarrow> mmap_store \<Rightarrow> string \<Rightarrow> (digest list \<times> digest list) store_result" where
  "walk_dag_collect E s root_digest =
    (case from_hex E root_digest of
       Inl _ \<Rightarrow> (Inl (ArchiveValidation ''invalid root digest''), s)
     | Inr r \<Rightarrow> walk_reachable E s [r])"

text \<open>Entries for the files that \<open>rd\<close> reads, the archive so far being \<open>out\<close>.\<close>

fun export_each ::
    "('s \<Rightarrow> digest \<Rightarrow> (store_error + bytes) \<times> 's) \<Rightarrow> string \<Rightarrow> string \<Rightarrow> ext \<Rightarrow> tar_writer \<Rightarrow> digest list \<Rightarrow>
     tar_out list \<Rightarrow> 's \<Rightarrow> (oci_error + tar_out list) \<times> 's" where
  "export_each rd pre msg E T [] out s = (Inr out, s)"
| "export_each rd pre msg E T (d # ds) out s =
    (case rd s d of
       (Inl _, s1) \<Rightarrow> (Inl (Other msg), s1)
     | (Inr data, s1) \<Rightarrow>
         (let t = plain_out (pre @ as_hex E d) data
          in case append_error T t of
               Some e \<Rightarrow> (Inl (OciIo e), s1)
             | None \<Rightarrow> export_each rd pre msg E T ds (out @ [t]) s1))"

definition export_dag_to_tar ::
    "ext \<Rightarrow> conv_env \<Rightarrow> tar_writer \<Rightarrow> string \<Rightarrow> mmap_store \<Rightarrow> (oci_error + bytes) \<times> mmap_store" where
  "export_dag_to_tar E C T root_digest s =
    (case walk_dag_collect E s root_digest of
       (Inl _, s1) \<Rightarrow> (Inl (Other ''BFS walk failed''), s1)
     | (Inr (nodes, blobs), s1) \<Rightarrow>
         (let m = \<lparr>xm_root_digest = root_digest, xm_format = ''dag'',
                   xm_node_count = word_of_nat (length nodes), xm_blob_count = word_of_nat (length blobs)\<rparr>;
              t = plain_out MANIFEST_PATH (json_to_vec C (export_manifest_json m))
          in case append_error T t of
               Some e \<Rightarrow> (Inl (OciIo e), s1)
             | None \<Rightarrow>
                 (case export_each get NODES_PREFIX ''read node'' E T nodes [t] s1 of
                    (Inl e, s2) \<Rightarrow> (Inl e, s2)
                  | (Inr out, s2) \<Rightarrow>
                      (case export_each get_blob BLOBS_PREFIX ''read blob'' E T blobs out s2 of
                         (Inl e, s3) \<Rightarrow> (Inl e, s3)
                       | (Inr out', s3) \<Rightarrow> (Inr (archive_bytes T out'), s3)))))"

section \<open>Import\<close>

definition export_manifest_of_json :: "json \<Rightarrow> export_manifest option" where
  "export_manifest_of_json j =
    (case j of
       JObject fs \<Rightarrow>
         if \<not> distinct (filter (\<lambda>k. k \<in> set [''root_digest'', ''format'', ''node_count'', ''blob_count'']) (map fst fs))
         then None
         else
           (case (need fs ''root_digest'' json_string, need fs ''format'' json_string,
                  need fs ''node_count'' json_u64, need fs ''blob_count'' json_u64) of
              (Some r, Some f, Some n, Some b) \<Rightarrow>
                Some \<lparr>xm_root_digest = r, xm_format = f, xm_node_count = n, xm_blob_count = b\<rparr>
            | _ \<Rightarrow> None)
     | _ \<Rightarrow> None)"

record import_state =
  im_root :: string
  im_stored :: u64
  im_dedup :: u64
  im_found :: bool

definition count_bytes :: "bool \<Rightarrow> bytes \<Rightarrow> import_state \<Rightarrow> import_state" where
  "count_bytes already data st =
    (if already then st\<lparr>im_dedup := im_dedup st + word_of_nat (length data)\<rparr>
     else st\<lparr>im_stored := im_stored st + word_of_nat (length data)\<rparr>)"

definition import_node ::
    "ext \<Rightarrow> string \<Rightarrow> bytes \<Rightarrow> import_state \<Rightarrow> mmap_store \<Rightarrow> (oci_error + import_state) \<times> mmap_store" where
  "import_node E digest_str data st s =
    (case from_hex E digest_str of
       Inl _ \<Rightarrow> (Inl (Other ''invalid digest in archive''), s)
     | Inr d \<Rightarrow>
         if compute E data \<noteq> d then (Inl (Other ''node digest mismatch''), s)
         else (case rkyv_check E data of
                 Inl _ \<Rightarrow> (Inl (Other ''invalid node''), s)
               | Inr _ \<Rightarrow>
                   if exists_node s d then (Inr (count_bytes True data st), s)
                   else (Inr (count_bytes False data st), s\<lparr>node_files := AList.update d data (node_files s)\<rparr>)))"

definition import_blob ::
    "ext \<Rightarrow> string \<Rightarrow> bytes \<Rightarrow> import_state \<Rightarrow> mmap_store \<Rightarrow> (oci_error + import_state) \<times> mmap_store" where
  "import_blob E digest_str data st s =
    (case from_hex E digest_str of
       Inl _ \<Rightarrow> (Inl (Other ''invalid digest in archive''), s)
     | Inr d \<Rightarrow>
         (case put_blob_blocking s d data of
            (Inl e, s1) \<Rightarrow> (Inl (OciStore e), s1)
          | (Inr _, s1) \<Rightarrow> (Inr (count_bytes (blob_exists s d) data st), s1)))"

definition import_entry ::
    "ext \<Rightarrow> conv_env \<Rightarrow> string \<Rightarrow> bytes \<Rightarrow> import_state \<Rightarrow> mmap_store \<Rightarrow> (oci_error + import_state) \<times> mmap_store" where
  "import_entry E C path data st s =
    (if path = MANIFEST_PATH
     then (case Option.bind (json_from_slice C data) export_manifest_of_json of
             None \<Rightarrow> (Inl (Json ''invalid export manifest''), s)
           | Some m \<Rightarrow> (Inr (st\<lparr>im_root := xm_root_digest m, im_found := True\<rparr>), s))
     else case strip_prefix NODES_PREFIX path of
            Some digest_str \<Rightarrow> import_node E digest_str data st s
          | None \<Rightarrow>
              (case strip_prefix BLOBS_PREFIX path of
                 Some digest_str \<Rightarrow> import_blob E digest_str data st s
               | None \<Rightarrow> (Inr st, s)))"

fun import_entries ::
    "ext \<Rightarrow> conv_env \<Rightarrow> (string + tar_entry) list \<Rightarrow> import_state \<Rightarrow> mmap_store \<Rightarrow> (oci_error + import_state) \<times> mmap_store" where
  "import_entries E C [] st s = (Inr st, s)"
| "import_entries E C (Inl e # tes) st s = (Inl (OciIo e), s)"
| "import_entries E C (Inr te # tes) st s =
    (case te_path te of
       Inl _ \<Rightarrow> import_entries E C tes st s
     | Inr path \<Rightarrow>
         (case te_data te of
            Inl e \<Rightarrow> (Inl (OciIo e), s)
          | Inr data \<Rightarrow>
              (case import_entry E C path data st s of
                 (Inl e, s1) \<Rightarrow> (Inl e, s1)
               | (Inr st1, s1) \<Rightarrow> import_entries E C tes st1 s1)))"

definition import_dag_from_tar ::
    "ext \<Rightarrow> conv_env \<Rightarrow> bytes \<Rightarrow> mmap_store \<Rightarrow> (oci_error + string \<times> u64 \<times> u64) \<times> mmap_store" where
  "import_dag_from_tar E C tar s =
    (case tar_entries C tar of
       Inl e \<Rightarrow> (Inl (OciIo e), s)
     | Inr tes \<Rightarrow>
         (case import_entries E C tes \<lparr>im_root = [], im_stored = 0, im_dedup = 0, im_found = False\<rparr> s of
            (Inl e, s1) \<Rightarrow> (Inl e, s1)
          | (Inr st, s1) \<Rightarrow>
              if \<not> im_found st then (Inl (Other ''pullrun-manifest.json not found in archive''), s1)
              else (Inr (im_root st, im_stored st, im_dedup st), s1)))"

section \<open>What an export contains\<close>

definition file_out :: "string \<Rightarrow> ext \<Rightarrow> (digest \<Rightarrow> bytes option) \<Rightarrow> digest \<Rightarrow> tar_out" where
  "file_out pre E f d = plain_out (pre @ as_hex E d) (case f d of None \<Rightarrow> [] | Some b \<Rightarrow> b)"

definition manifest_out :: "ext \<Rightarrow> conv_env \<Rightarrow> digest \<Rightarrow> digest list \<Rightarrow> digest list \<Rightarrow> tar_out" where
  "manifest_out E C r nodes blobs = plain_out MANIFEST_PATH (json_to_vec C (export_manifest_json
      \<lparr>xm_root_digest = as_hex E r, xm_format = ''dag'',
       xm_node_count = word_of_nat (length nodes), xm_blob_count = word_of_nat (length blobs)\<rparr>))"

definition export_outs :: "ext \<Rightarrow> conv_env \<Rightarrow> mmap_store \<Rightarrow> digest \<Rightarrow> digest list \<Rightarrow> tar_out list" where
  "export_outs E C s r nodes =
    (let blobs = filter (blob_exists s) nodes
     in manifest_out E C r nodes blobs # map (file_out NODES_PREFIX E (map_of (node_files s))) nodes @
        map (file_out BLOBS_PREFIX E (map_of (blob_files s))) blobs)"

context read_through begin

lemma export_each_files:
  "inv s \<Longrightarrow> \<forall>d \<in> set ds. files s d \<noteq> None \<Longrightarrow>
    list_all (\<lambda>t. append_error T t = None) (map (file_out pre E (files s)) ds) \<Longrightarrow>
    \<exists>s'. export_each rd pre msg E T ds out s = (Inr (out @ map (file_out pre E (files s)) ds), s') \<and> files s' = files s"
proof (induction ds arbitrary: out s)
  case (Cons d ds)
  then obtain b where b: "files s d = Some b" by auto
  obtain s1 where s1: "rd s d = (Inr b, s1)" using rd_result [OF Cons.prems(1), of d] b by (cases "rd s d") simp
  have f: "files s1 = files s" and i: "inv s1" using frame [of s d] keep [OF Cons.prems(1), of d] s1 by simp_all
  have "export_each rd pre msg E T (d # ds) out s = export_each rd pre msg E T ds (out @ [file_out pre E (files s) d]) s1"
    using s1 b Cons.prems(3) by (simp add: file_out_def)
  then show ?case using Cons.IH [OF i, of "out @ [file_out pre E (files s) d]"] Cons.prems by (simp add: f)
qed simp

end

lemma export_each_only_cache:
  "export_each get pre msg E T ds out s = (r, s') \<Longrightarrow> only_cache s s'"
proof (induction ds arbitrary: out s)
  case (Cons d ds)
  obtain r1 s1 where g: "get s d = (r1, s1)" by fastforce
  then have o: "only_cache s s1" using get_only_cache [of s d] by simp
  show ?case
    using Cons.prems g o Cons.IH [of _ s1] only_cache_trans [OF o]
    by (auto simp: Let_def split: sum.splits option.splits)
qed simp

lemma only_cache_coherent: "only_cache s s' \<Longrightarrow> blob_coherent s \<Longrightarrow> blob_coherent s'"
  by (simp add: blob_coherent_def only_cacheD)

text \<open>An image is intact when every node reachable from its root is a valid archive under its own digest.\<close>

definition intact :: "ext \<Rightarrow> mmap_store \<Rightarrow> digest \<Rightarrow> bool" where
  "intact E s r \<longleftrightarrow> node_exists s r \<and>
    (\<forall>d \<in> reachable E s [r]. wf_digest d \<and>
       (\<exists>b n. map_of (node_files s) d = Some b \<and> compute E b = d \<and> rkyv_check E b = Inr n))"

lemma plain_out_sized [simp]: "sized (plain_out p data)"
  by (simp add: sized_def plain_out_def)

lemma exported_path:
  assumes "hex_ok E" "pre \<in> {NODES_PREFIX, BLOBS_PREFIX}"
  shows "relative_path (pre @ as_hex E d)"
proof -
  have h: "set (as_hex E d) \<subseteq> lower_hex" using assms(1) by (simp add: as_hex_def hex_alphabet)
  then have "CHR ''/'' \<notin> set (as_hex E d)" "CHR ''.'' \<notin> set (as_hex E d)" by (auto simp: lower_hex_def)
  moreover from this(2) have "as_hex E d \<noteq> ''..''" by auto
  ultimately show ?thesis using assms(2)
    by (auto simp: relative_path_def NODES_PREFIX_def BLOBS_PREFIX_def split_on_append split_on_no_sep)
qed

lemma export_outs_read_back:
  assumes "hex_ok E" "tar_ok C T"
  shows "list_all (\<lambda>t. append_error T t = None) (export_outs E C s r nodes)"
    "tar_entries C (archive_bytes T (export_outs E C s r nodes)) = Inr (map (\<lambda>t. Inr (entry_of_out t)) (export_outs E C s r nodes))"
proof -
  have "relative_path (out_path (file_out pre E f d))" if "pre \<in> {NODES_PREFIX, BLOBS_PREFIX}" for pre f d
    using exported_path [OF assms(1) that] by (simp add: file_out_def plain_out_def)
  moreover have "relative_path (out_path (manifest_out E C r nodes blobs))" for blobs
    by (simp add: manifest_out_def plain_out_def) code_simp
  ultimately have "list_all (\<lambda>t. relative_path (out_path t) \<and> sized t) (export_outs E C s r nodes)"
    by (auto simp: export_outs_def Let_def list_all_iff file_out_def manifest_out_def)
  then show "list_all (\<lambda>t. append_error T t = None) (export_outs E C s r nodes)"
    "tar_entries C (archive_bytes T (export_outs E C s r nodes)) = Inr (map (\<lambda>t. Inr (entry_of_out t)) (export_outs E C s r nodes))"
    using assms(2) by (auto simp: tar_ok_def list_all_iff)
qed

lemma export_result:
  assumes "hex_ok E" "store_inv s" "blob_coherent s" "intact E s r" "tar_ok C T"
  shows "\<exists>nodes s'. distinct nodes \<and> set nodes = reachable E s [r] \<and>
    export_dag_to_tar E C T (as_hex E r) s = (Inr (archive_bytes T (export_outs E C s r nodes)), s')"
proof -
  have "r \<in> reachable E s [r]" using assms(4) by (auto simp: intact_def reachable_def intro: reach_root)
  then have fr: "from_hex E (as_hex E r) = Inr r" using assms(1,4) by (simp add: intact_def from_hex_as_hex)
  have views: "\<exists>n. node_view E s d = Inr n" if "d \<in> reachable E s [r]" for d
    using assms(4) that by (fastforce simp: intact_def node_view_def guard_new_def)
  obtain w s1 where w: "walk_reachable E s [r] = (w, s1)" by fastforce
  note wr = walk_reachable_result [OF assms(2), of E "[r]", unfolded w fst_conv snd_conv]
  obtain nodes where n: "w = Inr (nodes, filter (blob_exists s) nodes)" "distinct nodes" "set nodes = reachable E s [r]"
    using wr(1) views by (fastforce simp: walk_result_def split: sum.splits)
  define blobs where "blobs = filter (blob_exists s) nodes"
  note same = only_cacheD [OF wr(3)]
  have ok: "list_all (\<lambda>t. append_error T t = None) (export_outs E C s r nodes)" by (rule export_outs_read_back(1) [OF assms(1,5)])
  have "\<forall>d \<in> set nodes. map_of (node_files s1) d \<noteq> None" using assms(4) n(3) by (fastforce simp: intact_def same)
  moreover have "list_all (\<lambda>t. append_error T t = None) (map (file_out NODES_PREFIX E (map_of (node_files s1))) nodes)"
    using ok by (simp add: export_outs_def Let_def same)
  ultimately obtain s2 where s2: "export_each get NODES_PREFIX ''read node'' E T nodes [manifest_out E C r nodes blobs] s1 =
      (Inr ([manifest_out E C r nodes blobs] @ map (file_out NODES_PREFIX E (map_of (node_files s1))) nodes), s2)"
    using node_read.export_each_files [OF wr(2), of nodes T NODES_PREFIX E "''read node''" "[manifest_out E C r nodes blobs]"]
    by blast
  have o2: "only_cache s s2" using only_cache_trans [OF wr(3) export_each_only_cache [OF s2]] .
  note same2 = only_cacheD [OF o2]
  obtain s3 where s3: "export_each get_blob BLOBS_PREFIX ''read blob'' E T blobs
        ([manifest_out E C r nodes blobs] @ map (file_out NODES_PREFIX E (map_of (node_files s1))) nodes) s2 =
      (Inr (([manifest_out E C r nodes blobs] @ map (file_out NODES_PREFIX E (map_of (node_files s1))) nodes) @
         map (file_out BLOBS_PREFIX E (map_of (blob_files s2))) blobs), s3)"
    using blob_read.export_each_files [OF only_cache_coherent [OF o2 assms(3)], of blobs T BLOBS_PREFIX E "''read blob''"
        "[manifest_out E C r nodes blobs] @ map (file_out NODES_PREFIX E (map_of (node_files s1))) nodes"] ok
    by (auto simp: same2 blobs_def blob_exists_def export_outs_def Let_def)
  have "append_error T (manifest_out E C r nodes blobs) = None" using ok by (simp add: export_outs_def Let_def blobs_def)
  then have "export_dag_to_tar E C T (as_hex E r) s = (Inr (archive_bytes T (export_outs E C s r nodes)), s3)"
    using s2 s3 unfolding export_dag_to_tar_def walk_dag_collect_def fr
    by (simp add: w n(1) blobs_def [symmetric] manifest_out_def [symmetric] Let_def export_outs_def same same2)
  then show ?thesis using n by blast
qed

section \<open>What an import does\<close>

lemma prefix_paths [simp]:
  "pre @ x \<noteq> MANIFEST_PATH \<or> pre \<notin> {NODES_PREFIX, BLOBS_PREFIX}"
  "strip_prefix NODES_PREFIX (BLOBS_PREFIX @ x) = None"
  by (auto simp: MANIFEST_PATH_def NODES_PREFIX_def BLOBS_PREFIX_def)

lemma import_entry_node:
  assumes "hex_ok E" "wf_digest d" "f d = Some b" "compute E b = d" "rkyv_check E b = Inr n"
  shows "import_entries E C (Inr (entry_of_out (file_out NODES_PREFIX E f d)) # tes) st s =
    (if exists_node s d then import_entries E C tes (count_bytes True b st) s
     else import_entries E C tes (count_bytes False b st) (s\<lparr>node_files := AList.update d b (node_files s)\<rparr>))"
  using assms prefix_paths(1) [of NODES_PREFIX "as_hex E d"]
  by (simp add: entry_of_out_def file_out_def plain_out_def import_entry_def import_node_def from_hex_as_hex)

lemma import_entry_blob:
  assumes "hex_ok E" "wf_digest d" "f d = Some b"
  shows "import_entries E C (Inr (entry_of_out (file_out BLOBS_PREFIX E f d)) # tes) st s =
    (if blob_exists s d then import_entries E C tes (count_bytes True b st) s
     else import_entries E C tes (count_bytes False b st) (s\<lparr>blob_files := AList.update d b (blob_files s)\<rparr>))"
  using assms prefix_paths(1) [of BLOBS_PREFIX "as_hex E d"]
  by (simp add: entry_of_out_def file_out_def plain_out_def import_entry_def import_blob_def from_hex_as_hex put_blob_blocking_def)

lemma export_manifest_json_back: "export_manifest_of_json (export_manifest_json m) = Some m"
  by (simp add: export_manifest_json_def export_manifest_of_json_def need_def jnat_def)

text \<open>The JSON codec reads back the manifests of exports.\<close>

definition manifest_json_ok :: "conv_env \<Rightarrow> bool" where
  "manifest_json_ok C \<longleftrightarrow>
    (\<forall>m. json_from_slice C (json_to_vec C (export_manifest_json m)) = Some (export_manifest_json m))"

lemma import_entry_manifest:
  assumes "manifest_json_ok C"
  shows "import_entries E C (Inr (entry_of_out (manifest_out E C r nodes blobs)) # tes) st s =
    import_entries E C tes (st\<lparr>im_root := as_hex E r, im_found := True\<rparr>) s"
  by (simp add: entry_of_out_def manifest_out_def plain_out_def import_entry_def assms [unfolded manifest_json_ok_def] export_manifest_json_back)

definition stats :: "import_state \<Rightarrow> string \<times> bool \<times> u64" where
  "stats st = (im_root st, im_found st, im_stored st + im_dedup st)"

definition fits :: "(digest \<Rightarrow> bytes option) \<Rightarrow> digest set \<Rightarrow> (digest \<Rightarrow> bytes option) \<Rightarrow> bool" where
  "fits f D g \<longleftrightarrow> (\<forall>d \<in> D. f d = None \<or> g d = None \<or> f d = g d)"

definition file_bytes :: "(digest \<Rightarrow> bytes option) \<Rightarrow> digest list \<Rightarrow> nat" where
  "file_bytes f ds = sum_list (map (\<lambda>d. case f d of None \<Rightarrow> 0 | Some b \<Rightarrow> length b) ds)"

lemma stats_count: "stats (count_bytes already b st) = (im_root st, im_found st, im_stored st + im_dedup st + word_of_nat (length b))"
  by (simp add: stats_def count_bytes_def)

text \<open>
  Importing a list of files: \<open>files\<close> is the table the entries go to, \<open>keep\<close>
  what they leave alone, and \<open>ok d b\<close> says that an entry for \<open>d\<close> with the
  content \<open>b\<close> is accepted.
\<close>

locale archive_files =
  fixes pre :: string
    and files :: "mmap_store \<Rightarrow> digest \<Rightarrow> bytes option"
    and add :: "digest \<Rightarrow> bytes \<Rightarrow> mmap_store \<Rightarrow> mmap_store"
    and keep :: "mmap_store \<Rightarrow> 'k"
    and ok :: "ext \<Rightarrow> digest \<Rightarrow> bytes \<Rightarrow> bool"
  assumes step: "store_inv s \<Longrightarrow> ok E d b \<Longrightarrow> f d = Some b \<Longrightarrow>
      import_entries E C (Inr (entry_of_out (file_out pre E f d)) # tes) st s =
        import_entries E C tes (count_bytes (files s d \<noteq> None) b st) (if files s d \<noteq> None then s else add d b s)"
    and add_inv: "store_inv s \<Longrightarrow> files s d = None \<Longrightarrow> store_inv (add d b s)"
    and add_files: "files (add d b s) = (files s)(d := Some b)"
    and add_keep: "keep (add d b s) = keep s"
begin

lemma import_list:
  "store_inv s \<Longrightarrow> fits f (set ds) (files s) \<Longrightarrow> \<forall>d \<in> set ds. \<exists>b. f d = Some b \<and> ok E d b \<Longrightarrow>
    \<exists>st' s'. import_entries E C (map (\<lambda>t. Inr (entry_of_out t)) (map (file_out pre E f) ds) @ tes) st s =
        import_entries E C tes st' s' \<and> store_inv s' \<and> keep s' = keep s \<and>
      files s' = (\<lambda>q. if q \<in> set ds then f q else files s q) \<and>
      stats st' = (im_root st, im_found st, im_stored st + im_dedup st + word_of_nat (file_bytes f ds))"
proof (induction ds arbitrary: st s)
  case Nil
  have "stats st = (im_root st, im_found st, im_stored st + im_dedup st + word_of_nat (file_bytes f []))"
    by (simp add: stats_def file_bytes_def)
  then show ?case using Nil.prems(1) by (intro exI [of _ st] exI [of _ s]) simp
next
  case (Cons d ds)
  then obtain b where d: "f d = Some b" "ok E d b" by auto
  define s1 where "s1 = (if files s d \<noteq> None then s else add d b s)"
  define st1 where "st1 = count_bytes (files s d \<noteq> None) b st"
  have go: "import_entries E C (map (\<lambda>t. Inr (entry_of_out t)) (map (file_out pre E f) (d # ds)) @ tes) st s =
      import_entries E C (map (\<lambda>t. Inr (entry_of_out t)) (map (file_out pre E f) ds) @ tes) st1 s1"
    using step [OF Cons.prems(1) d(2), of f] d(1) by (simp add: s1_def st1_def del: import_entries.simps)
  have inv1: "store_inv s1" using add_inv [OF Cons.prems(1)] Cons.prems(1) by (simp add: s1_def)
  have m1: "files s1 = (files s)(d := Some b)"
    using Cons.prems(2) d(1) by (auto simp: s1_def fits_def add_files)
  then have f1: "fits f (set ds) (files s1)" using Cons.prems(2) d(1) by (simp add: fits_def)
  obtain st' s' where IH: "import_entries E C (map (\<lambda>t. Inr (entry_of_out t)) (map (file_out pre E f) ds) @ tes) st1 s1 =
        import_entries E C tes st' s'" "store_inv s'" "keep s' = keep s1"
      "files s' = (\<lambda>q. if q \<in> set ds then f q else files s1 q)"
      "stats st' = (im_root st1, im_found st1, im_stored st1 + im_dedup st1 + word_of_nat (file_bytes f ds))"
    using Cons.IH [OF inv1 f1, of st1] Cons.prems(3) by auto
  have "keep s1 = keep s" by (simp add: s1_def add_keep)
  moreover have "files s' = (\<lambda>q. if q \<in> set (d # ds) then f q else files s q)"
    using IH(4) d(1) by (auto simp: m1 fun_eq_iff)
  moreover have "stats st' = (im_root st, im_found st, im_stored st + im_dedup st + word_of_nat (file_bytes f (d # ds)))"
    using IH(5) stats_count [of "files s d \<noteq> None" b st] d(1) by (simp add: st1_def stats_def file_bytes_def)
  ultimately show ?case using go IH by auto
qed

end

interpretation node_import: archive_files NODES_PREFIX "\<lambda>s. map_of (node_files s)"
  "\<lambda>d b s. s\<lparr>node_files := AList.update d b (node_files s)\<rparr>" "\<lambda>s. (blob_files s, refcount_files s)"
  "\<lambda>E d b. hex_ok E \<and> wf_digest d \<and> compute E b = d \<and> (\<exists>n. rkyv_check E b = Inr n)"
proof unfold_locales
  fix s E d b f C tes st
  assume s: "store_inv s" and ok: "hex_ok E \<and> wf_digest d \<and> compute E b = d \<and> (\<exists>n. rkyv_check E b = Inr n)" and f: "f d = Some b"
  obtain n where n: "rkyv_check E b = Inr n" using ok by blast
  show "import_entries E C (Inr (entry_of_out (file_out NODES_PREFIX E f d)) # tes) st s =
      import_entries E C tes (count_bytes (map_of (node_files s) d \<noteq> None) b st)
        (if map_of (node_files s) d \<noteq> None then s else s\<lparr>node_files := AList.update d b (node_files s)\<rparr>)"
    using import_entry_node [of E d f b n C tes st s] ok f n s by (simp add: node_exists_def del: import_entries.simps)
qed (simp_all add: add_node_inv node_exists_def fun_eq_iff)

interpretation blob_import: archive_files BLOBS_PREFIX "\<lambda>s. map_of (blob_files s)"
  "\<lambda>d b s. s\<lparr>blob_files := AList.update d b (blob_files s)\<rparr>" "\<lambda>s. (node_files s, refcount_files s)"
  "\<lambda>E d b. hex_ok E \<and> wf_digest d"
proof unfold_locales
  fix s E d and b :: bytes and f :: "digest \<Rightarrow> bytes option" and C tes st
  assume "hex_ok E \<and> wf_digest d" "f d = Some b"
  then show "import_entries E C (Inr (entry_of_out (file_out BLOBS_PREFIX E f d)) # tes) st s =
      import_entries E C tes (count_bytes (map_of (blob_files s) d \<noteq> None) b st)
        (if map_of (blob_files s) d \<noteq> None then s else s\<lparr>blob_files := AList.update d b (blob_files s)\<rparr>)"
    using import_entry_blob [of E d f b C tes st s] by (simp add: blob_exists_def del: import_entries.simps)
next
  fix s d b assume "store_inv s" "map_of (blob_files s) d = None"
  then show "store_inv (s\<lparr>blob_files := AList.update d b (blob_files s)\<rparr>)"
    using put_blob_inv(1) [of s d b] by (simp add: put_blob_def blob_exists_def)
qed (simp_all add: fun_eq_iff)


lemma put_coherent [inv_intros]: "blob_coherent s \<Longrightarrow> blob_coherent (snd (put E s n))"
proof -
  assume c: "blob_coherent s"
  obtain r s' where p: "put E s n = (r, s')" by fastforce
  then show ?thesis by (cases rule: put_cases) (use c p in \<open>simp_all add: blob_coherent_def\<close>)
qed


section \<open>Blobs are not verified\<close>

text \<open>
  A blob entry of an archive is taken over unread: for any digest that has no blob
  file yet, such as the one of a small file whose content is in its node, any bytes
  become its blob.
\<close>

lemma import_any_blob:
  assumes "hex_ok E" "wf_digest d" "\<not> blob_exists s d" "manifest_json_ok C" "tar_ok C T"
  shows "\<exists>n b s'. import_dag_from_tar E C (archive_bytes T [manifest_out E C r [] [d], plain_out (BLOBS_PREFIX @ as_hex E d) evil]) s =
      (Inr (as_hex E r, n, b), s') \<and> map_of (blob_files s') d = Some evil \<and> node_files s' = node_files s"
proof -
  let ?b = "file_out BLOBS_PREFIX E [d \<mapsto> evil] d"
  have b: "plain_out (BLOBS_PREFIX @ as_hex E d) evil = ?b" by (simp add: file_out_def)
  have "relative_path (out_path (manifest_out E C r [] [d]))" by (simp add: manifest_out_def plain_out_def) code_simp
  moreover have "relative_path (out_path ?b)" using exported_path [OF assms(1)] by (simp add: file_out_def plain_out_def)
  ultimately have "tar_entries C (archive_bytes T [manifest_out E C r [] [d], ?b]) = Inr (map (\<lambda>t. Inr (entry_of_out t)) [manifest_out E C r [] [d], ?b])"
    using assms(5) by (simp add: tar_ok_def file_out_def manifest_out_def)
  then show ?thesis
    unfolding b import_dag_from_tar_def
    by (simp add: import_entry_manifest [OF assms(4)] import_entry_blob [OF assms(1,2)] assms(3) count_bytes_def
        del: import_entries.simps(3))
qed

end
