(* ===== verification/Layer_Export.thy ===== *)
theory Layer_Export
  imports Image_Roundtrip Reference_Codecs "HOL-Library.Multiset"
begin

text \<open>
  Layers as archives again: the two walks over the nodes of a layer,
  \<^verbatim>\<open>walk_tree_for_layer\<close> of \<^verbatim>\<open>pullrun-oci/src/oci_layout.rs\<close> and of
  \<^verbatim>\<open>push.rs\<close>, and the export of an image as an OCI image layout.  The
  compressors and the JSON writers are fields of the parameter record
  \<open>export_env\<close>.  The recursion over the nodes has fuel.
\<close>

section \<open>Entries of a layer archive\<close>

record export_env =
  writer :: tar_writer
  gzip_encode :: "bytes \<Rightarrow> string + bytes"
  zstd_encode :: "bytes \<Rightarrow> string + bytes"
  config_to_vec :: "oci_image_config \<Rightarrow> bytes"
  oci_manifest_to_vec :: "oci_manifest \<Rightarrow> bytes"
  index_to_vec :: "oci_image_index \<Rightarrow> bytes"
  index_from_slice :: "bytes \<Rightarrow> oci_image_index option"

definition entry_path :: "string \<Rightarrow> directory_entry \<Rightarrow> string" where
  "entry_path base_path e = (if base_path = [] then de_name e else base_path @ ''/'' @ de_name e)"

text \<open>A header of the \<^verbatim>\<open>tar\<close> crate in which only the type is set.\<close>

definition new_gnu :: "entry_type \<Rightarrow> string \<Rightarrow> tar_out" where
  "new_gnu t p = \<lparr>out_path = p, out_type = t, out_mode = 0, out_size = 0, out_mtime = 0, out_uid = 0, out_gid = 0,
     out_link = None, out_data = []\<rparr>"

definition append_link :: "string \<Rightarrow> string \<Rightarrow> tar_out" where
  "append_link p target = (new_gnu SymbolicLink p)\<lparr>out_mode := 511, out_link := Some target\<rparr>"

fun append_outs :: "tar_writer \<Rightarrow> tar_out list \<Rightarrow> tar_out list \<Rightarrow> oci_error + tar_out list" where
  "append_outs T [] out = Inr out"
| "append_outs T (t # ts) out =
    (case append_error T t of Some e \<Rightarrow> Inl (OciIo e) | None \<Rightarrow> append_outs T ts (out @ [t]))"

section \<open>The walk of the layout export\<close>

definition layout_entry :: "ext \<Rightarrow> string \<Rightarrow> directory_entry \<Rightarrow> mmap_store \<Rightarrow> tar_out list \<times> mmap_store" where
  "layout_entry E p e s =
    (if de_is_dir e then
       ([(new_gnu Directory p)\<lparr>out_mode := de_mode e, out_mtime := de_mtime e, out_uid := ucast (de_uid e),
                               out_gid := ucast (de_gid e)\<rparr>], s)
     else if de_is_symlink e then
       (case de_symlink_target e of Some target \<Rightarrow> ([append_link p target], s) | None \<Rightarrow> ([], s))
     else
       (let (data, s1) =
              (case map_of (blob_files s) (de_digest e) of
                 Some b \<Rightarrow> (b, s)
               | None \<Rightarrow> (case get_archived E s (de_digest e) of
                            (Inr node, s1) \<Rightarrow> (inline_data node, s1)
                          | (Inl _, s1) \<Rightarrow> ([], s1)))
        in ([(new_gnu RegularFile p)\<lparr>out_mode := de_mode e, out_size := de_size e, out_mtime := de_mtime e,
               out_uid := ucast (de_uid e), out_gid := ucast (de_gid e), out_data := data\<rparr>], s1)))"

fun layout_entries ::
    "ext \<Rightarrow> tar_writer \<Rightarrow> string \<Rightarrow> directory_entry list \<Rightarrow> tar_out list \<Rightarrow> mmap_store \<Rightarrow>
     (oci_error + tar_out list) \<times> mmap_store" where
  "layout_entries E T base_path [] out s = (Inr out, s)"
| "layout_entries E T base_path (e # es) out s =
    (case layout_entry E (entry_path base_path e) e s of
       (ts, s1) \<Rightarrow>
         (case append_outs T ts out of
            Inl err \<Rightarrow> (Inl err, s1)
          | Inr out1 \<Rightarrow> layout_entries E T base_path es out1 s1))"

type_synonym collector = "tar_out list \<Rightarrow> mmap_store \<Rightarrow> ((oci_error + tar_out list) \<times> mmap_store) option"

fun each_child :: "(digest \<Rightarrow> collector) \<Rightarrow> digest list \<Rightarrow> collector" where
  "each_child f [] out s = Some (Inr out, s)"
| "each_child f (d # ds) out s =
    (case f d out s of
       None \<Rightarrow> None
     | Some (Inl e, s1) \<Rightarrow> Some (Inl e, s1)
     | Some (Inr out1, s1) \<Rightarrow> each_child f ds out1 s1)"

primrec layout_walk :: "nat \<Rightarrow> ext \<Rightarrow> conv_env \<Rightarrow> tar_writer \<Rightarrow> string \<Rightarrow> digest \<Rightarrow> collector" where
  "layout_walk 0 E C T base_path d out s = None"
| "layout_walk (Suc n) E C T base_path d out s =
    (case get_archived E s d of
       (Inl _, s1) \<Rightarrow> Some (Inl (Other ''read node''), s1)
     | (Inr node, s1) \<Rightarrow>
         if is_layer node
         then each_child (layout_walk n E C T (from_utf8_lossy (inline_data node))) (edges node) out s1
         else if \<not> is_tree node then Some (Inr out, s1)
         else
           (case (if inline_data node = [] then (Inr out, s1)
                  else layout_entries E T base_path (from_inline_bytes E C (inline_data node)) out s1) of
              (Inl err, s2) \<Rightarrow> Some (Inl err, s2)
            | (Inr out2, s2) \<Rightarrow>
                each_child (\<lambda>c out s. case get s c of (Inl _, s') \<Rightarrow> Some (Inr out, s')
                                     | (Inr _, s') \<Rightarrow> layout_walk n E C T base_path c out s')
                  (edges node) out2 s2))"

section \<open>The walk of the push\<close>

definition push_entry ::
    "ext \<Rightarrow> string \<Rightarrow> directory_entry \<Rightarrow> mmap_store \<Rightarrow> (oci_error + tar_out list) \<times> mmap_store" where
  "push_entry E p e s =
    (if de_is_dir e then (Inr [(new_gnu Directory p)\<lparr>out_mode := de_mode e\<rparr>], s)
     else if de_is_symlink e then
       (case de_symlink_target e of
          Some target \<Rightarrow> (Inr [(new_gnu SymbolicLink p)\<lparr>out_mode := 511\<rparr>, append_link p target], s)
        | None \<Rightarrow> (Inr [], s))
     else
       (case get s (de_digest e) of
          (Inl _, s1) \<Rightarrow> (Inl (Other ''read blob''), s1)
        | (Inr mmap, s1) \<Rightarrow>
            (case rkyv_check E mmap of
               Inl _ \<Rightarrow> (Inl (Other ''corrupt blob node''), s1)
             | Inr node \<Rightarrow>
                 (Inr [(new_gnu RegularFile p)\<lparr>out_size := word_of_nat (length (inline_data node)),
                         out_mode := (if de_mode e = 0 then 420 else de_mode e), out_data := inline_data node\<rparr>], s1))))"

fun push_entries ::
    "ext \<Rightarrow> tar_writer \<Rightarrow> string \<Rightarrow> directory_entry list \<Rightarrow> tar_out list \<Rightarrow> mmap_store \<Rightarrow>
     (oci_error + tar_out list) \<times> mmap_store" where
  "push_entries E T base_path [] out s = (Inr out, s)"
| "push_entries E T base_path (e # es) out s =
    (case push_entry E (entry_path base_path e) e s of
       (Inl err, s1) \<Rightarrow> (Inl err, s1)
     | (Inr ts, s1) \<Rightarrow>
         (case append_outs T ts out of
            Inl err \<Rightarrow> (Inl err, s1)
          | Inr out1 \<Rightarrow> push_entries E T base_path es out1 s1))"

primrec push_walk :: "nat \<Rightarrow> ext \<Rightarrow> conv_env \<Rightarrow> tar_writer \<Rightarrow> string \<Rightarrow> digest \<Rightarrow> collector" where
  "push_walk 0 E C T base_path d out s = None"
| "push_walk (Suc n) E C T base_path d out s =
    (case get_archived E s d of
       (Inl _, s1) \<Rightarrow> Some (Inl (Other ''read node''), s1)
     | (Inr node, s1) \<Rightarrow>
         if is_layer node
         then each_child (push_walk n E C T (from_utf8_lossy (inline_data node))) (edges node) out s1
         else if \<not> is_tree node then Some (Inr out, s1)
         else
           (case (if inline_data node = [] then (Inr out, s1)
                  else push_entries E T base_path (from_inline_bytes E C (inline_data node)) out s1) of
              (Inl err, s2) \<Rightarrow> Some (Inl err, s2)
            | (Inr out2, s2) \<Rightarrow>
                each_child (\<lambda>c out s.
                    if exists_node s c
                    then (case get_archived E s c of
                            (Inl _, s') \<Rightarrow> Some (Inr out, s')
                          | (Inr child, s') \<Rightarrow>
                              if is_tree child then push_walk n E C T base_path c out s' else Some (Inr out, s'))
                    else Some (Inr out, s))
                  (edges node) out2 s2))"

section \<open>Images as OCI layouts\<close>

definition sha_hex :: "ext \<Rightarrow> bytes \<Rightarrow> string" where
  "sha_hex E data = hex_encode E (sha256 E data)"

definition image_config_of :: "manifest_data \<Rightarrow> oci_image_config" where
  "image_config_of md =
    \<lparr>created = None, author = None, cfg_architecture = md_architecture md, cfg_os = md_os md, cfg_os_version = None,
     cfg_os_features = None, cfg_variant = md_variant md,
     runtime_config = Some
       \<lparr>user = md_user md, exposed_ports = map_option (map (\<lambda>p. (p, JObject []))) (md_exposed_ports md),
        env = Some (md_env md), entrypoint = Some (md_entrypoint md), cmd = Some (md_cmd md),
        volumes = map_option (map (\<lambda>v. (v, JObject []))) (md_volumes md), working_dir = md_working_dir md,
        labels = None, stop_signal = md_stop_signal md, args_escaped = False\<rparr>,
     rootfs = \<lparr>fs_type = ''layers'', diff_ids = []\<rparr>, history = None\<rparr>"

definition oci_manifest_of :: "oci_descriptor \<Rightarrow> oci_descriptor list \<Rightarrow> manifest_data \<Rightarrow> oci_manifest" where
  "oci_manifest_of cfg ls md =
    \<lparr>schema_version = 2, manifest_media_type = IMAGE_MANIFEST, manifest_artifact_type = None, config = cfg, layers = ls,
     subject = md_subject md, manifest_annotations = md_annotations md\<rparr>"

definition blob_descriptor :: "ext \<Rightarrow> string \<Rightarrow> bytes \<Rightarrow> oci_descriptor" where
  "blob_descriptor E mt data = plain_descriptor mt (''sha256:'' @ sha_hex E data) (word_of_nat (length data))"

definition layout_reconstruct ::
    "nat \<Rightarrow> ext \<Rightarrow> conv_env \<Rightarrow> export_env \<Rightarrow> digest \<Rightarrow> mmap_store \<Rightarrow> ((oci_error + bytes) \<times> mmap_store) option" where
  "layout_reconstruct n E C X d s =
    (case layout_walk n E C (writer X) [] d [] s of
       None \<Rightarrow> None
     | Some (Inl e, s1) \<Rightarrow> Some (Inl e, s1)
     | Some (Inr outs, s1) \<Rightarrow>
         Some (case gzip_encode X (archive_bytes (writer X) outs) of
                 Inl _ \<Rightarrow> (Inl (Other ''gzip finish''), s1)
               | Inr b \<Rightarrow> (Inr b, s1)))"

text \<open>Writing a blob of the layout; the file is named by the digest of its content.\<close>

definition write_blob :: "ext \<Rightarrow> path \<Rightarrow> bytes \<Rightarrow> host_fs \<Rightarrow> (string + unit) \<times> host_fs" where
  "write_blob E blobs_dir data fs = write_file (blobs_dir @ [sha_hex E data]) data fs"

fun layout_layers ::
    "bool \<Rightarrow> nat \<Rightarrow> ext \<Rightarrow> conv_env \<Rightarrow> export_env \<Rightarrow> path \<Rightarrow> digest list \<Rightarrow> mmap_store \<Rightarrow> host_fs \<Rightarrow>
     ((oci_error + oci_descriptor list) \<times> mmap_store \<times> host_fs) option" where
  "layout_layers wr n E C X blobs_dir [] s fs = Some (Inr [], s, fs)"
| "layout_layers wr n E C X blobs_dir (d # ds) s fs =
    (case layout_reconstruct n E C X d s of
       None \<Rightarrow> None
     | Some (Inl e, s1) \<Rightarrow> Some (Inl e, s1, fs)
     | Some (Inr data, s1) \<Rightarrow>
         (case (if wr then write_blob E blobs_dir data fs else (Inr (), fs)) of
            (Inl e, fs1) \<Rightarrow> Some (Inl (OciIo e), s1, fs1)
          | (Inr _, fs1) \<Rightarrow>
              (case layout_layers wr n E C X blobs_dir ds s1 fs1 of
                 None \<Rightarrow> None
               | Some (Inl e, s2, fs2) \<Rightarrow> Some (Inl e, s2, fs2)
               | Some (Inr ls, s2, fs2) \<Rightarrow> Some (Inr (blob_descriptor E LAYER_TAR_GZIP data # ls), s2, fs2))))"

definition index_of :: "oci_descriptor list \<Rightarrow> oci_image_index" where
  "index_of ms =
    \<lparr>index_schema_version = 2, index_media_type = IMAGE_INDEX, index_artifact_type = None, index_manifests = ms,
     index_subject = None, index_annotations = None\<rparr>"

definition REF_NAME :: string where "REF_NAME = ''org.opencontainers.image.ref.name''"

definition tag_descriptors :: "ext \<Rightarrow> bytes \<Rightarrow> string list \<Rightarrow> oci_descriptor list" where
  "tag_descriptors E manifest_json tags =
    (let d = blob_descriptor E IMAGE_MANIFEST manifest_json
     in if tags = [] then [d] else map (\<lambda>t. d\<lparr>desc_annotations := Some [(REF_NAME, t)]\<rparr>) tags)"

definition export_single_manifest ::
    "nat \<Rightarrow> ext \<Rightarrow> conv_env \<Rightarrow> export_env \<Rightarrow> digest \<Rightarrow> path \<Rightarrow> path \<Rightarrow> string list \<Rightarrow> mmap_store \<Rightarrow> host_fs \<Rightarrow>
     ((oci_error + path) \<times> mmap_store \<times> host_fs) option" where
  "export_single_manifest n E C X d blobs_dir output_dir tags s fs =
    (case get_archived E s d of
       (Inl _, s1) \<Rightarrow> Some (Inl (Other ''read manifest node''), s1, fs)
     | (Inr node, s1) \<Rightarrow>
         (case manifest_from_slice C (inline_data node) of
            Inl _ \<Rightarrow> Some (Inl (InvalidManifest ''manifest data parse''), s1, fs)
          | Inr md \<Rightarrow>
              (let config_json = config_to_vec X (image_config_of md)
               in case write_blob E blobs_dir config_json fs of
                    (Inl e, fs1) \<Rightarrow> Some (Inl (OciIo e), s1, fs1)
                  | (Inr _, fs1) \<Rightarrow>
                      (case layout_layers True n E C X blobs_dir (edges node) s1 fs1 of
                         None \<Rightarrow> None
                       | Some (Inl e, s2, fs2) \<Rightarrow> Some (Inl e, s2, fs2)
                       | Some (Inr ls, s2, fs2) \<Rightarrow>
                           (let manifest_json =
                                  oci_manifest_to_vec X (oci_manifest_of (blob_descriptor E IMAGE_CONFIG config_json) ls md)
                            in case write_blob E blobs_dir manifest_json fs2 of
                                 (Inl e, fs3) \<Rightarrow> Some (Inl (OciIo e), s2, fs3)
                               | (Inr _, fs3) \<Rightarrow>
                                   (case write_file (output_dir @ [''index.json''])
                                           (index_to_vec X (index_of (tag_descriptors E manifest_json tags))) fs3 of
                                      (Inl e, fs4) \<Rightarrow> Some (Inl (OciIo e), s2, fs4)
                                    | (Inr _, fs4) \<Rightarrow> Some (Inr (output_dir @ [''index.json'']), s2, fs4)))))))"

text \<open>One child of a manifest list: it is exported, and its manifest is then built once more.\<close>

definition export_child ::
    "nat \<Rightarrow> ext \<Rightarrow> conv_env \<Rightarrow> export_env \<Rightarrow> digest \<Rightarrow> path \<Rightarrow> path \<Rightarrow> mmap_store \<Rightarrow> host_fs \<Rightarrow>
     ((oci_error + oci_descriptor) \<times> mmap_store \<times> host_fs) option" where
  "export_child n E C X d blobs_dir output_dir s fs =
    (case export_single_manifest n E C X d blobs_dir output_dir [] s fs of
       None \<Rightarrow> None
     | Some (Inl e, s1, fs1) \<Rightarrow> Some (Inl e, s1, fs1)
     | Some (Inr _, s1, fs1) \<Rightarrow>
         (case get_archived E s1 d of
            (Inl _, s2) \<Rightarrow> Some (Inl (Other ''read child''), s2, fs1)
          | (Inr node, s2) \<Rightarrow>
              (case manifest_from_slice C (inline_data node) of
                 Inl _ \<Rightarrow> Some (Inl (InvalidManifest ''child data''), s2, fs1)
               | Inr md \<Rightarrow>
                   (case layout_layers False n E C X blobs_dir (edges node) s2 fs1 of
                      None \<Rightarrow> None
                    | Some (Inl e, s3, fs2) \<Rightarrow> Some (Inl e, s3, fs2)
                    | Some (Inr ls, s3, fs2) \<Rightarrow>
                        (let manifest_json = oci_manifest_to_vec X
                               (oci_manifest_of (blob_descriptor E IMAGE_CONFIG (config_to_vec X (image_config_of md))) ls md)
                         in case write_blob E blobs_dir manifest_json fs2 of
                              (Inl e, fs3) \<Rightarrow> Some (Inl (OciIo e), s3, fs3)
                            | (Inr _, fs3) \<Rightarrow> Some (Inr (blob_descriptor E IMAGE_MANIFEST manifest_json), s3, fs3))))))"

fun export_children ::
    "nat \<Rightarrow> ext \<Rightarrow> conv_env \<Rightarrow> export_env \<Rightarrow> path \<Rightarrow> path \<Rightarrow> digest list \<Rightarrow> mmap_store \<Rightarrow> host_fs \<Rightarrow>
     ((oci_error + oci_descriptor list) \<times> mmap_store \<times> host_fs) option" where
  "export_children n E C X blobs_dir output_dir [] s fs = Some (Inr [], s, fs)"
| "export_children n E C X blobs_dir output_dir (d # ds) s fs =
    (case export_child n E C X d blobs_dir output_dir s fs of
       None \<Rightarrow> None
     | Some (Inl e, s1, fs1) \<Rightarrow> Some (Inl e, s1, fs1)
     | Some (Inr m, s1, fs1) \<Rightarrow>
         (case export_children n E C X blobs_dir output_dir ds s1 fs1 of
            None \<Rightarrow> None
          | Some (Inl e, s2, fs2) \<Rightarrow> Some (Inl e, s2, fs2)
          | Some (Inr ms, s2, fs2) \<Rightarrow> Some (Inr (m # ms), s2, fs2)))"

definition export_manifest_list ::
    "nat \<Rightarrow> ext \<Rightarrow> conv_env \<Rightarrow> export_env \<Rightarrow> digest \<Rightarrow> path \<Rightarrow> path \<Rightarrow> mmap_store \<Rightarrow> host_fs \<Rightarrow>
     ((oci_error + path) \<times> mmap_store \<times> host_fs) option" where
  "export_manifest_list n E C X d blobs_dir output_dir s fs =
    (case get_archived E s d of
       (Inl _, s1) \<Rightarrow> Some (Inl (Other ''read list node''), s1, fs)
     | (Inr node, s1) \<Rightarrow>
         (case export_children n E C X blobs_dir output_dir (edges node) s1 fs of
            None \<Rightarrow> None
          | Some (Inl e, s2, fs2) \<Rightarrow> Some (Inl e, s2, fs2)
          | Some (Inr ms, s2, fs2) \<Rightarrow>
              Some (case write_file (output_dir @ [''index.json'']) (index_to_vec X (index_of ms)) fs2 of
                      (Inl e, fs3) \<Rightarrow> (Inl (OciIo e), s2, fs3)
                    | (Inr _, fs3) \<Rightarrow> (Inr (output_dir @ [''index.json'']), s2, fs3))))"

definition LAYOUT_TEXT :: string where
  "LAYOUT_TEXT = CHR ''{'' # CHR 0x22 # ''imageLayoutVersion'' @ [CHR 0x22] @ '': '' @ [CHR 0x22] @ ''1.0.0'' @ [CHR 0x22] @ ''}'' @ [CHR 0x0A]"

definition export_to_oci_layout ::
    "nat \<Rightarrow> ext \<Rightarrow> conv_env \<Rightarrow> export_env \<Rightarrow> digest \<Rightarrow> path \<Rightarrow> string list \<Rightarrow> mmap_store \<Rightarrow> host_fs \<Rightarrow>
     ((oci_error + path) \<times> mmap_store \<times> host_fs) option" where
  "export_to_oci_layout n E C X d output_dir tags s fs =
    (let blobs_dir = output_dir @ [''blobs'', ''sha256'']
     in case create_dir_all blobs_dir fs of
          (Inl e, fs1) \<Rightarrow> Some (Inl (OciIo e), s, fs1)
        | (Inr _, fs1) \<Rightarrow>
            (case write_file (output_dir @ [''oci-layout'']) (as_bytes LAYOUT_TEXT) fs1 of
               (Inl e, fs2) \<Rightarrow> Some (Inl (OciIo e), s, fs2)
             | (Inr _, fs2) \<Rightarrow>
                 (case get_archived E s d of
                    (Inl _, s1) \<Rightarrow> Some (Inl (Other ''read root node''), s1, fs2)
                  | (Inr node, s1) \<Rightarrow>
                      if is_manifest_list node then export_manifest_list n E C X d blobs_dir output_dir s1 fs2
                      else if is_manifest node then export_single_manifest n E C X d blobs_dir output_dir tags s1 fs2
                      else Some (Inl (Other ''root digest is neither a manifest nor manifest list''), s1, fs2))))"

section \<open>What the walks give for a converted layer\<close>

text \<open>The entries below a directory in the order of the walk.\<close>

primrec listing :: "nat \<Rightarrow> tar_entry list \<Rightarrow> path \<Rightarrow> tar_entry list" where
  "listing 0 tes cs = []"
| "listing (Suc n) tes cs =
    kids tes cs @ concat (map (\<lambda>te. if dir_entry te then listing n tes (names_of te) else []) (kids tes cs))"

lemma set_listing: "set (listing n tes cs) = reached n tes cs"
  by (induction n arbitrary: cs) auto

lemma listing_below:
  "list_all plain_entry tes \<Longrightarrow> te \<in> set (listing n tes cs) \<Longrightarrow> \<exists>c r. names_of te = cs @ c # r"
proof (induction n arbitrary: cs)
  case (Suc n)
  from Suc.prems(2) consider "te \<in> set (kids tes cs)"
    | k where "k \<in> set (kids tes cs)" "te \<in> set (listing n tes (names_of k))"
    by (auto split: if_splits)
  then show ?case
  proof cases
    case 1
    then show ?thesis using kids_length [OF Suc.prems(1)] by blast
  next
    case 2
    obtain c where "names_of k = cs @ [c]" using kids_length [OF Suc.prems(1) 2(1)] by blast
    then show ?thesis using Suc.IH [OF Suc.prems(1) 2(2)] by auto
  qed
qed simp

lemma disjointI: "(\<And>z. z \<in> A \<Longrightarrow> z \<in> B \<Longrightarrow> False) \<Longrightarrow> A \<inter> B = {}"
  by blast

lemma distinct_concat_map:
  "distinct xs \<Longrightarrow> (\<And>x. x \<in> set xs \<Longrightarrow> distinct (f x)) \<Longrightarrow>
    (\<And>x y. x \<in> set xs \<Longrightarrow> y \<in> set xs \<Longrightarrow> x \<noteq> y \<Longrightarrow> set (f x) \<inter> set (f y) = {}) \<Longrightarrow> distinct (concat (map f xs))"
proof (induction xs)
  case (Cons x xs)
  then have "set (f x) \<inter> set (f y) = {}" if "y \<in> set xs" for y using that by auto
  then show ?case using Cons by auto
qed simp

lemma plain_distinct: "plain_layer tes \<Longrightarrow> distinct tes"
  by (simp add: plain_layer_def distinct_map)

lemma distinct_listing: "plain_layer tes \<Longrightarrow> distinct (listing n tes cs)"
proof (induction n arbitrary: cs)
  case (Suc n)
  have plain: "list_all plain_entry tes" using Suc.prems by (simp add: plain_layer_def)
  let ?L = "\<lambda>te. if dir_entry te then listing n tes (names_of te) else []"
  have below: "take (Suc (length cs)) (names_of x) = names_of te" "length (names_of x) > Suc (length cs)"
    if te: "te \<in> set (kids tes cs)" and x: "x \<in> set (?L te)" for te x
  proof -
    obtain c where c: "names_of te = cs @ [c]" using kids_length [OF plain te] by blast
    obtain c' r where "names_of x = names_of te @ c' # r"
      using listing_below [OF plain, of x n "names_of te"] x by (auto split: if_splits)
    then show "take (Suc (length cs)) (names_of x) = names_of te" "length (names_of x) > Suc (length cs)" by (simp_all add: c)
  qed
  have "distinct (concat (map ?L (kids tes cs)))"
  proof (rule distinct_concat_map)
    show "distinct (kids tes cs)" using plain_distinct [OF Suc.prems] by (simp add: kids_def)
    show "distinct (?L te)" for te using Suc by simp
    fix x y assume xy: "x \<in> set (kids tes cs)" "y \<in> set (kids tes cs)" "x \<noteq> y"
    have "inj_on names_of (set tes)" using Suc.prems by (simp add: plain_layer_def distinct_map)
    moreover have "x \<in> set tes" "y \<in> set tes" using xy(1,2) by (simp_all add: kids_def)
    ultimately have ne: "names_of x \<noteq> names_of y" using xy(3) by (simp add: inj_on_eq_iff)
    show "set (?L x) \<inter> set (?L y) = {}"
    proof (rule disjointI)
      fix z assume "z \<in> set (?L x)" "z \<in> set (?L y)"
      then show False using below(1) [OF xy(1)] below(1) [OF xy(2)] ne by metis
    qed
  qed
  moreover have "set (kids tes cs) \<inter> set (concat (map ?L (kids tes cs))) = {}"
  proof (rule disjointI)
    fix z assume z: "z \<in> set (kids tes cs)" "z \<in> set (concat (map ?L (kids tes cs)))"
    then obtain te where "te \<in> set (kids tes cs)" "z \<in> set (?L te)" by auto
    then show False using below(2) [of te z] kids_length [OF plain z(1)] by simp
  qed
  moreover have "distinct (kids tes cs)" using plain_distinct [OF Suc.prems] by (simp add: kids_def)
  ultimately show ?case by simp
qed simp

text \<open>The archive entry each walk writes for an entry of the original archive.\<close>

definition layout_form :: "tar_entry \<Rightarrow> tar_out" where
  "layout_form te =
    (let h = the_header te; p = join ''/'' (names_of te);
         attrs = (\<lambda>t. (new_gnu t p)\<lparr>out_mode := th_mode h, out_mtime := th_mtime h,
            out_uid := ucast (ucast (th_uid h) :: u32), out_gid := ucast (ucast (th_gid h) :: u32)\<rparr>)
     in if dir_entry te then attrs Directory
        else (attrs RegularFile)\<lparr>out_size := th_size h, out_data := the_data te\<rparr>)"

definition push_form :: "tar_entry \<Rightarrow> tar_out" where
  "push_form te =
    (let h = the_header te; p = join ''/'' (names_of te)
     in if dir_entry te then (new_gnu Directory p)\<lparr>out_mode := th_mode h\<rparr>
        else (new_gnu RegularFile p)\<lparr>out_size := word_of_nat (length (the_data te)),
               out_mode := (if th_mode h = 0 then 420 else th_mode h), out_data := the_data te\<rparr>)"

lemma plain_relative: "plain_entry te \<Longrightarrow> relative_path (join ''/'' (names_of te))"
proof -
  assume "plain_entry te"
  then have n: "list_all name_ok (names_of te)" "names_of te \<noteq> []" by (simp_all add: plain_entry_def)
  have "split_on (CHR ''/'') (join ''/'' (names_of te)) = names_of te"
    using n by (intro split_on_join_pieces) (auto simp: name_ok_def list_all_iff)
  moreover have "''..'' \<notin> set (names_of te)" using n(1) name_not_dots by (auto simp: list_all_iff)
  moreover have "join ''/'' (names_of te) \<noteq> []" using last_join_slash [OF n] by simp
  moreover from this have "hd (join ''/'' (names_of te)) \<noteq> CHR ''/''"
    using join_relative [OF n(1)] by (cases "join ''/'' (names_of te)") (auto simp: starts_with_def)
  ultimately show ?thesis by (simp add: relative_path_def)
qed

lemma appends: "tar_ok C T \<Longrightarrow> relative_path (out_path t) \<Longrightarrow> append_outs T [t] out = Inr (out @ [t])"
  by (simp add: tar_ok_def)

lemma stored_attrs [simp]:
  "de_mode (stored_entry E te) = th_mode (the_header te)" "de_size (stored_entry E te) = th_size (the_header te)"
  "de_mtime (stored_entry E te) = th_mtime (the_header te)" "de_uid (stored_entry E te) = ucast (th_uid (the_header te))"
  "de_gid (stored_entry E te) = ucast (th_gid (the_header te))"
  by (simp_all add: stored_entry_def entry_of_raw_def raw_of_def)

definition collects :: "mmap_store \<Rightarrow> tar_out list \<Rightarrow> tar_out list \<Rightarrow> ((oci_error + tar_out list) \<times> mmap_store) option \<Rightarrow> bool" where
  "collects s out ts r \<longleftrightarrow> (\<exists>s'. r = Some (Inr (out @ ts), s') \<and> only_cache s s' \<and> store_inv s')"

lemma each_child_collects:
  assumes "\<And>k s' out'. k \<in> set ks \<Longrightarrow> only_cache s s' \<Longrightarrow> store_inv s' \<Longrightarrow> collects s' out' (L k) (f (dg k) out' s')"
    and "store_inv s"
  shows "collects s out (concat (map L ks)) (each_child f (map dg ks) out s)"
proof -
  have "collects s1 out (concat (map L ks')) (each_child f (map dg ks') out s1)"
    if "set ks' \<subseteq> set ks" "only_cache s s1" "store_inv s1" for ks' s1 out
    using that
  proof (induction ks' arbitrary: s1 out)
    case (Cons k ks')
    obtain s2 where s2: "f (dg k) out s1 = Some (Inr (out @ L k), s2)" "only_cache s1 s2" "store_inv s2"
      using assms(1) [of k s1 out] Cons.prems by (auto simp: collects_def)
    obtain s3 where "each_child f (map dg ks') (out @ L k) s2 = Some (Inr ((out @ L k) @ concat (map L ks')), s3)"
      "only_cache s2 s3" "store_inv s3"
      using Cons.IH [of s2 "out @ L k"] Cons.prems s2(3) only_cache_trans [OF Cons.prems(2) s2(2)] by (auto simp: collects_def)
    then show ?case using s2 only_cache_trans [OF s2(2)] by (simp add: collects_def)
  qed (simp add: collects_def)
  then show ?thesis using assms(2) by simp
qed

lemma collects_step: "only_cache s s1 \<Longrightarrow> collects s1 out ts r \<Longrightarrow> collects s out ts r"
  unfolding collects_def by (blast intro: only_cache_trans)

lemma layout_entry_plain:
  assumes E: "ext_ok E" and te: "te \<in> set (kids tes cs)" and pl: "list_all plain_entry tes"
    and s: "store_ok E ns s" "\<not> dir_entry te \<longrightarrow> holds E s (file_node te) \<and> file_node te \<in> set ns"
  shows "\<exists>s'. layout_entry E (entry_path (join ''/'' cs) (stored_entry E te)) (stored_entry E te) s = ([layout_form te], s') \<and>
    only_cache s s' \<and> store_inv s'"
proof -
  have p: "entry_path (join ''/'' cs) (stored_entry E te) = join ''/'' (names_of te)"
    unfolding entry_path_def by (rule child_string [OF pl te])
  show ?thesis
  proof (cases "dir_entry te")
    case True
    then show ?thesis using s(1) by (simp add: p layout_entry_def layout_form_def Let_def new_gnu_def store_ok_def)
  next
    case False
    then have h: "holds E s (file_node te)" "file_node te \<in> set ns" using s(2) by auto
    show ?thesis
    proof (cases "map_of (blob_files s) (node_digest E (file_node te))")
      case None
      obtain s1 where "get_archived E s (node_digest E (file_node te)) = (Inr (file_node te), s1)" "store_inv s1" "only_cache s s1"
        using get_archived_holds [OF E _ _ h(1)] s(1) by (auto simp: file_node_def store_ok_def)
      then show ?thesis using False None
        by (simp add: p layout_entry_def layout_form_def Let_def new_gnu_def file_node_def blob_node_def)
    next
      case (Some b)
      then have "b = the_data te" using s(1) h(2) by (auto simp: store_ok_def room_for_def list_all_iff file_node_def blob_node_def)
      then show ?thesis using False Some s(1) by (simp add: p layout_entry_def layout_form_def Let_def new_gnu_def store_ok_def)
    qed
  qed
qed

lemma push_entry_plain:
  assumes E: "ext_ok E" and te: "te \<in> set (kids tes cs)" and pl: "list_all plain_entry tes"
    and s: "store_inv s" "\<not> dir_entry te \<longrightarrow> holds E s (file_node te)"
  shows "\<exists>s'. push_entry E (entry_path (join ''/'' cs) (stored_entry E te)) (stored_entry E te) s = (Inr [push_form te], s') \<and>
    only_cache s s' \<and> store_inv s'"
proof -
  have p: "entry_path (join ''/'' cs) (stored_entry E te) = join ''/'' (names_of te)"
    unfolding entry_path_def by (rule child_string [OF pl te])
  show ?thesis
  proof (cases "dir_entry te")
    case True
    then show ?thesis using s(1) by (simp add: p push_entry_def push_form_def Let_def new_gnu_def)
  next
    case False
    then have h: "holds E s (file_node te)" using s(2) by simp
    have w: "wf_node (file_node te)" by (simp add: file_node_def)
    have "fst (get s (node_digest E (file_node te))) = Inr (node_bytes E (file_node te))"
      using node_read.rd_file [OF s(1)] h by (simp add: holds_def)
    moreover have "store_inv (snd (get s (node_digest E (file_node te))))" "only_cache s (snd (get s (node_digest E (file_node te))))"
      using s(1) by (simp_all add: get_inv get_only_cache)
    ultimately obtain s1 where "get s (node_digest E (file_node te)) = (Inr (node_bytes E (file_node te)), s1)" "store_inv s1" "only_cache s s1"
      by (metis prod.collapse)
    then show ?thesis using False node_bytes_ok [OF E w]
      by (simp add: p push_entry_def push_form_def Let_def new_gnu_def file_node_def blob_node_def)
  qed
qed

lemma form_paths: "out_path (layout_form te) = join ''/'' (names_of te)" "out_path (push_form te) = join ''/'' (names_of te)"
  by (simp_all add: layout_form_def push_form_def Let_def new_gnu_def)

lemma layout_entries_plain:
  assumes E: "ext_ok E" and pl: "list_all plain_entry tes" and T: "tar_ok C T"
    and files: "\<forall>te \<in> set tes. \<not> dir_entry te \<longrightarrow> file_node te \<in> set ns"
  shows "set ks \<subseteq> set (kids tes cs) \<Longrightarrow> store_ok E ns s \<Longrightarrow> \<forall>te \<in> set ks. \<not> dir_entry te \<longrightarrow> holds E s (file_node te) \<Longrightarrow>
    \<exists>s'. layout_entries E T (join ''/'' cs) (map (stored_entry E) ks) out s = (Inr (out @ map layout_form ks), s') \<and>
      only_cache s s' \<and> store_inv s'"
proof (induction ks arbitrary: out s)
  case (Cons te ks)
  then have te: "te \<in> set (kids tes cs)" "te \<in> set tes" using kids_length [OF pl] by auto
  obtain s1 where s1: "layout_entry E (entry_path (join ''/'' cs) (stored_entry E te)) (stored_entry E te) s = ([layout_form te], s1)"
    "only_cache s s1" "store_inv s1"
    using layout_entry_plain [OF E te(1) pl Cons.prems(2)] Cons.prems(3) files te(2) by auto
  have "append_outs T [layout_form te] out = Inr (out @ [layout_form te])"
    using pl te(2) by (intro appends [OF T]) (simp add: form_paths plain_relative list_all_iff)
  then have step: "layout_entries E T (join ''/'' cs) (map (stored_entry E) (te # ks)) out s =
      layout_entries E T (join ''/'' cs) (map (stored_entry E) ks) (out @ [layout_form te]) s1"
    using s1(1) by (simp del: append_outs.simps)
  have "\<forall>te \<in> set ks. \<not> dir_entry te \<longrightarrow> holds E s1 (file_node te)" using Cons.prems(3) only_cache_holds [OF s1(2)] by simp
  then obtain s' where "layout_entries E T (join ''/'' cs) (map (stored_entry E) ks) (out @ [layout_form te]) s1 =
      (Inr ((out @ [layout_form te]) @ map layout_form ks), s')" "only_cache s1 s'" "store_inv s'"
    using Cons.IH [OF _ only_cache_store_ok [OF s1(2,3) Cons.prems(2)], of "out @ [layout_form te]"] Cons.prems(1) by auto
  then show ?case using step only_cache_trans [OF s1(2)] by auto
qed (simp add: store_ok_def)

lemma push_entries_plain:
  assumes E: "ext_ok E" and pl: "list_all plain_entry tes" and T: "tar_ok C T"
  shows "set ks \<subseteq> set (kids tes cs) \<Longrightarrow> store_inv s \<Longrightarrow> \<forall>te \<in> set ks. \<not> dir_entry te \<longrightarrow> holds E s (file_node te) \<Longrightarrow>
    \<exists>s'. push_entries E T (join ''/'' cs) (map (stored_entry E) ks) out s = (Inr (out @ map push_form ks), s') \<and>
      only_cache s s' \<and> store_inv s'"
proof (induction ks arbitrary: out s)
  case (Cons te ks)
  then have te: "te \<in> set (kids tes cs)" "te \<in> set tes" using kids_length [OF pl] by auto
  obtain s1 where s1: "push_entry E (entry_path (join ''/'' cs) (stored_entry E te)) (stored_entry E te) s = (Inr [push_form te], s1)"
    "only_cache s s1" "store_inv s1"
    using push_entry_plain [OF E te(1) pl Cons.prems(2)] Cons.prems(3) by auto
  have "append_outs T [push_form te] out = Inr (out @ [push_form te])"
    using pl te(2) by (intro appends [OF T]) (simp add: form_paths plain_relative list_all_iff)
  then have step: "push_entries E T (join ''/'' cs) (map (stored_entry E) (te # ks)) out s =
      push_entries E T (join ''/'' cs) (map (stored_entry E) ks) (out @ [push_form te]) s1"
    using s1(1) by (simp del: append_outs.simps)
  have "\<forall>te \<in> set ks. \<not> dir_entry te \<longrightarrow> holds E s1 (file_node te)" using Cons.prems(3) only_cache_holds [OF s1(2)] by simp
  then obtain s' where "push_entries E T (join ''/'' cs) (map (stored_entry E) ks) (out @ [push_form te]) s1 =
      (Inr ((out @ [push_form te]) @ map push_form ks), s')" "only_cache s1 s'" "store_inv s'"
    using Cons.IH [OF _ s1(3), of "out @ [push_form te]"] Cons.prems(1) by auto
  then show ?case using step only_cache_trans [OF s1(2)] by auto
qed simp

lemma tree_of_dir_parts:
  "is_tree (tree_of_dir E C tes cs)" "\<not> is_layer (tree_of_dir E C tes cs)"
  "edges (tree_of_dir E C tes cs) =
    map (\<lambda>te. node_digest E (if dir_entry te then layer_of_dir E C tes (names_of te) else file_node te)) (kids tes cs)"
  "inline_data (tree_of_dir E C tes cs) = concat (map (to_inline_bytes E C) (map (stored_entry E) (kids tes cs)))"
  by (simp_all add: tree_of_dir_def dir_tree_def tree_node_def is_tree_def is_layer_def)

lemma tree_entries_read:
  assumes E: "ext_ok E" and js: "json_ok C (map (\<lambda>te. entry_to_json E (stored_entry E te)) tes)" and F: "F [] = A"
  shows "(if inline_data (tree_of_dir E C tes cs) = [] then A else F (from_inline_bytes E C (inline_data (tree_of_dir E C tes cs)))) =
    F (map (stored_entry E) (kids tes cs))"
proof (cases "kids tes cs = []")
  case True
  then show ?thesis by (simp add: tree_of_dir_parts F)
next
  case False
  then have "inline_data (tree_of_dir E C tes cs) \<noteq> []" unfolding tree_of_dir_parts by (intro inline_nonempty) simp
  moreover have "from_inline_bytes E C (inline_data (tree_of_dir E C tes cs)) = map (stored_entry E) (kids tes cs)"
    unfolding tree_of_dir_parts by (rule tree_inline_entries [OF E _ js]) (simp add: list_all_iff kids_def)
  ultimately show ?thesis by simp
qed

lemma layout_layer_edge:
  assumes E: "ext_ok E" and pl: "plain_layer tes" and cs: "list_all name_ok cs"
    and s: "store_inv s" "holds E s (layer_of_dir E C tes cs)"
    and tree: "\<And>s'. store_inv s' \<Longrightarrow> only_cache s s' \<Longrightarrow>
      collects s' out ts (layout_walk m E C T (join ''/'' cs) (node_digest E (tree_of_dir E C tes cs)) out s')"
  shows "collects s out ts (layout_walk (Suc m) E C T base (node_digest E (layer_of_dir E C tes cs)) out s)"
proof -
  have plain: "list_all plain_entry tes" using pl by (simp add: plain_layer_def)
  obtain s1 where g: "get_archived E s (node_digest E (layer_of_dir E C tes cs)) = (Inr (layer_of_dir E C tes cs), s1)"
    "store_inv s1" "only_cache s s1"
    using get_archived_holds [OF E wf_layer_nodes(2) [OF E plain] s] .
  obtain s2 where r: "layout_walk m E C T (join ''/'' cs) (node_digest E (tree_of_dir E C tes cs)) out s1 = Some (Inr (out @ ts), s2)"
    "only_cache s1 s2" "store_inv s2"
    using tree [OF g(2,3)] by (auto simp: collects_def)
  have "layout_walk (Suc m) E C T base (node_digest E (layer_of_dir E C tes cs)) out s = Some (Inr (out @ ts), s2)"
    using g(1) r(1) layer_text [OF cs] by (simp add: layer_of_dir_eq [OF plain] layer_node_def is_layer_def)
  then show ?thesis using r only_cache_trans [OF g(3) r(2)] by (simp add: collects_def)
qed

lemma layout_file_edge:
  assumes "ext_ok E" "store_inv s" "holds E s (file_node te)"
  shows "collects s out [] (layout_walk (Suc m) E C T base (node_digest E (file_node te)) out s)"
proof -
  obtain s' where "get_archived E s (node_digest E (file_node te)) = (Inr (file_node te), s')" "store_inv s'" "only_cache s s'"
    using get_archived_holds [OF assms(1) _ assms(2,3)] by (auto simp: file_node_def)
  then show ?thesis by (simp add: collects_def file_node_def blob_node_def is_layer_def is_tree_def)
qed

lemma layout_walk_plain:
  assumes E: "ext_ok E" and pl: "plain_layer tes" and files: "\<forall>te \<in> set tes. \<not> dir_entry te \<longrightarrow> file_node te \<in> set ns"
    and js: "json_ok C (map (\<lambda>te. entry_to_json E (stored_entry E te)) tes)" and T: "tar_ok C T"
  shows "holds_dir n E C tes s cs \<Longrightarrow> store_ok E ns s \<Longrightarrow> cs \<in> set (dir_paths tes) \<Longrightarrow> 2 * n \<le> m \<Longrightarrow>
    collects s out (map layout_form (listing n tes cs))
      (layout_walk m E C T (join ''/'' cs) (node_digest E (tree_of_dir E C tes cs)) out s)"
proof (induction n arbitrary: s cs m out)
  case (Suc n)
  have plain: "list_all plain_entry tes" using pl by (simp add: plain_layer_def)
  obtain k where m: "m = Suc (Suc k)" "2 * n \<le> k" using Suc.prems(4) by (cases m; cases "m - 1") auto
  have inv: "store_inv s" using Suc.prems(2) by (simp add: store_ok_def)
  let ?K = "kids tes cs" and ?t = "tree_of_dir E C tes cs"
  let ?dg = "\<lambda>te. node_digest E (if dir_entry te then layer_of_dir E C tes (names_of te) else file_node te)"
  let ?f = "\<lambda>c out s. case get s c of (Inl _, s') \<Rightarrow> Some (Inr out, s')
      | (Inr _, s') \<Rightarrow> layout_walk (Suc k) E C T (join ''/'' cs) c out s'"
  let ?L = "\<lambda>te. map layout_form (if dir_entry te then listing n tes (names_of te) else [])"
  have ht: "holds E s ?t" using Suc.prems(1) by simp
  obtain s1 where g: "get_archived E s (node_digest E ?t) = (Inr ?t, s1)" "store_inv s1" "only_cache s s1"
    using get_archived_holds [OF E wf_layer_nodes(1) [OF E plain] inv ht] .
  have hk: "\<forall>te \<in> set ?K. \<not> dir_entry te \<longrightarrow> holds E s1 (file_node te)"
    using Suc.prems(1) only_cache_holds [OF g(3)] by auto
  obtain s2 where e: "layout_entries E T (join ''/'' cs) (map (stored_entry E) ?K) out s1 = (Inr (out @ map layout_form ?K), s2)"
    "only_cache s1 s2" "store_inv s2"
    using layout_entries_plain [OF E plain T files subset_refl only_cache_store_ok [OF g(3,2) Suc.prems(2)] hk] by blast
  have oc: "only_cache s s2" using only_cache_trans [OF g(3) e(2)] .
  have rd: "(if inline_data ?t = [] then (Inr out, s1) else layout_entries E T (join ''/'' cs) (from_inline_bytes E C (inline_data ?t)) out s1) =
      layout_entries E T (join ''/'' cs) (map (stored_entry E) ?K) out s1"
    by (rule tree_entries_read [OF E js]) simp
  have "collects s2 (out @ map layout_form ?K) (concat (map ?L ?K)) (each_child ?f (map ?dg ?K) (out @ map layout_form ?K) s2)"
  proof (rule each_child_collects [OF _ e(3)])
    fix te s' out' assume te: "te \<in> set ?K" and s': "only_cache s2 s'" "store_inv s'"
    have oc': "only_cache s s'" using only_cache_trans [OF oc s'(1)] .
    have mem: "te \<in> set tes" using kids_length [OF plain te] by simp
    let ?n = "if dir_entry te then layer_of_dir E C tes (names_of te) else file_node te"
    have hn: "holds E s' ?n"
    proof (cases "dir_entry te")
      case True
      then have "holds_dir n E C tes s' (names_of te)" using Suc.prems(1) te only_cache_holds_dir [OF oc'] by auto
      then show ?thesis using True by (cases n) auto
    qed (use Suc.prems(1) te only_cache_holds [OF oc'] in auto)
    have wn: "wf_node ?n" using wf_layer_nodes(2) [OF E plain] by (simp add: file_node_def)
    obtain b s3 where g3: "get s' (node_digest E ?n) = (Inr b, s3)" "store_inv s3" "only_cache s' s3"
      using get_holds [OF E wn s'(2) hn] .
    have "collects s3 out' (?L te) (layout_walk (Suc k) E C T (join ''/'' cs) (node_digest E ?n) out' s3)"
    proof (cases "dir_entry te")
      case False
      have "holds E s3 (file_node te)" using hn False only_cache_holds [OF g3(3)] by simp
      then show ?thesis using False layout_file_edge [OF E g3(2)] by simp
    next
      case True
      have dp: "names_of te \<in> set (dir_paths tes)" using mem True by (auto simp: dir_paths_def)
      have oc3: "only_cache s s3" using only_cache_trans [OF oc' g3(3)] .
      have "collects s3 out' (map layout_form (listing n tes (names_of te)))
          (layout_walk (Suc k) E C T (join ''/'' cs) (node_digest E (layer_of_dir E C tes (names_of te))) out' s3)"
      proof (rule layout_layer_edge [OF E pl dir_paths_ok [OF pl dp] g3(2)])
        show "holds E s3 (layer_of_dir E C tes (names_of te))" using hn True only_cache_holds [OF g3(3)] by simp
        fix s4 assume s4: "store_inv s4" "only_cache s3 s4"
        have oc4: "only_cache s s4" using only_cache_trans [OF oc3 s4(2)] .
        have "holds_dir n E C tes s4 (names_of te)"
          using Suc.prems(1) te True only_cache_holds_dir [OF oc4] by auto
        then show "collects s4 out' (map layout_form (listing n tes (names_of te)))
            (layout_walk k E C T (join ''/'' (names_of te)) (node_digest E (tree_of_dir E C tes (names_of te))) out' s4)"
          by (intro Suc.IH [OF _ only_cache_store_ok [OF oc4 s4(1) Suc.prems(2)] dp m(2)])
      qed
      then show ?thesis using True by simp
    qed
    then show "collects s' out' (?L te) (?f (?dg te) out' s')" using g3 by (simp add: collects_step [OF g3(3)])
  qed
  then obtain s5 where "each_child ?f (map ?dg ?K) (out @ map layout_form ?K) s2 =
      Some (Inr ((out @ map layout_form ?K) @ concat (map ?L ?K)), s5)" "only_cache s2 s5" "store_inv s5"
    by (auto simp: collects_def)
  moreover have "layout_walk m E C T (join ''/'' cs) (node_digest E ?t) out s = each_child ?f (map ?dg ?K) (out @ map layout_form ?K) s2"
    by (simp only: m(1) layout_walk.simps(2) [of "Suc k"] g(1) prod.case sum.case tree_of_dir_parts(1-3) if_False not_True_eq_False rd e(1))
  moreover have "map layout_form (listing (Suc n) tes cs) = map layout_form ?K @ concat (map ?L ?K)"
    by (simp add: map_concat comp_def)
  ultimately show ?case using only_cache_trans [OF oc] by (simp add: collects_def del: listing.simps)
qed simp

lemma push_walk_plain:
  assumes E: "ext_ok E" and pl: "plain_layer tes" and js: "json_ok C (map (\<lambda>te. entry_to_json E (stored_entry E te)) tes)"
    and T: "tar_ok C T" and s: "holds_dir (Suc n) E C tes s cs" "store_inv s"
  shows "collects s out (map push_form (kids tes cs))
    (push_walk (Suc m) E C T (join ''/'' cs) (node_digest E (tree_of_dir E C tes cs)) out s)"
proof -
  have plain: "list_all plain_entry tes" using pl by (simp add: plain_layer_def)
  let ?K = "kids tes cs" and ?t = "tree_of_dir E C tes cs"
  let ?dg = "\<lambda>te. node_digest E (if dir_entry te then layer_of_dir E C tes (names_of te) else file_node te)"
  let ?f = "\<lambda>c out s. if exists_node s c
      then (case get_archived E s c of (Inl _, s') \<Rightarrow> Some (Inr out, s')
            | (Inr child, s') \<Rightarrow> if is_tree child then push_walk m E C T (join ''/'' cs) c out s' else Some (Inr out, s'))
      else Some (Inr out, s)"
  have ht: "holds E s ?t" using s(1) by simp
  obtain s1 where g: "get_archived E s (node_digest E ?t) = (Inr ?t, s1)" "store_inv s1" "only_cache s s1"
    using get_archived_holds [OF E wf_layer_nodes(1) [OF E plain] s(2) ht] .
  have hk: "\<forall>te \<in> set ?K. \<not> dir_entry te \<longrightarrow> holds E s1 (file_node te)"
    using s(1) only_cache_holds [OF g(3)] by auto
  obtain s2 where e: "push_entries E T (join ''/'' cs) (map (stored_entry E) ?K) out s1 = (Inr (out @ map push_form ?K), s2)"
    "only_cache s1 s2" "store_inv s2"
    using push_entries_plain [OF E plain T subset_refl g(2) hk] by blast
  have oc: "only_cache s s2" using only_cache_trans [OF g(3) e(2)] .
  have rd: "(if inline_data ?t = [] then (Inr out, s1) else push_entries E T (join ''/'' cs) (from_inline_bytes E C (inline_data ?t)) out s1) =
      push_entries E T (join ''/'' cs) (map (stored_entry E) ?K) out s1"
    by (rule tree_entries_read [OF E js]) simp
  have "collects s2 (out @ map push_form ?K) (concat (map (\<lambda>te. []) ?K)) (each_child ?f (map ?dg ?K) (out @ map push_form ?K) s2)"
  proof (rule each_child_collects [OF _ e(3)])
    fix te s' out' assume te: "te \<in> set ?K" and s': "only_cache s2 s'" "store_inv s'"
    have oc': "only_cache s s'" using only_cache_trans [OF oc s'(1)] .
    let ?n = "if dir_entry te then layer_of_dir E C tes (names_of te) else file_node te"
    have hn: "holds E s' ?n"
    proof (cases "dir_entry te")
      case True
      then have "holds_dir n E C tes s' (names_of te)" using s(1) te only_cache_holds_dir [OF oc'] by auto
      then show ?thesis using True by (cases n) auto
    qed (use s(1) te only_cache_holds [OF oc'] in auto)
    have wn: "wf_node ?n" using wf_layer_nodes(2) [OF E plain] by (simp add: file_node_def)
    have nt: "\<not> is_tree ?n" by (simp add: layer_of_dir_eq [OF plain] layer_node_def file_node_def blob_node_def is_tree_def)
    obtain s3 where g3: "get_archived E s' (node_digest E ?n) = (Inr ?n, s3)" "store_inv s3" "only_cache s' s3"
      using get_archived_holds [OF E wn s'(2) hn] .
    then show "collects s' out' [] (?f (?dg te) out' s')" using nt s'(2) by (simp add: collects_def)
  qed
  then obtain s5 where "each_child ?f (map ?dg ?K) (out @ map push_form ?K) s2 = Some (Inr (out @ map push_form ?K), s5)"
      "only_cache s2 s5" "store_inv s5"
    by (auto simp: collects_def)
  moreover have "push_walk (Suc m) E C T (join ''/'' cs) (node_digest E ?t) out s = each_child ?f (map ?dg ?K) (out @ map push_form ?K) s2"
    by (simp only: push_walk.simps g(1) prod.case sum.case tree_of_dir_parts(1-3) if_False not_True_eq_False rd e(1))
  ultimately show ?thesis using only_cache_trans [OF oc] by (simp add: collects_def)
qed


definition sample_outs :: "tar_out list" where
  "sample_outs =
    [(new_gnu Directory ''etc/'')\<lparr>out_mode := 493, out_size := 2\<rparr>,
     (new_gnu RegularFile ''etc/motd'')\<lparr>out_mode := 493, out_size := 2, out_data := [72, 105]\<rparr>,
     (new_gnu RegularFile ''init'')\<lparr>out_mode := 493, out_size := 2, out_data := [35, 33]\<rparr>]"

lemma sample_outs_back: "tar_entries ref_conv (archive_bytes ref_writer sample_outs) = Inr (map Inr sample_tar)"
proof -
  have t: "sample_tar = map entry_of_out sample_outs" by code_simp
  have "map (\<lambda>t. Inr (entry_of_out t)) sample_outs = map Inr sample_tar" unfolding t by simp
  then show ?thesis by (simp add: ref_conv_def ref_writer_def dec_enc_outs enc_out_length)
qed

definition layer_conv :: conv_env where
  "layer_conv = sample_layer_env\<lparr>tar_entries := tar_entries ref_conv\<rparr>"

lemma layer_nodes_cong:
  assumes "json_to_vec C = json_to_vec C'"
  shows "layer_nodes E C tes = layer_nodes E C' tes"
proof -
  have d: "dir_tree L E C tes cs = dir_tree L E C' tes cs" for L cs using assms by (simp add: dir_tree_def to_inline_bytes_def [abs_def])
  have "dir_layer n E C tes cs = dir_layer n E C' tes cs" for n cs
  proof (induction n arbitrary: cs)
    case (Suc n)
    then have "dir_layer n E C tes = dir_layer n E C' tes" by (simp add: fun_eq_iff)
    then show ?case by (simp add: d)
  qed simp
  then have "layer_of_dir E C tes = layer_of_dir E C' tes" by (simp add: fun_eq_iff layer_of_dir_def)
  then show ?thesis by (simp add: layer_nodes_def tree_of_dir_def [abs_def] d)
qed

end
