(* ===== verification/Registry_Push.thy ===== *)
theory Registry_Push
  imports Layer_Export Oci_Puller Sample_Store
begin

text \<open>
  Pushing images, \<^verbatim>\<open>DagPusher\<close> of \<^verbatim>\<open>pullrun-oci/src/push.rs\<close>.  The
  registry is a parameter: its answer to a request may depend on everything that
  was sent before, which is the log the operations pass on.
\<close>

section \<open>Requests\<close>

datatype http_method = GET | POST | PUT

record push_request =
  pr_method :: http_method
  pr_url :: string
  pr_auth :: "string option"
  pr_content_type :: "string option"
  pr_body :: bytes

record push_response =
  ps_status :: nat
  ps_location :: "string option"
  ps_body :: bytes

type_synonym push_log = "(push_request \<times> (string + push_response)) list"
type_synonym registry = "push_log \<Rightarrow> push_request \<Rightarrow> string + push_response"

definition send :: "registry \<Rightarrow> push_request \<Rightarrow> push_log \<Rightarrow> (oci_error + push_response) \<times> push_log" where
  "send R req log =
    (let r = R log req
     in ((case r of Inl e \<Rightarrow> Inl (Http e) | Inr resp \<Rightarrow> Inr resp), log @ [(req, r)]))"

record dag_pusher =
  pusher_auth :: "oci_auth option"
  pusher_insecure :: "string list"
  pusher_compression :: compression_format

definition pusher_new :: "oci_auth option \<Rightarrow> string list \<Rightarrow> dag_pusher" where
  "pusher_new auth insecure = \<lparr>pusher_auth = auth, pusher_insecure = insecure, pusher_compression = Gzip\<rparr>"

definition with_compression :: "dag_pusher \<Rightarrow> compression_format \<Rightarrow> dag_pusher" where
  "with_compression p c = p\<lparr>pusher_compression := c\<rparr>"

definition push_scheme :: "dag_pusher \<Rightarrow> string \<Rightarrow> string" where
  "push_scheme p registry = (if registry \<in> set (pusher_insecure p) then ''http:'' else ''https:'')"

definition push_registry_for :: "string \<Rightarrow> string \<times> string \<times> string" where
  "push_registry_for target_ref =
    (let parts = split_on (CHR ''/'') target_ref;
         (registry, rest) =
           (if length parts > 1 \<and> names_registry (hd parts) then (hd parts, join ''/'' (tl parts))
            else (''registry-1.docker.io'', target_ref));
         (repository, tag) = (case split_once (CHR '':'') rest of None \<Rightarrow> (rest, ''latest'') | Some (a, b) \<Rightarrow> (a, b))
     in (registry, repository, tag))"

definition push_basic_auth :: "oci_env \<Rightarrow> dag_pusher \<Rightarrow> string option" where
  "push_basic_auth N p =
    (case pusher_auth p of
       None \<Rightarrow> None
     | Some a \<Rightarrow>
         (case (username a, password a) of
            (Some u, Some pw) \<Rightarrow> Some (''Basic '' @ base64_encode N (u @ '':'' @ pw))
          | _ \<Rightarrow> None))"

definition push_get_token ::
    "oci_env \<Rightarrow> registry \<Rightarrow> dag_pusher \<Rightarrow> string \<Rightarrow> string \<Rightarrow> string \<Rightarrow> push_log \<Rightarrow> (oci_error + string option) \<times> push_log" where
  "push_get_token N R p registry repository scope log =
    (let u = (if is_docker_hub registry
              then ''https://auth.docker.io/token?service=registry.docker.io&scope=repository:'' @ repository @ '':'' @ scope
              else push_scheme p registry @ ''//'' @ registry @ ''/token?scope=repository:'' @ repository @ '':'' @ scope)
     in case send R \<lparr>pr_method = GET, pr_url = u, pr_auth = push_basic_auth N p, pr_content_type = None, pr_body = []\<rparr> log of
          (Inl e, log1) \<Rightarrow> (Inl e, log1)
        | (Inr resp, log1) \<Rightarrow>
            if is_success (ps_status resp)
            then (case parse_token N (ps_body resp) of
                    Inl e \<Rightarrow> (Inl (Http e), log1)
                  | Inr (t, a) \<Rightarrow> (Inr (case t of Some x \<Rightarrow> Some x | None \<Rightarrow> a), log1))
            else (Inr None, log1))"

definition authorized_get :: "string \<Rightarrow> string option \<Rightarrow> push_request" where
  "authorized_get u token =
    \<lparr>pr_method = GET, pr_url = u, pr_auth = bearer token, pr_content_type = None, pr_body = []\<rparr>"

definition authorized_put :: "string \<Rightarrow> string option \<Rightarrow> string \<Rightarrow> bytes \<Rightarrow> push_request" where
  "authorized_put u token ct data =
    \<lparr>pr_method = PUT, pr_url = u, pr_auth = bearer token, pr_content_type = Some ct, pr_body = data\<rparr>"

section \<open>Blobs\<close>

definition repo_url :: "dag_pusher \<Rightarrow> string \<Rightarrow> string \<Rightarrow> string" where
  "repo_url p registry repository = push_scheme p registry @ ''//'' @ registry @ ''/v2/'' @ repository"

definition upload_blob ::
    "registry \<Rightarrow> dag_pusher \<Rightarrow> string \<Rightarrow> string \<Rightarrow> string \<Rightarrow> bytes \<Rightarrow> string option \<Rightarrow> push_log \<Rightarrow> (oci_error + unit) \<times> push_log" where
  "upload_blob R p registry repository digest data token log =
    (case send R (authorized_get (repo_url p registry repository @ ''/blobs/'' @ digest) token) log of
       (Inl e, log1) \<Rightarrow> (Inl e, log1)
     | (Inr check, log1) \<Rightarrow>
         if is_success (ps_status check) then (Inr (), log1)
         else
           (case send R \<lparr>pr_method = POST, pr_url = repo_url p registry repository @ ''/blobs/uploads/'', pr_auth = bearer token,
                         pr_content_type = None, pr_body = []\<rparr> log1 of
              (Inl e, log2) \<Rightarrow> (Inl e, log2)
            | (Inr session, log2) \<Rightarrow>
                (case ps_location session of
                   None \<Rightarrow> (Inl (Other ''no Location header in upload session''), log2)
                 | Some location \<Rightarrow>
                     (let upload_url = (if starts_with location ''http'' then location
                                        else push_scheme p registry @ ''//'' @ registry @ location);
                          sep = (if CHR ''?'' \<in> set upload_url then ''&'' else ''?'')
                      in case send R (authorized_put (upload_url @ sep @ ''digest='' @ digest) token ''application/octet-stream'' data) log2 of
                           (Inl e, log3) \<Rightarrow> (Inl e, log3)
                         | (Inr resp, log3) \<Rightarrow>
                             if is_success (ps_status resp) then (Inr (), log3)
                             else (Inl (Other ''blob upload failed''), log3)))))"

definition push_reconstruct ::
    "nat \<Rightarrow> ext \<Rightarrow> conv_env \<Rightarrow> export_env \<Rightarrow> compression_format \<Rightarrow> digest \<Rightarrow> mmap_store \<Rightarrow>
     ((oci_error + bytes) \<times> mmap_store) option" where
  "push_reconstruct n E C X c d s =
    (case push_walk n E C (writer X) [] d [] s of
       None \<Rightarrow> None
     | Some (Inl e, s1) \<Rightarrow> Some (Inl e, s1)
     | Some (Inr outs, s1) \<Rightarrow>
         Some (case (case c of Gzip \<Rightarrow> gzip_encode X (archive_bytes (writer X) outs)
                             | Zstd \<Rightarrow> zstd_encode X (archive_bytes (writer X) outs)) of
                 Inl e \<Rightarrow> (Inl (Other e), s1)
               | Inr b \<Rightarrow> (Inr b, s1)))"

section \<open>Manifests\<close>

fun push_layers ::
    "nat \<Rightarrow> ext \<Rightarrow> conv_env \<Rightarrow> export_env \<Rightarrow> registry \<Rightarrow> dag_pusher \<Rightarrow> string \<Rightarrow> string \<Rightarrow> string option \<Rightarrow> digest list \<Rightarrow> u64 \<Rightarrow>
     mmap_store \<Rightarrow> push_log \<Rightarrow> ((oci_error + oci_descriptor list \<times> u64) \<times> mmap_store \<times> push_log) option" where
  "push_layers n E C X R p registry repository token [] tot s log = Some (Inr ([], tot), s, log)"
| "push_layers n E C X R p registry repository token (d # ds) tot s log =
    (case push_reconstruct n E C X (pusher_compression p) d s of
       None \<Rightarrow> None
     | Some (Inl e, s1) \<Rightarrow> Some (Inl e, s1, log)
     | Some (Inr data, s1) \<Rightarrow>
         (case upload_blob R p registry repository (''sha256:'' @ sha_hex E data) data token log of
            (Inl e, log1) \<Rightarrow> Some (Inl e, s1, log1)
          | (Inr _, log1) \<Rightarrow>
              (case push_layers n E C X R p registry repository token ds (tot + word_of_nat (length data)) s1 log1 of
                 None \<Rightarrow> None
               | Some (Inl e, s2, log2) \<Rightarrow> Some (Inl e, s2, log2)
               | Some (Inr (ls, t), s2, log2) \<Rightarrow>
                   Some (Inr (blob_descriptor E (compression_media_type (pusher_compression p)) data # ls, t), s2, log2))))"

definition push_oci_manifest ::
    "nat \<Rightarrow> ext \<Rightarrow> conv_env \<Rightarrow> export_env \<Rightarrow> registry \<Rightarrow> dag_pusher \<Rightarrow> digest \<Rightarrow> string \<Rightarrow> string \<Rightarrow> string option \<Rightarrow>
     mmap_store \<Rightarrow> push_log \<Rightarrow> ((oci_error + oci_manifest \<times> u64) \<times> mmap_store \<times> push_log) option" where
  "push_oci_manifest n E C X R p d registry repository token s log =
    (case get_archived E s d of
       (Inl _, s1) \<Rightarrow> Some (Inl (Other ''read manifest node''), s1, log)
     | (Inr node, s1) \<Rightarrow>
         if \<not> is_manifest node then Some (Inl (InvalidManifest ''not a manifest node''), s1, log)
         else
           (case manifest_from_slice C (inline_data node) of
              Inl e \<Rightarrow> Some (Inl (Json e), s1, log)
            | Inr md \<Rightarrow>
                (case push_layers n E C X R p registry repository token (edges node) 0 s1 log of
                   None \<Rightarrow> None
                 | Some (Inl e, s2, log2) \<Rightarrow> Some (Inl e, s2, log2)
                 | Some (Inr (ls, tot), s2, log2) \<Rightarrow>
                     if edges node = [] then Some (Inr (oci_manifest_of empty_json_descriptor ls md, tot), s2, log2)
                     else
                       (let config_json = config_to_vec X (image_config_of md)
                        in case upload_blob R p registry repository (''sha256:'' @ sha_hex E config_json) config_json token log2 of
                             (Inl e, log3) \<Rightarrow> Some (Inl e, s2, log3)
                           | (Inr _, log3) \<Rightarrow>
                               Some (Inr (oci_manifest_of (blob_descriptor E IMAGE_CONFIG config_json) ls md,
                                          tot + word_of_nat (length config_json)), s2, log3)))))"

definition platform_of :: "manifest_data \<Rightarrow> oci_platform" where
  "platform_of md =
    \<lparr>architecture = md_architecture md, os = md_os md, os_version = None, os_features = None, variant = md_variant md\<rparr>"

definition push_child ::
    "nat \<Rightarrow> ext \<Rightarrow> conv_env \<Rightarrow> export_env \<Rightarrow> registry \<Rightarrow> dag_pusher \<Rightarrow> string \<Rightarrow> string \<Rightarrow> string option \<Rightarrow> digest \<Rightarrow>
     mmap_store \<Rightarrow> push_log \<Rightarrow> ((oci_error + oci_descriptor \<times> u64) \<times> mmap_store \<times> push_log) option" where
  "push_child n E C X R p registry repository token d s log =
    (case get_archived E s d of
       (Inl _, s1) \<Rightarrow> Some (Inl (Other ''read child manifest''), s1, log)
     | (Inr node, s1) \<Rightarrow>
         (case manifest_from_slice C (inline_data node) of
            Inl e \<Rightarrow> Some (Inl (Json e), s1, log)
          | Inr md \<Rightarrow>
              (case push_oci_manifest n E C X R p d registry repository token s1 log of
                 None \<Rightarrow> None
               | Some (Inl e, s2, log2) \<Rightarrow> Some (Inl e, s2, log2)
               | Some (Inr (m, bytes), s2, log2) \<Rightarrow>
                   (let manifest_json = oci_manifest_to_vec X m;
                        child_digest = ''sha256:'' @ sha_hex E manifest_json
                    in case send R (authorized_put (repo_url p registry repository @ ''/manifests/'' @ child_digest) token
                                      IMAGE_MANIFEST manifest_json) log2 of
                         (Inl e, log3) \<Rightarrow> Some (Inl e, s2, log3)
                       | (Inr resp, log3) \<Rightarrow>
                           if \<not> is_success (ps_status resp) then Some (Inl (Other ''child manifest upload failed''), s2, log3)
                           else Some (Inr ((blob_descriptor E IMAGE_MANIFEST manifest_json)
                                             \<lparr>desc_annotations := md_annotations md, platform := Some (platform_of md)\<rparr>,
                                           bytes + word_of_nat (length manifest_json)), s2, log3)))))"

fun push_manifests ::
    "nat \<Rightarrow> ext \<Rightarrow> conv_env \<Rightarrow> export_env \<Rightarrow> registry \<Rightarrow> dag_pusher \<Rightarrow> string \<Rightarrow> string \<Rightarrow> string option \<Rightarrow> digest list \<Rightarrow> u64 \<Rightarrow>
     mmap_store \<Rightarrow> push_log \<Rightarrow> ((oci_error + oci_descriptor list \<times> u64) \<times> mmap_store \<times> push_log) option" where
  "push_manifests n E C X R p registry repository token [] tot s log = Some (Inr ([], tot), s, log)"
| "push_manifests n E C X R p registry repository token (d # ds) tot s log =
    (case push_child n E C X R p registry repository token d s log of
       None \<Rightarrow> None
     | Some (Inl e, s1, log1) \<Rightarrow> Some (Inl e, s1, log1)
     | Some (Inr (m, k), s1, log1) \<Rightarrow>
         (case push_manifests n E C X R p registry repository token ds (tot + k) s1 log1 of
            None \<Rightarrow> None
          | Some (Inl e, s2, log2) \<Rightarrow> Some (Inl e, s2, log2)
          | Some (Inr (ms, t), s2, log2) \<Rightarrow> Some (Inr (m # ms, t), s2, log2)))"

definition push_manifest_list ::
    "nat \<Rightarrow> ext \<Rightarrow> conv_env \<Rightarrow> export_env \<Rightarrow> oci_env \<Rightarrow> registry \<Rightarrow> dag_pusher \<Rightarrow> digest \<Rightarrow> string \<Rightarrow>
     mmap_store \<Rightarrow> push_log \<Rightarrow> ((oci_error + string \<times> u64) \<times> mmap_store \<times> push_log) option" where
  "push_manifest_list n E C X N R p list_digest target_ref s log =
    (case push_registry_for target_ref of (registry, repository, tag) \<Rightarrow>
       (case get_archived E s list_digest of
          (Inl _, s1) \<Rightarrow> Some (Inl (Other ''read manifest list node''), s1, log)
        | (Inr node, s1) \<Rightarrow>
            if \<not> is_manifest_list node then Some (Inl (InvalidManifest ''not a manifest list node''), s1, log)
            else
              (case push_get_token N R p registry repository ''push,pull'' log of
                 (Inl e, log1) \<Rightarrow> Some (Inl e, s1, log1)
               | (Inr token, log1) \<Rightarrow>
                   (case push_manifests n E C X R p registry repository token (edges node) 0 s1 log1 of
                      None \<Rightarrow> None
                    | Some (Inl e, s2, log2) \<Rightarrow> Some (Inl e, s2, log2)
                    | Some (Inr (ms, tot), s2, log2) \<Rightarrow>
                        (let old = (if inline_data node = [] then None else index_from_slice X (inline_data node));
                             index = (index_of ms)
                               \<lparr>index_artifact_type := (case old of None \<Rightarrow> None | Some i \<Rightarrow> index_artifact_type i),
                                index_subject := (case old of None \<Rightarrow> None | Some i \<Rightarrow> index_subject i),
                                index_annotations := (case old of None \<Rightarrow> None | Some i \<Rightarrow> index_annotations i)\<rparr>;
                             index_json = index_to_vec X index
                         in case send R (authorized_put (repo_url p registry repository @ ''/manifests/'' @ tag) token IMAGE_INDEX index_json) log2 of
                              (Inl e, log3) \<Rightarrow> Some (Inl e, s2, log3)
                            | (Inr resp, log3) \<Rightarrow>
                                if \<not> is_success (ps_status resp) then Some (Inl (Other ''manifest list upload failed''), s2, log3)
                                else Some (Inr (''sha256:'' @ sha_hex E index_json, tot), s2, log3))))))"

definition push_image ::
    "nat \<Rightarrow> ext \<Rightarrow> conv_env \<Rightarrow> export_env \<Rightarrow> oci_env \<Rightarrow> registry \<Rightarrow> dag_pusher \<Rightarrow> string \<Rightarrow> string \<Rightarrow>
     mmap_store \<Rightarrow> push_log \<Rightarrow> ((oci_error + string \<times> u64) \<times> mmap_store \<times> push_log) option" where
  "push_image n E C X N R p root_digest target_ref s log =
    (case push_registry_for target_ref of (registry, repository, tag) \<Rightarrow>
       (case push_get_token N R p registry repository ''push,pull'' log of
          (Inl e, log1) \<Rightarrow> Some (Inl e, s, log1)
        | (Inr token, log1) \<Rightarrow>
            (case from_hex E root_digest of
               Inl _ \<Rightarrow> Some (Inl (Other ''invalid root digest''), s, log1)
             | Inr rd \<Rightarrow>
                 (case get_archived E s rd of
                    (Inl _, s1) \<Rightarrow> Some (Inl (Other ''read node''), s1, log1)
                  | (Inr node, s1) \<Rightarrow>
                      if is_manifest_list node then push_manifest_list n E C X N R p rd target_ref s1 log1
                      else if \<not> is_manifest node
                      then Some (Inl (InvalidManifest ''neither a manifest nor a manifest list''), s1, log1)
                      else
                        (case push_oci_manifest n E C X R p rd registry repository token s1 log1 of
                           None \<Rightarrow> None
                         | Some (Inl e, s2, log2) \<Rightarrow> Some (Inl e, s2, log2)
                         | Some (Inr (m, tot), s2, log2) \<Rightarrow>
                             (let manifest_json = oci_manifest_to_vec X m
                              in case send R (authorized_put (repo_url p registry repository @ ''/manifests/'' @ tag) token
                                                IMAGE_MANIFEST manifest_json) log2 of
                                   (Inl e, log3) \<Rightarrow> Some (Inl e, s2, log3)
                                 | (Inr resp, log3) \<Rightarrow>
                                     if \<not> is_success (ps_status resp) then Some (Inl (Other ''manifest upload failed''), s2, log3)
                                     else Some (Inr (''sha256:'' @ sha_hex E manifest_json, tot), s2, log3)))))))"

section \<open>What a successful push has sent\<close>

definition accepted :: "push_request \<times> (string + push_response) \<Rightarrow> bool" where
  "accepted x = (case snd x of Inl _ \<Rightarrow> False | Inr r \<Rightarrow> is_success (ps_status r))"

text \<open>The registry has confirmed that it has the blob, or accepted it with matching content.\<close>

definition has_blob :: "ext \<Rightarrow> string \<Rightarrow> push_log \<Rightarrow> string \<Rightarrow> bool" where
  "has_blob E base L d \<longleftrightarrow> (\<exists>x \<in> set L. accepted x \<and>
     (pr_method (fst x) = GET \<and> pr_url (fst x) = base @ ''/blobs/'' @ d \<or>
      pr_method (fst x) = PUT \<and> (\<exists>u. pr_url (fst x) = u @ ''digest='' @ d) \<and> d = ''sha256:'' @ sha_hex E (pr_body (fst x))))"

definition complete_manifest :: "ext \<Rightarrow> string \<Rightarrow> push_log \<Rightarrow> oci_manifest \<Rightarrow> bool" where
  "complete_manifest E base L m \<longleftrightarrow>
    list_all (\<lambda>d. has_blob E base L (desc_digest d)) (layers m) \<and>
    (config m = empty_json_descriptor \<or> has_blob E base L (desc_digest (config m)))"

definition has_manifest :: "ext \<Rightarrow> export_env \<Rightarrow> string \<Rightarrow> push_log \<Rightarrow> string \<Rightarrow> bool" where
  "has_manifest E X base L d \<longleftrightarrow> (\<exists>L1 x L2 m. L = L1 @ x # L2 \<and> accepted x \<and> pr_method (fst x) = PUT \<and>
     pr_url (fst x) = base @ ''/manifests/'' @ d \<and> pr_body (fst x) = oci_manifest_to_vec X m \<and>
     d = ''sha256:'' @ sha_hex E (pr_body (fst x)) \<and> complete_manifest E base L1 m)"

definition extends :: "push_log \<Rightarrow> push_log \<Rightarrow> bool" where
  "extends L L' \<longleftrightarrow> (\<exists>x. L' = L @ x)"

lemma extends_refl [simp]: "extends L L"
  by (simp add: extends_def)

lemma extends_trans: "extends a b \<Longrightarrow> extends b c \<Longrightarrow> extends a c"
  by (auto simp: extends_def)

lemma has_blob_extends: "extends L L' \<Longrightarrow> has_blob E base L d \<Longrightarrow> has_blob E base L' d"
  by (auto simp: extends_def has_blob_def)

lemma has_manifest_extends: "extends L L' \<Longrightarrow> has_manifest E X base L d \<Longrightarrow> has_manifest E X base L' d"
  by (fastforce simp: extends_def has_manifest_def)

lemma send_log: "send R req log = (r, log') \<Longrightarrow> log' = log @ [(req, R log req)] \<and> extends log log' \<and>
    (\<forall>resp. r = Inr resp \<longrightarrow> R log req = Inr resp)"
  by (auto simp: send_def extends_def Let_def split: sum.splits)

lemma upload_blob_log:
  assumes "upload_blob R p registry repository d data token log = (r, log')"
  shows "extends log log' \<and> (r = Inr () \<longrightarrow> d = ''sha256:'' @ sha_hex E data \<longrightarrow> has_blob E (repo_url p registry repository) log' d)"
proof -
  define rq1 where "rq1 = authorized_get (repo_url p registry repository @ ''/blobs/'' @ d) token"
  obtain r1 log1 where s1: "send R rq1 log = (r1, log1)" by fastforce
  note l1 = send_log [OF s1]
  show ?thesis
  proof (cases r1)
    case (Inl e)
    then show ?thesis using assms s1 l1 by (auto simp: upload_blob_def rq1_def)
  next
    case (Inr check)
    show ?thesis
    proof (cases "is_success (ps_status check)")
      case True
      then have "accepted (rq1, R log rq1)" using l1 Inr by (auto simp: accepted_def)
      then have "has_blob E (repo_url p registry repository) log1 d"
        using l1 by (auto simp: has_blob_def rq1_def authorized_get_def)
      then show ?thesis using assms s1 l1 Inr True by (auto simp: upload_blob_def rq1_def)
    next
      case False
      define rq2 where "rq2 = \<lparr>pr_method = POST, pr_url = repo_url p registry repository @ ''/blobs/uploads/'', pr_auth = bearer token,
          pr_content_type = None, pr_body = []\<rparr>"
      obtain r2 log2 where s2: "send R rq2 log1 = (r2, log2)" by fastforce
      note l2 = send_log [OF s2]
      have e2: "extends log log2" using extends_trans l1 l2 by blast
      show ?thesis
      proof (cases "r2")
        case (Inl e)
        then show ?thesis using assms s1 s2 Inr False e2 by (auto simp: upload_blob_def rq1_def rq2_def)
      next
        case r2: (Inr session)
        show ?thesis
        proof (cases "ps_location session")
          case None
          then show ?thesis using assms s1 s2 Inr False r2 e2 by (auto simp: upload_blob_def rq1_def rq2_def)
        next
          case (Some location)
          define u where "u = (if starts_with location ''http'' then location else push_scheme p registry @ ''//'' @ registry @ location)"
          define rq3 where "rq3 = authorized_put (u @ (if CHR ''?'' \<in> set u then ''&'' else ''?'') @ ''digest='' @ d) token
              ''application/octet-stream'' data"
          obtain r3 log3 where s3: "send R rq3 log2 = (r3, log3)" by fastforce
          note l3 = send_log [OF s3]
          have e3: "extends log log3" using extends_trans [OF e2] l3 by blast
          have up: "upload_blob R p registry repository d data token log =
              (case r3 of Inl e \<Rightarrow> (Inl e, log3)
               | Inr resp \<Rightarrow> if is_success (ps_status resp) then (Inr (), log3) else (Inl (Other ''blob upload failed''), log3))"
            using s1 s2 s3 Inr False r2 Some by (simp add: upload_blob_def rq1_def rq2_def rq3_def u_def Let_def)
          show ?thesis
          proof (cases "\<exists>resp. r3 = Inr resp \<and> is_success (ps_status resp)")
            case True
            then obtain resp where resp: "r3 = Inr resp" "is_success (ps_status resp)" by blast
            have "pr_method rq3 = PUT" "pr_body rq3 = data" "\<exists>u'. pr_url rq3 = u' @ ''digest='' @ d"
              by (auto simp: rq3_def authorized_put_def)
            moreover have "(rq3, Inr resp) \<in> set log3" "accepted (rq3, Inr resp)" using l3 resp by (auto simp: accepted_def)
            ultimately have "d = ''sha256:'' @ sha_hex E data \<longrightarrow> has_blob E (repo_url p registry repository) log3 d"
              unfolding has_blob_def by (metis fst_conv)
            then show ?thesis using assms up resp e3 by simp
          next
            case False
            then show ?thesis using assms up e3 by (auto split: sum.splits if_splits)
          qed
        qed
      qed
    qed
  qed
qed

lemma push_layers_log:
  "push_layers n E C X R p registry repository token ds tot s log = Some (r, s', log') \<Longrightarrow>
    extends log log' \<and> (\<forall>ls t. r = Inr (ls, t) \<longrightarrow>
      list_all (\<lambda>d. has_blob E (repo_url p registry repository) log' (desc_digest d)) ls)"
proof (induction ds arbitrary: tot s log r s' log')
  case (Cons d ds)
  let ?base = "repo_url p registry repository"
  consider (err) e s1 where "push_reconstruct n E C X (pusher_compression p) d s = Some (Inl e, s1)"
    | (ok) data s1 where "push_reconstruct n E C X (pusher_compression p) d s = Some (Inr data, s1)"
    using Cons.prems by (auto split: option.splits sum.splits prod.splits)
  then show ?case
  proof cases
    case err
    then show ?thesis using Cons.prems by auto
  next
    case ok
    obtain u log1 where u: "upload_blob R p registry repository (''sha256:'' @ sha_hex E data) data token log = (u, log1)" by fastforce
    note ul = upload_blob_log [OF u, of E]
    show ?thesis
    proof (cases u)
      case (Inl e)
      then show ?thesis using Cons.prems ok u ul by auto
    next
      case (Inr x)
      obtain r2 s2 log2 where r: "push_layers n E C X R p registry repository token ds (tot + word_of_nat (length data)) s1 log1 = Some (r2, s2, log2)"
        using Cons.prems ok u Inr by (auto split: option.splits)
      note IH = Cons.IH [OF r]
      have "has_blob E ?base log2 (''sha256:'' @ sha_hex E data)" 
        using has_blob_extends [of log1 log2 E ?base "''sha256:'' @ sha_hex E data"] ul IH Inr by simp
      moreover have "extends log log2" using extends_trans ul IH by blast
      ultimately show ?thesis using Cons.prems ok u Inr r IH
        by (cases r2) (auto simp: blob_descriptor_def plain_descriptor_def)
    qed
  qed
qed simp

lemma push_oci_manifest_log:
  assumes "push_oci_manifest n E C X R p d registry repository token s log = Some (r, s', log')"
  shows "extends log log' \<and> (\<forall>m t. r = Inr (m, t) \<longrightarrow> complete_manifest E (repo_url p registry repository) log' m)"
proof -
  let ?base = "repo_url p registry repository"
  obtain g s1 where g: "get_archived E s d = (g, s1)" by fastforce
  show ?thesis
  proof (cases "\<exists>node md. g = Inr node \<and> is_manifest node \<and> manifest_from_slice C (inline_data node) = Inr md")
    case False
    then show ?thesis using assms g by (auto simp: push_oci_manifest_def split: sum.splits if_splits)
  next
    case True
    then obtain node md where nd: "g = Inr node" "is_manifest node" "manifest_from_slice C (inline_data node) = Inr md" by blast
    obtain r2 s2 log2 where l: "push_layers n E C X R p registry repository token (edges node) 0 s1 log = Some (r2, s2, log2)"
      using assms g nd by (auto simp: push_oci_manifest_def split: option.splits)
    note pl = push_layers_log [OF l]
    show ?thesis
    proof (cases r2)
      case (Inl e)
      then show ?thesis using assms g nd l pl by (auto simp: push_oci_manifest_def)
    next
      case (Inr lt)
      obtain ls t where lt: "lt = (ls, t)" by fastforce
      have hl: "list_all (\<lambda>d. has_blob E ?base log2 (desc_digest d)) ls" using pl Inr lt by simp
      show ?thesis
      proof (cases "edges node = []")
        case True
        then show ?thesis using assms g nd l pl Inr lt hl
          by (auto simp: push_oci_manifest_def complete_manifest_def oci_manifest_of_def)
      next
        case False
        let ?cj = "config_to_vec X (image_config_of md)"
        obtain u log3 where u: "upload_blob R p registry repository (''sha256:'' @ sha_hex E ?cj) ?cj token log2 = (u, log3)" by fastforce
        note ul = upload_blob_log [OF u, of E]
        have e: "extends log log3" "extends log2 log3" using extends_trans pl ul by blast+
        have "list_all (\<lambda>d. has_blob E ?base log3 (desc_digest d)) ls"
          using hl has_blob_extends [OF e(2)] by (simp add: list_all_iff)
        then show ?thesis using assms g nd l Inr lt False u ul e
          by (cases u) (auto simp: push_oci_manifest_def complete_manifest_def oci_manifest_of_def Let_def
              blob_descriptor_def plain_descriptor_def)
      qed
    qed
  qed
qed

lemma push_child_log:
  assumes "push_child n E C X R p registry repository token d s log = Some (r, s', log')"
  shows "extends log log' \<and> (\<forall>m k. r = Inr (m, k) \<longrightarrow> has_manifest E X (repo_url p registry repository) log' (desc_digest m))"
proof -
  let ?base = "repo_url p registry repository"
  obtain g s1 where g: "get_archived E s d = (g, s1)" by fastforce
  show ?thesis
  proof (cases "\<exists>node md. g = Inr node \<and> manifest_from_slice C (inline_data node) = Inr md")
    case False
    then show ?thesis using assms g by (auto simp: push_child_def split: sum.splits)
  next
    case True
    then obtain node md where nd: "g = Inr node" "manifest_from_slice C (inline_data node) = Inr md" by blast
    obtain r2 s2 log2 where l: "push_oci_manifest n E C X R p d registry repository token s1 log = Some (r2, s2, log2)"
      using assms g nd by (auto simp: push_child_def split: option.splits)
    note pl = push_oci_manifest_log [OF l]
    show ?thesis
    proof (cases r2)
      case (Inl e)
      then show ?thesis using assms g nd l pl by (auto simp: push_child_def)
    next
      case (Inr mb)
      obtain m b where mb: "mb = (m, b)" by fastforce
      let ?mj = "oci_manifest_to_vec X m"
      let ?cd = "''sha256:'' @ sha_hex E ?mj"
      define rq where "rq = authorized_put (?base @ ''/manifests/'' @ ?cd) token IMAGE_MANIFEST ?mj"
      obtain r3 log3 where s3: "send R rq log2 = (r3, log3)" by fastforce
      note l3 = send_log [OF s3]
      have e: "extends log log3" using extends_trans pl l3 by blast
      have pc: "push_child n E C X R p registry repository token d s log =
          (case r3 of Inl e \<Rightarrow> Some (Inl e, s2, log3)
           | Inr resp \<Rightarrow> if \<not> is_success (ps_status resp) then Some (Inl (Other ''child manifest upload failed''), s2, log3)
               else Some (Inr ((blob_descriptor E IMAGE_MANIFEST ?mj)\<lparr>desc_annotations := md_annotations md, platform := Some (platform_of md)\<rparr>,
                   b + word_of_nat (length ?mj)), s2, log3))"
        using g nd l Inr mb s3 by (simp add: push_child_def rq_def Let_def)
      show ?thesis
      proof (cases "\<exists>resp. r3 = Inr resp \<and> is_success (ps_status resp)")
        case True
        then obtain resp where resp: "r3 = Inr resp" "is_success (ps_status resp)" by blast
        have "log3 = log2 @ (rq, Inr resp) # []" using l3 resp by auto
        moreover have "accepted (rq, Inr resp)" using resp by (simp add: accepted_def)
        moreover have "complete_manifest E ?base log2 m" using pl Inr mb by simp
        moreover have "pr_method rq = PUT" "pr_url rq = ?base @ ''/manifests/'' @ ?cd" "pr_body rq = ?mj"
          by (simp_all add: rq_def authorized_put_def)
        ultimately have "has_manifest E X ?base log3 ?cd" unfolding has_manifest_def by (metis fst_conv)
        then show ?thesis using assms pc resp e by (auto simp: blob_descriptor_def plain_descriptor_def)
      next
        case False
        then show ?thesis using assms pc e by (auto split: sum.splits if_splits)
      qed
    qed
  qed
qed

lemma push_manifests_log:
  "push_manifests n E C X R p registry repository token ds tot s log = Some (r, s', log') \<Longrightarrow>
    extends log log' \<and> (\<forall>ms t. r = Inr (ms, t) \<longrightarrow>
      list_all (\<lambda>d. has_manifest E X (repo_url p registry repository) log' (desc_digest d)) ms)"
proof (induction ds arbitrary: tot s log r s' log')
  case (Cons d ds)
  obtain r1 s1 log1 where c: "push_child n E C X R p registry repository token d s log = Some (r1, s1, log1)"
    using Cons.prems by (auto split: option.splits)
  note cl = push_child_log [OF c]
  show ?case
  proof (cases r1)
    case (Inl e)
    then show ?thesis using Cons.prems c cl by auto
  next
    case (Inr mk)
    obtain m k where mk: "mk = (m, k)" by fastforce
    obtain r2 s2 log2 where r: "push_manifests n E C X R p registry repository token ds (tot + k) s1 log1 = Some (r2, s2, log2)"
      using Cons.prems c Inr mk by (auto split: option.splits)
    note IH = Cons.IH [OF r]
    have "has_manifest E X (repo_url p registry repository) log2 (desc_digest m)" using has_manifest_extends cl IH Inr mk by blast
    moreover have "extends log log2" using extends_trans cl IH by blast
    ultimately show ?thesis using Cons.prems c Inr mk r IH by (cases r2) auto
  qed
qed simp

text \<open>A request log that ends with the accepted manifest of a complete image.\<close>

definition published :: "ext \<Rightarrow> export_env \<Rightarrow> string \<Rightarrow> string \<Rightarrow> string \<Rightarrow> push_log \<Rightarrow> bool" where
  "published E X base tag d log \<longleftrightarrow> (\<exists>L x. log = L @ [x] \<and> accepted x \<and> pr_method (fst x) = PUT \<and>
     pr_url (fst x) = base @ ''/manifests/'' @ tag \<and> d = ''sha256:'' @ sha_hex E (pr_body (fst x)) \<and>
     ((\<exists>m. pr_body (fst x) = oci_manifest_to_vec X m \<and> complete_manifest E base L m) \<or>
      (\<exists>i. pr_body (fst x) = index_to_vec X i \<and>
           list_all (\<lambda>c. has_manifest E X base L (desc_digest c)) (index_manifests i))))"

lemma publishedI:
  assumes "send R (authorized_put (base @ ''/manifests/'' @ tag) token ct data) L = (Inr resp, L')" "is_success (ps_status resp)"
    and "(\<exists>m. data = oci_manifest_to_vec X m \<and> complete_manifest E base L m) \<or>
      (\<exists>i. data = index_to_vec X i \<and> list_all (\<lambda>c. has_manifest E X base L (desc_digest c)) (index_manifests i))"
  shows "published E X base tag (''sha256:'' @ sha_hex E data) L'"
proof -
  define rq where "rq = authorized_put (base @ ''/manifests/'' @ tag) token ct data"
  have "L' = L @ [(rq, Inr resp)]" using send_log [OF assms(1)] by (simp add: rq_def)
  moreover have "accepted (rq, Inr resp)" using assms(2) by (simp add: accepted_def)
  moreover have "pr_method rq = PUT" "pr_url rq = base @ ''/manifests/'' @ tag" "pr_body rq = data"
    by (simp_all add: rq_def authorized_put_def)
  ultimately show ?thesis using assms(3) unfolding published_def by (metis fst_conv)
qed

lemma push_manifest_list_published:
  assumes "push_manifest_list n E C X N R p ld target_ref s log = Some (Inr (d, t), s', log')"
    and "push_registry_for target_ref = (registry, repository, tag)"
  shows "published E X (repo_url p registry repository) tag d log'"
proof -
  let ?base = "repo_url p registry repository"
  obtain node s1 where g: "get_archived E s ld = (Inr node, s1)" "is_manifest_list node"
    using assms by (auto simp: push_manifest_list_def split: prod.splits sum.splits if_splits)
  obtain token log1 where tk: "push_get_token N R p registry repository ''push,pull'' log = (Inr token, log1)"
    using assms g by (auto simp: push_manifest_list_def split: prod.splits sum.splits)
  obtain ms tot s2 log2 where ms: "push_manifests n E C X R p registry repository token (edges node) 0 s1 log1 = Some (Inr (ms, tot), s2, log2)"
    using assms g tk by (auto simp: push_manifest_list_def split: option.splits prod.splits sum.splits)
  define old where "old = (if inline_data node = [] then None else index_from_slice X (inline_data node))"
  define i where "i = (index_of ms)\<lparr>index_artifact_type := (case old of None \<Rightarrow> None | Some i \<Rightarrow> index_artifact_type i),
      index_subject := (case old of None \<Rightarrow> None | Some i \<Rightarrow> index_subject i),
      index_annotations := (case old of None \<Rightarrow> None | Some i \<Rightarrow> index_annotations i)\<rparr>"
  obtain resp where sd: "send R (authorized_put (?base @ ''/manifests/'' @ tag) token IMAGE_INDEX (index_to_vec X i)) log2 = (Inr resp, log')"
    "is_success (ps_status resp)" "d = ''sha256:'' @ sha_hex E (index_to_vec X i)"
    using assms g tk ms by (auto simp: push_manifest_list_def Let_def i_def old_def split: prod.splits sum.splits if_splits)
  have "index_manifests i = ms" by (simp add: i_def index_of_def)
  then have "list_all (\<lambda>c. has_manifest E X ?base log2 (desc_digest c)) (index_manifests i)" using push_manifests_log [OF ms] by simp
  then show ?thesis using publishedI [OF sd(1,2)] sd(3) by blast
qed

text \<open>
  C17: a push publishes only complete images.  When a push returns, its last request
  is the manifest or index under the requested tag, the registry has accepted it, and
  the returned digest is that of its bytes.  Every layer and the configuration of the
  manifest were confirmed by the registry before, or uploaded with content of their
  digest and accepted; for an index the same holds for each child manifest, which was
  itself accepted under its own digest.  Whatever the registry answers in between, a
  tag never points to an image whose parts were not delivered (the empty configuration
  of a manifest without layers is the exception: it is referred to and never sent).
\<close>

theorem push_publishes_complete:
  assumes "push_image n E C X N R p root_digest target_ref s log = Some (Inr (d, t), s', log')"
    and "push_registry_for target_ref = (registry, repository, tag)"
  shows "published E X (repo_url p registry repository) tag d log'"
proof -
  let ?base = "repo_url p registry repository"
  obtain token log1 where tk: "push_get_token N R p registry repository ''push,pull'' log = (Inr token, log1)"
    using assms by (auto simp: push_image_def split: prod.splits sum.splits)
  obtain rd where rd: "from_hex E root_digest = Inr rd"
    using assms tk by (auto simp: push_image_def split: sum.splits)
  obtain node s1 where g: "get_archived E s rd = (Inr node, s1)"
    using assms tk rd by (auto simp: push_image_def split: prod.splits sum.splits)
  show ?thesis
  proof (cases "is_manifest_list node")
    case True
    then show ?thesis using assms tk rd g push_manifest_list_published [OF _ assms(2)] by (simp add: push_image_def)
  next
    case False
    then have im: "is_manifest node" using assms tk rd g by (auto simp: push_image_def split: if_splits)
    obtain m tot s2 log2 where m: "push_oci_manifest n E C X R p rd registry repository token s1 log1 = Some (Inr (m, tot), s2, log2)"
      using assms tk rd g False im by (auto simp: push_image_def split: option.splits prod.splits sum.splits)
    obtain resp where sd: "send R (authorized_put (?base @ ''/manifests/'' @ tag) token IMAGE_MANIFEST (oci_manifest_to_vec X m)) log2 = (Inr resp, log')"
      "is_success (ps_status resp)" "d = ''sha256:'' @ sha_hex E (oci_manifest_to_vec X m)"
      using assms tk rd g False im m by (auto simp: push_image_def Let_def split: prod.splits sum.splits if_splits)
    have "complete_manifest E ?base log2 m" using push_oci_manifest_log [OF m] by simp
    then show ?thesis using publishedI [OF sd(1,2)] sd(3) by blast
  qed
qed

section \<open>A sample push\<close>

definition empty_manifest_data :: manifest_data where
  "empty_manifest_data = \<lparr>md_entrypoint = [], md_cmd = [], md_env = [], md_working_dir = None, md_architecture = ''amd64'',
     md_os = ''linux'', md_annotations = None, md_subject = None, md_user = None, md_stop_signal = None,
     md_exposed_ports = None, md_volumes = None, md_variant = None\<rparr>"

definition push_conv :: conv_env where
  "push_conv = ref_conv\<lparr>manifest_from_slice := (\<lambda>_. Inr empty_manifest_data)\<rparr>"

definition push_env :: export_env where
  "push_env = \<lparr>writer = ref_writer, gzip_encode = Inr, zstd_encode = Inr, config_to_vec = (\<lambda>_. [1]),
     oci_manifest_to_vec = (\<lambda>m. [2, word_of_nat (length (layers m))]), index_to_vec = (\<lambda>_. [3]), index_from_slice = (\<lambda>_. None)\<rparr>"

definition push_net :: oci_env where
  "push_net = \<lparr>http_get = (\<lambda>_. Inl []), gunzip = Inr, base64_encode = (\<lambda>s. s), parse_token = (\<lambda>_. Inr (None, None)),
     parse_manifest = (\<lambda>_. Inl []), parse_manifest_list = (\<lambda>_. Inl []), has_manifests = (\<lambda>_. False), parse_config = (\<lambda>_. Inl []),
     parse_index = (\<lambda>_. Inl []), arch_const = ''x86_64''\<rparr>"

text \<open>A registry that has nothing and takes everything.\<close>

definition new_registry :: registry where
  "new_registry log req = Inr
    (case pr_method req of
       GET \<Rightarrow> \<lparr>ps_status = 404, ps_location = None, ps_body = []\<rparr>
     | POST \<Rightarrow> \<lparr>ps_status = 202, ps_location = Some ''/up'', ps_body = []\<rparr>
     | PUT \<Rightarrow> \<lparr>ps_status = 201, ps_location = None, ps_body = []\<rparr>)"

definition push_layer :: dag_node where
  "push_layer = layer_node [node_digest ref_ext (tree_node [] [])] []"

definition push_root :: dag_node where
  "push_root = manifest_node [node_digest ref_ext push_layer] []"

definition push_store :: mmap_store where
  "push_store = put3 (new_unbounded []) (tree_node [] []) push_layer push_root"

lemma push_runs:
  "case push_image 5 ref_ext push_conv push_env push_net new_registry (pusher_new None [])
      (as_hex ref_ext (node_digest ref_ext push_root)) ''reg.io/app:v1'' push_store [] of
     Some (Inr _, _, log) \<Rightarrow> length log = 8 | _ \<Rightarrow> False"
  by code_simp

theorem push_publishes_complete_witness:
  "\<exists>d t s' log'. push_image 5 ref_ext push_conv push_env push_net new_registry (pusher_new None [])
      (as_hex ref_ext (node_digest ref_ext push_root)) ''reg.io/app:v1'' push_store [] = Some (Inr (d, t), s', log') \<and>
    published ref_ext push_env ''https://reg.io/v2/app'' ''v1'' d log'"
proof -
  obtain d t s' log' where r: "push_image 5 ref_ext push_conv push_env push_net new_registry (pusher_new None [])
      (as_hex ref_ext (node_digest ref_ext push_root)) ''reg.io/app:v1'' push_store [] = Some (Inr (d, t), s', log')"
    using push_runs by (fastforce split: option.splits prod.splits sum.splits)
  have "push_registry_for ''reg.io/app:v1'' = (''reg.io'', ''app'', ''v1'')" by code_simp
  moreover have "repo_url (pusher_new None []) ''reg.io'' ''app'' = ''https://reg.io/v2/app''" by code_simp
  ultimately have "published ref_ext push_env ''https://reg.io/v2/app'' ''v1'' d log'"
    using push_publishes_complete [OF r] by metis
  then show ?thesis using r by blast
qed

end
