(* ===== verification/Workload_Types.thy ===== *)
theory Workload_Types
  imports Host_Fs Digest Policy
begin

text \<open>
  The data of workloads (\<^verbatim>\<open>pullrun-exec/src/types.rs\<close>, the rules of
  \<^verbatim>\<open>pullrun-net/src/lib.rs\<close>, the events of \<^verbatim>\<open>pullrun-runtime/src/events.rs\<close>)
  and the functions of \<^verbatim>\<open>pullrun-runtime/src/service.rs\<close> that parse and check
  requests.  Hash maps are association lists, times are Unix seconds, and a gRPC
  status is its code with a message.
\<close>

section \<open>Network rules\<close>

datatype direction = Inbound | Outbound

datatype protocol = Tcp | Udp

record network_rule =
  nr_direction :: direction
  nr_protocol :: protocol
  nr_port :: u16
  nr_host_port :: u16
  nr_to_host :: "string option"
  nr_from_cidrs :: "string list option"

fun direction_str :: "direction \<Rightarrow> string" where
  "direction_str Inbound = ''inbound''"
| "direction_str Outbound = ''outbound''"

fun protocol_str :: "protocol \<Rightarrow> string" where
  "protocol_str Tcp = ''tcp''"
| "protocol_str Udp = ''udp''"

section \<open>Workloads\<close>

datatype restart_policy = RestartNo | OnFailure | Always | UnlessStopped

record mount =
  mount_type :: string
  mount_source :: string
  mount_destination :: string
  mount_options :: "string list"

record dns_config =
  nameservers :: "string list"
  searches :: "string list"
  dns_options :: "string list"

definition default_dns :: dns_config where
  "default_dns = \<lparr>nameservers = [], searches = [], dns_options = []\<rparr>"

datatype network_mode = Loopback | Bridge | Host | Slirp | Container string

datatype backend = ContainerBackend | ContainerRootless | Vm | Sandbox

fun backend_str :: "backend \<Rightarrow> string" where
  "backend_str ContainerBackend = ''container''"
| "backend_str ContainerRootless = ''container-rootless''"
| "backend_str Vm = ''vm''"
| "backend_str Sandbox = ''sandbox''"

definition backend_from_str :: "string \<Rightarrow> string + backend" where
  "backend_from_str s =
    (let l = to_lowercase s
     in if l = ''container'' then Inr ContainerBackend
        else if l = ''container-rootless'' then Inr ContainerRootless
        else if l = ''vm'' \<or> l = ''firecracker'' then Inr Vm
        else if l = ''sandbox'' then Inr Sandbox
        else Inl (''unknown backend: '' @ l))"

record health_check =
  hc_test :: "string list"
  interval_seconds :: u32
  timeout_seconds :: u32
  retries :: u32
  start_period_seconds :: u32

record run_spec =
  rs_id :: string
  rs_image_root :: digest
  rs_backend :: backend
  rs_command :: "string list"
  rs_env :: "(string \<times> string) list"
  rs_cpu_millicores :: "u64 option"
  rs_memory_bytes :: "u64 option"
  rs_network_mode :: network_mode
  rs_network_rules :: "network_rule list"
  rs_kernel_path :: "string option"
  rs_bridge_name :: "string option"
  rs_mounts :: "mount list"
  rs_health_check :: "health_check option"
  rs_restart_policy :: restart_policy
  rs_readonly_rootfs :: bool
  rs_no_new_privileges :: bool
  rs_seccomp_profile :: "string option"
  rs_allowed_syscalls :: "string list"
  rs_privileged :: bool
  rs_dns :: dns_config

record process_handle =
  ph_id :: string
  ph_pid :: "u32 option"
  ph_internal_ip :: "string option"
  ph_gateway :: "string option"
  ph_host_ports :: "(u16 \<times> u16) list"
  ph_backend :: string
  ph_bridge_name :: "string option"
  ph_network_join :: "string option"

datatype exec_error =
    ExecNotFound string
  | BackendNotAvailable string
  | ExecutionFailed string
  | ExecIo string
  | ExecStore string
  | ExecOci string

fun exec_error_str :: "exec_error \<Rightarrow> string" where
  "exec_error_str (ExecNotFound m) = ''workload not found: '' @ m"
| "exec_error_str (BackendNotAvailable m) = ''backend not available: '' @ m"
| "exec_error_str (ExecutionFailed m) = ''execution failed: '' @ m"
| "exec_error_str (ExecIo m) = ''IO error: '' @ m"
| "exec_error_str (ExecStore m) = ''Store error: '' @ m"
| "exec_error_str (ExecOci m) = ''OCI error: '' @ m"

section \<open>Events\<close>

datatype event_kind =
    ImagePulled | ImageDeduped | WorkloadStarted | WorkloadStopped | WorkloadExited
  | BackendSelected | PolicyDenied | PolicyAllowed

fun event_kind_str :: "event_kind \<Rightarrow> string" where
  "event_kind_str ImagePulled = ''IMAGE_PULLED''"
| "event_kind_str ImageDeduped = ''IMAGE_DEDUPED''"
| "event_kind_str WorkloadStarted = ''WORKLOAD_STARTED''"
| "event_kind_str WorkloadStopped = ''WORKLOAD_STOPPED''"
| "event_kind_str WorkloadExited = ''WORKLOAD_EXITED''"
| "event_kind_str BackendSelected = ''BACKEND_SELECTED''"
| "event_kind_str PolicyDenied = ''POLICY_DENIED''"
| "event_kind_str PolicyAllowed = ''POLICY_ALLOWED''"

definition event_kind_parse :: "string \<Rightarrow> event_kind option" where
  "event_kind_parse s =
    (if s = ''IMAGE_PULLED'' then Some ImagePulled
     else if s = ''IMAGE_DEDUPED'' then Some ImageDeduped
     else if s = ''WORKLOAD_STARTED'' then Some WorkloadStarted
     else if s = ''WORKLOAD_STOPPED'' then Some WorkloadStopped
     else if s = ''WORKLOAD_EXITED'' then Some WorkloadExited
     else if s = ''BACKEND_SELECTED'' then Some BackendSelected
     else if s = ''POLICY_DENIED'' then Some PolicyDenied
     else if s = ''POLICY_ALLOWED'' then Some PolicyAllowed
     else None)"

record event =
  ev_id :: string
  ev_kind :: event_kind
  ev_timestamp :: int
  ev_metadata :: "(string \<times> string) list"

definition event_new :: "int \<Rightarrow> string \<Rightarrow> event_kind \<Rightarrow> event" where
  "event_new now i k = \<lparr>ev_id = i, ev_kind = k, ev_timestamp = now, ev_metadata = []\<rparr>"

definition with_metadata :: "string \<Rightarrow> string \<Rightarrow> event \<Rightarrow> event" where
  "with_metadata k v e = e\<lparr>ev_metadata := AList.update k v (ev_metadata e)\<rparr>"

section \<open>Requests\<close>

datatype status_code =
    InvalidArgument | StatusNotFound | FailedPrecondition | PermissionDenied | Internal

type_synonym status = "status_code \<times> string"

record proto_network_rule =
  pn_direction :: string
  pn_protocol :: string
  pn_port :: u32
  pn_to_host :: string
  pn_from_cidrs :: "string list"
  pn_host_port :: u32

record file_ref =
  ref_name :: string
  ref_target_path :: string

record run_request =
  rq_id :: string
  rq_root_digest :: string
  rq_backend :: string
  rq_command :: "string list"
  rq_env :: "(string \<times> string) list"
  rq_cpu_millicores :: u64
  rq_memory_bytes :: u64
  rq_network_mode :: string
  rq_network_rules :: "proto_network_rule list"
  rq_kernel_image :: string
  rq_working_dir :: string
  rq_bridge_name :: string
  rq_mounts :: "mount list"
  rq_health_check :: "health_check option"
  rq_restart_policy :: int
  rq_secrets :: "file_ref list"
  rq_configs :: "file_ref list"
  rq_privileged :: bool
  rq_readonly_rootfs :: bool
  rq_no_new_privileges :: bool
  rq_seccomp_profile :: string
  rq_allowed_syscalls :: "string list"
  rq_dns :: "dns_config option"

section \<open>Parsing and checking requests\<close>

text \<open>\<^verbatim>\<open>str::find\<close> of a substring, as the text after its first occurrence.\<close>

fun after_str :: "string \<Rightarrow> string \<Rightarrow> string option" where
  "after_str p [] = (if p = [] then Some [] else None)"
| "after_str p (c # s) = (case strip_prefix p (c # s) of Some r \<Rightarrow> Some r | None \<Rightarrow> after_str p s)"

definition parse_exit_code :: "string \<Rightarrow> u32 option" where
  "parse_exit_code s =
    (case strip_prefix ''exit_code='' s of
       Some rest \<Rightarrow> (case split_whitespace rest of [] \<Rightarrow> None | w # _ \<Rightarrow> parse_u32 w)
     | None \<Rightarrow>
         (case (case after_str ''exited('' s of
                  None \<Rightarrow> None
                | Some rest \<Rightarrow> map_option fst (split_once (CHR '')'') rest)) of
            Some digits \<Rightarrow> parse_u32 digits
          | None \<Rightarrow>
              (case after_str ''signal '' s of
                 None \<Rightarrow> None
               | Some rest \<Rightarrow>
                   if list_all is_ascii_digit rest then None
                   else map_option (\<lambda>sig. 128 + sig) (parse_u32 (takeWhile is_ascii_digit rest)))))"

definition parse_restart_policy :: "int \<Rightarrow> restart_policy" where
  "parse_restart_policy p =
    (if p = 2 then OnFailure else if p = 3 then Always else if p = 4 then UnlessStopped else RestartNo)"

definition id_char :: "char \<Rightarrow> bool" where
  "id_char c \<longleftrightarrow> is_alphanumeric c \<or> c = CHR ''-'' \<or> c = CHR ''_'' \<or> c = CHR ''.''"

definition validate_workload_id :: "string \<Rightarrow> string + unit" where
  "validate_workload_id i =
    (if i = [] then Inl ''workload id must not be empty''
     else if length i > 128 then Inl ''workload id too long (max 128 characters)''
     else if \<not> list_all id_char i
     then Inl ''workload id may only contain alphanumerics, dash, underscore or dot''
     else Inr ())"

definition parse_network_mode :: "string \<Rightarrow> bool \<Rightarrow> network_mode" where
  "parse_network_mode s has_inbound_ports =
    (case strip_prefix ''container:'' s of
       Some target \<Rightarrow> Container target
     | None \<Rightarrow>
         if s = ''bridge'' then Bridge
         else if s = ''host'' then Host
         else if s = ''slirp'' then Slirp
         else if has_inbound_ports then Bridge
         else Loopback)"

fun network_mode_str :: "network_mode \<Rightarrow> string" where
  "network_mode_str (Container target) = ''container:'' @ target"
| "network_mode_str Bridge = ''bridge''"
| "network_mode_str Host = ''host''"
| "network_mode_str Slirp = ''slirp''"
| "network_mode_str Loopback = ''isolated''"

definition dns_from_req :: "dns_config option \<Rightarrow> dns_config" where
  "dns_from_req dns = (case dns of None \<Rightarrow> default_dns | Some d \<Rightarrow> d)"

text \<open>
  \<^verbatim>\<open>std::fs::canonicalize\<close>, falling back to the path as written: whether it is
  absolute, and its components.
\<close>

definition canonical_or_raw :: "host_fs \<Rightarrow> path \<Rightarrow> string \<Rightarrow> bool \<times> path" where
  "canonical_or_raw fs cwd s =
    (case resolve fs (path_join cwd s) of
       None \<Rightarrow> (starts_with s ''/'', path_comps s)
     | Some p \<Rightarrow> if fs_lookup fs p = None then (starts_with s ''/'', path_comps s) else (True, p))"

definition check_source :: "host_fs \<Rightarrow> path \<Rightarrow> path \<Rightarrow> mount \<Rightarrow> string + unit" where
  "check_source fs cwd store_root m =
    (if mount_type m = ''bind''
     then if mount_source m = [] then Inl ''bind mount source must not be empty''
          else case canonical_or_raw fs cwd (mount_source m) of (absolute, p) \<Rightarrow>
                 if absolute \<and> p = [] then Inl ''refusing to bind-mount the host root filesystem''
                 else if absolute \<and> is_below store_root p then Inl ''refusing to bind-mount the pullrun store''
                 else Inr ()
     else if mount_type m = ''tmpfs'' \<or> mount_type m = ''volume'' then Inr ()
     else Inl (''unsupported mount type: '' @ mount_type m))"

fun sanitize_mounts :: "host_fs \<Rightarrow> path \<Rightarrow> path \<Rightarrow> mount list \<Rightarrow> string + unit" where
  "sanitize_mounts fs cwd store_root [] = Inr ()"
| "sanitize_mounts fs cwd store_root (m # ms) =
    (case check_source fs cwd store_root m of
       Inl e \<Rightarrow> Inl e
     | Inr _ \<Rightarrow>
         if \<not> starts_with (mount_destination m) ''/''
         then Inl (''mount destination must be an absolute path: '' @ mount_destination m)
         else if ''..'' \<in> set (path_comps (mount_destination m))
         then Inl (''mount destination must not contain parent components: '' @ mount_destination m)
         else sanitize_mounts fs cwd store_root ms)"

definition default_policy_value :: policy where
  "default_policy_value =
    \<lparr>required_signature = False, readonly_rootfs = False, no_new_privileges = False, seccomp_profile = None,
     allowed_syscalls = [], policy_labels = [], max_cvss_score = None, trusted_signers = [], deny_licenses = [],
     require_sbom = False\<rparr>"

text \<open>The flags in the order the code returns them: privileged, read-only root, no new
  privileges, seccomp profile, allowed system calls.\<close>

definition effective_security_flags ::
    "policy \<Rightarrow> run_request \<Rightarrow> bool \<times> bool \<times> bool \<times> string option \<times> string list" where
  "effective_security_flags p req =
    (let privileged = rq_privileged req
     in (privileged,
         (if privileged then False else rq_readonly_rootfs req \<or> readonly_rootfs p),
         (if privileged then False else rq_no_new_privileges req \<or> no_new_privileges p),
         (if privileged then None
          else if rq_seccomp_profile req \<noteq> [] then Some (rq_seccomp_profile req)
          else seccomp_profile p),
         (if privileged then []
          else if rq_allowed_syscalls req \<noteq> [] then rq_allowed_syscalls req
          else allowed_syscalls p)))"

definition net_rule_of :: "proto_network_rule \<Rightarrow> network_rule" where
  "net_rule_of r =
    \<lparr>nr_direction = (if pn_direction r = ''outbound'' then Outbound else Inbound),
     nr_protocol = (if pn_protocol r = ''udp'' then Udp else Tcp),
     nr_port = ucast (pn_port r), nr_host_port = ucast (pn_host_port r),
     nr_to_host = (if pn_to_host r = [] then None else Some (pn_to_host r)),
     nr_from_cidrs = (if pn_from_cidrs r = [] then None else Some (pn_from_cidrs r))\<rparr>"

section \<open>State of a workload\<close>

record workload_state =
  ws_status :: string
  ws_start_time :: int
  ws_exit_time :: int
  ws_exit_code :: "u32 option"
  ws_backend :: string
  ws_internal_ip :: "string option"
  ws_pid :: u32
  ws_image_root :: string
  ws_command :: "string list"
  ws_network_rules :: "network_rule list"
  ws_policy_decisions :: "(string \<times> string) list"
  ws_kernel_image_ref :: string
  ws_kernel_image_digest :: string
  ws_working_dir :: string
  ws_rootfs_dir :: "string option"
  ws_health_check :: "health_check option"
  ws_health :: string
  ws_health_failures :: u32
  ws_health_last_success :: int
  ws_restart_policy :: restart_policy
  ws_restart_count :: u32
  ws_env :: "(string \<times> string) list"
  ws_cpu_millicores :: "u64 option"
  ws_memory_bytes :: "u64 option"
  ws_bridge_name :: "string option"
  ws_network_mode :: string
  ws_mounts :: "mount list"
  ws_privileged :: bool
  ws_readonly_rootfs :: bool
  ws_no_new_privileges :: bool
  ws_seccomp_profile :: "string option"
  ws_allowed_syscalls :: "string list"
  ws_dns :: dns_config
  ws_console_log_path :: "string option"

definition is_network_isolated :: "workload_state \<Rightarrow> bool" where
  "is_network_isolated s =
    (let m = ws_network_mode s
     in if m = ''bridge'' \<or> m = ''host'' \<or> m = ''slirp'' then False
        else if starts_with m ''container:'' then False
        else if m = [] then ws_internal_ip s = None
        else True)"

section \<open>Facts\<close>

lemma event_kind_roundtrip [simp]: "event_kind_parse (event_kind_str k) = Some k"
  by (cases k) (simp_all add: event_kind_parse_def)

lemma backend_roundtrip [simp]: "backend_from_str (backend_str b) = Inr b"
proof -
  have "backend_from_str (backend_str ContainerBackend) = Inr ContainerBackend"
    "backend_from_str (backend_str ContainerRootless) = Inr ContainerRootless"
    "backend_from_str (backend_str Vm) = Inr Vm" "backend_from_str (backend_str Sandbox) = Inr Sandbox"
    by code_simp+
  then show ?thesis by (cases b) simp_all
qed

lemma strip_container:
  "strip_prefix ''container:'' ''bridge'' = None" "strip_prefix ''container:'' ''host'' = None"
  "strip_prefix ''container:'' ''slirp'' = None" "strip_prefix ''container:'' ''isolated'' = None"
  by simp_all

lemma parse_network_mode_str:
  "parse_network_mode (network_mode_str m) inbound =
    (if m = Loopback \<and> inbound then Bridge else m)"
  by (cases m) (simp_all add: parse_network_mode_def strip_container)

lemma validate_workload_id_ok:
  "validate_workload_id i = Inr () \<longleftrightarrow> i \<noteq> [] \<and> length i \<le> 128 \<and> list_all id_char i"
  by (simp add: validate_workload_id_def not_less)

lemma workload_id_one_component:
  assumes "validate_workload_id i = Inr ()"
  shows "path_comps i = (if i = ''.'' then [] else [i])"
proof -
  have "\<not> id_char (CHR ''/'')" using not_space_alnum [of "CHR ''/''"] by (auto simp: id_char_def)
  then have "CHR ''/'' \<notin> set i" using assms by (metis list_all_iff validate_workload_id_ok)
  moreover have "i \<noteq> []" using assms by (simp add: validate_workload_id_ok)
  ultimately show ?thesis by (simp add: path_comps_def split_on_no_sep)
qed

text \<open>What an accepted list of mounts guarantees, and what it does not: a directory above the
  store passes.\<close>

lemma sanitize_mounts_ok:
  assumes "sanitize_mounts fs cwd store_root ms = Inr ()" "m \<in> set ms"
  shows "mount_type m \<in> {''bind'', ''tmpfs'', ''volume''} \<and> starts_with (mount_destination m) ''/'' \<and>
    ''..'' \<notin> set (path_comps (mount_destination m)) \<and>
    (mount_type m = ''bind'' \<longrightarrow> mount_source m \<noteq> [] \<and>
      (\<forall>p. canonical_or_raw fs cwd (mount_source m) = (True, p) \<longrightarrow> p \<noteq> [] \<and> \<not> is_below store_root p))"
  using assms
proof (induction ms)
  case (Cons n ms)
  have source: "check_source fs cwd store_root n = Inr ()" and dest: "starts_with (mount_destination n) ''/''"
    "''..'' \<notin> set (path_comps (mount_destination n))" and rest: "sanitize_mounts fs cwd store_root ms = Inr ()"
    using Cons.prems(1) by (simp_all split: sum.splits if_splits)
  have type: "mount_type n = ''bind'' \<or> mount_type n = ''tmpfs'' \<or> mount_type n = ''volume''"
    using source by (simp add: check_source_def split: if_splits)
  have bind: "mount_source n \<noteq> [] \<and>
      (\<forall>p. canonical_or_raw fs cwd (mount_source n) = (True, p) \<longrightarrow> p \<noteq> [] \<and> \<not> is_below store_root p)"
    if "mount_type n = ''bind''"
    using source that by (simp add: check_source_def split: if_splits prod.splits)
  show ?case
  proof (cases "m = n")
    case True
    then show ?thesis using type dest bind by blast
  next
    case False
    then show ?thesis using Cons.IH [OF rest] Cons.prems(2) by simp
  qed
qed simp

lemma parent_of_store_accepted:
  assumes "canonical_or_raw fs cwd src = (True, p)" "p \<noteq> []" "src \<noteq> []" "store_root = p @ q" "q \<noteq> []"
  shows "sanitize_mounts fs cwd store_root
    [\<lparr>mount_type = ''bind'', mount_source = src, mount_destination = ''/host'', mount_options = []\<rparr>] = Inr ()"
proof -
  have "\<not> is_below store_root p"
    using assms(4,5) by (simp add: is_below_def)
  moreover have "path_comps ''/host'' = [''host'']" by (simp add: path_comps_def)
  ultimately show ?thesis using assms by (simp add: check_source_def starts_with_def)
qed

text \<open>The exit codes of the documented status texts.\<close>

lemma parse_exit_code_texts:
  "parse_exit_code ''exit_code=42 done'' = Some 42" "parse_exit_code ''exited(7)'' = Some 7"
  "parse_exit_code ''stopped (signal 15)'' = Some 143" "parse_exit_code ''running'' = None"
  "parse_exit_code ''exited()'' = None" "parse_exit_code [] = None" "parse_exit_code ''stopped'' = None"
  by (simp_all add: parse_exit_code_def split_whitespace_def is_space_def parse_u32_def parse_radix_def dec_digit_def
      is_ascii_digit_def code_def Let_def)

end
