(* ===== verification/Secrets.thy ===== *)
theory Secrets
  imports Host_Fs
begin

text \<open>
  The secret and configuration store, \<^verbatim>\<open>pullrun-runtime/src/secrets.rs\<close>: named
  files below the store root, secrets encrypted with one key that is generated on
  first use, kept in a file and cached.  The cipher is a parameter, random bytes are
  arguments.  File times are a parameter of the listings.
\<close>

definition SECRET_KEY_FILE :: string where "SECRET_KEY_FILE = ''secret.key''"
definition SECRETS_DIR :: string where "SECRETS_DIR = ''secrets''"
definition CONFIGS_DIR :: string where "CONFIGS_DIR = ''configs''"
definition NONCE_LEN :: nat where "NONCE_LEN = 12"

record secret_info =
  si_name :: string
  si_created_at :: int
  si_size_bytes :: nat

record secret_store =
  ss_root :: path
  key_cache :: "bytes option"

record cipher =
  gcm_encrypt :: "bytes \<Rightarrow> bytes \<Rightarrow> bytes \<Rightarrow> string + bytes"
  gcm_decrypt :: "bytes \<Rightarrow> bytes \<Rightarrow> bytes \<Rightarrow> string + bytes"

definition secret_store_new :: "path \<Rightarrow> secret_store" where
  "secret_store_new r = \<lparr>ss_root = r, key_cache = None\<rparr>"

definition secrets_dir :: "secret_store \<Rightarrow> path" where
  "secrets_dir ss = ss_root ss @ [SECRETS_DIR]"

definition configs_dir :: "secret_store \<Rightarrow> path" where
  "configs_dir ss = ss_root ss @ [CONFIGS_DIR]"

definition key_path :: "secret_store \<Rightarrow> path" where
  "key_path ss = ss_root ss @ [SECRET_KEY_FILE]"

definition name_char :: "char \<Rightarrow> bool" where
  "name_char c \<longleftrightarrow> is_alphanumeric c \<or> c = CHR ''-'' \<or> c = CHR ''_'' \<or> c = CHR ''.''"

definition sanitize_name :: "string \<Rightarrow> string + string" where
  "sanitize_name name =
    (if name = [] \<or> length name > 255 then Inl ''name must be 1-255 characters''
     else if \<not> list_all name_char name then Inl ''name must be alphanumeric with dashes, underscores, or dots''
     else if starts_with name ''.'' \<or> starts_with name ''-'' then Inl ''name must not start with dot or dash''
     else Inr name)"

text \<open>
  \<^verbatim>\<open>OpenOptions::create_new\<close> with a mode, followed by writing the content: fails
  when the name exists, as anything.
\<close>

definition create_new :: "path \<Rightarrow> u32 option \<Rightarrow> bytes \<Rightarrow> host_fs \<Rightarrow> (string + unit) \<times> host_fs" where
  "create_new p mode data fs =
    (case resolve_parent fs p of
       None \<Rightarrow> (Inl ''No such file or directory'', fs)
     | Some q \<Rightarrow>
         if fs_lookup fs q \<noteq> None then (Inl ''File exists'', fs)
         else (Inr (), set_attr (Some q) (\<lambda>a. a\<lparr>a_mode := mode\<rparr>) (set_node q (File data) fs)))"

definition path_exists :: "host_fs \<Rightarrow> path \<Rightarrow> bool" where
  "path_exists fs p \<longleftrightarrow> (case resolve fs p of None \<Rightarrow> False | Some q \<Rightarrow> fs_lookup fs q \<noteq> None)"

section \<open>The key and the cipher\<close>

definition load_or_generate_key ::
    "bytes \<Rightarrow> secret_store \<Rightarrow> host_fs \<Rightarrow> (string + bytes) \<times> secret_store \<times> host_fs" where
  "load_or_generate_key fresh ss fs =
    (case key_cache ss of
       Some key \<Rightarrow> (Inr key, ss, fs)
     | None \<Rightarrow>
         if path_exists fs (key_path ss)
         then (case read_file fs (key_path ss) of
                 None \<Rightarrow> (Inl ''read key'', ss, fs)
               | Some data \<Rightarrow>
                   if length data \<noteq> 32 then (Inl ''key file has wrong length'', ss, fs)
                   else (Inr data, ss\<lparr>key_cache := Some data\<rparr>, fs))
         else (case create_dir_all (ss_root ss) fs of
                 (Inl e, fs1) \<Rightarrow> (Inl (''create key dir: '' @ e), ss, fs1)
               | (Inr _, fs1) \<Rightarrow>
                   (case create_new (key_path ss) (Some 384) fresh fs1 of
                      (Inl e, fs2) \<Rightarrow> (Inl (''write key: '' @ e), ss, fs2)
                    | (Inr _, fs2) \<Rightarrow> (Inr fresh, ss\<lparr>key_cache := Some fresh\<rparr>, fs2))))"

definition encrypt ::
    "cipher \<Rightarrow> bytes \<Rightarrow> bytes \<Rightarrow> bytes \<Rightarrow> secret_store \<Rightarrow> host_fs \<Rightarrow> (string + bytes) \<times> secret_store \<times> host_fs" where
  "encrypt C fresh nonce plaintext ss fs =
    (case load_or_generate_key fresh ss fs of
       (Inl e, ss1, fs1) \<Rightarrow> (Inl e, ss1, fs1)
     | (Inr key, ss1, fs1) \<Rightarrow>
         (case gcm_encrypt C key nonce plaintext of
            Inl e \<Rightarrow> (Inl (''encrypt: '' @ e), ss1, fs1)
          | Inr c \<Rightarrow> (Inr (nonce @ c), ss1, fs1)))"

definition decrypt ::
    "cipher \<Rightarrow> bytes \<Rightarrow> bytes \<Rightarrow> secret_store \<Rightarrow> host_fs \<Rightarrow> (string + bytes) \<times> secret_store \<times> host_fs" where
  "decrypt C fresh data ss fs =
    (if length data < NONCE_LEN then (Inl ''data too short'', ss, fs)
     else case load_or_generate_key fresh ss fs of
            (Inl e, ss1, fs1) \<Rightarrow> (Inl e, ss1, fs1)
          | (Inr key, ss1, fs1) \<Rightarrow>
              (case gcm_decrypt C key (take NONCE_LEN data) (drop NONCE_LEN data) of
                 Inl e \<Rightarrow> (Inl (''decrypt: '' @ e), ss1, fs1)
               | Inr p \<Rightarrow> (Inr p, ss1, fs1)))"

section \<open>Secrets\<close>

definition create_secret ::
    "cipher \<Rightarrow> bytes \<Rightarrow> bytes \<Rightarrow> string \<Rightarrow> bytes \<Rightarrow> secret_store \<Rightarrow> host_fs \<Rightarrow>
     (string + unit) \<times> secret_store \<times> host_fs" where
  "create_secret C fresh nonce name data ss fs =
    (case sanitize_name name of
       Inl e \<Rightarrow> (Inl e, ss, fs)
     | Inr n \<Rightarrow>
         (case create_dir_all (secrets_dir ss) fs of
            (Inl e, fs1) \<Rightarrow> (Inl (''create secrets dir: '' @ e), ss, fs1)
          | (Inr _, fs1) \<Rightarrow>
              (case encrypt C fresh nonce data ss fs1 of
                 (Inl e, ss2, fs2) \<Rightarrow> (Inl e, ss2, fs2)
               | (Inr encrypted, ss2, fs2) \<Rightarrow>
                   (case create_new (secrets_dir ss @ [n]) (Some 384) encrypted fs2 of
                      (Inl e, fs3) \<Rightarrow> (Inl (''create secret: '' @ e), ss2, fs3)
                    | (Inr _, fs3) \<Rightarrow> (Inr (), ss2, fs3)))))"

definition read_secret_raw ::
    "cipher \<Rightarrow> bytes \<Rightarrow> string \<Rightarrow> secret_store \<Rightarrow> host_fs \<Rightarrow> (string + bytes) \<times> secret_store \<times> host_fs" where
  "read_secret_raw C fresh name ss fs =
    (case sanitize_name name of
       Inl e \<Rightarrow> (Inl e, ss, fs)
     | Inr n \<Rightarrow>
         (case read_file fs (secrets_dir ss @ [n]) of
            None \<Rightarrow> (Inl ''read secret'', ss, fs)
          | Some encrypted \<Rightarrow> decrypt C fresh encrypted ss fs))"

definition read_secret ::
    "cipher \<Rightarrow> (bytes \<Rightarrow> string option) \<Rightarrow> bytes \<Rightarrow> string \<Rightarrow> secret_store \<Rightarrow> host_fs \<Rightarrow>
     (string + string) \<times> secret_store \<times> host_fs" where
  "read_secret C from_utf8 fresh name ss fs =
    (case read_secret_raw C fresh name ss fs of
       (Inl e, ss1, fs1) \<Rightarrow> (Inl e, ss1, fs1)
     | (Inr p, ss1, fs1) \<Rightarrow>
         (case from_utf8 p of
            None \<Rightarrow> (Inl ''secret is not valid UTF-8'', ss1, fs1)
          | Some t \<Rightarrow> (Inr t, ss1, fs1)))"

text \<open>Listings: the plain files of the directory, sorted by name.\<close>

definition file_info :: "(path \<Rightarrow> int) \<Rightarrow> host_fs \<Rightarrow> path \<Rightarrow> string \<Rightarrow> secret_info list" where
  "file_info time fs dir n =
    (case fs_lookup fs (dir @ [n]) of
       Some (File data) \<Rightarrow> [\<lparr>si_name = n, si_created_at = time (dir @ [n]), si_size_bytes = length data\<rparr>]
     | _ \<Rightarrow> [])"

definition list_infos :: "(path \<Rightarrow> int) \<Rightarrow> path \<Rightarrow> host_fs \<Rightarrow> string + secret_info list" where
  "list_infos time dir fs =
    (if \<not> path_exists fs dir then Inr []
     else case resolve fs dir of
            None \<Rightarrow> Inl ''No such file or directory''
          | Some q \<Rightarrow>
              if fs_lookup fs q \<noteq> Some Dir then Inl ''Not a directory''
              else Inr (sort_key si_name (concat (map (file_info time fs q) (child_names fs q)))))"

definition list_secrets :: "(path \<Rightarrow> int) \<Rightarrow> secret_store \<Rightarrow> host_fs \<Rightarrow> string + secret_info list" where
  "list_secrets time ss fs = list_infos time (secrets_dir ss) fs"

definition inspect_file :: "(path \<Rightarrow> int) \<Rightarrow> path \<Rightarrow> string \<Rightarrow> host_fs \<Rightarrow> string + secret_info" where
  "inspect_file time dir name fs =
    (case sanitize_name name of
       Inl e \<Rightarrow> Inl e
     | Inr n \<Rightarrow>
         (case resolve fs (dir @ [n]) of
            None \<Rightarrow> Inl ''No such file or directory''
          | Some q \<Rightarrow>
              (case fs_lookup fs q of
                 None \<Rightarrow> Inl ''No such file or directory''
               | Some (File data) \<Rightarrow> Inr \<lparr>si_name = n, si_created_at = time q, si_size_bytes = length data\<rparr>
               | Some _ \<Rightarrow> Inl (name @ '' is not a file''))))"

definition inspect_secret :: "(path \<Rightarrow> int) \<Rightarrow> string \<Rightarrow> secret_store \<Rightarrow> host_fs \<Rightarrow> string + secret_info" where
  "inspect_secret time name ss fs = inspect_file time (secrets_dir ss) name fs"

definition remove_named :: "path \<Rightarrow> string \<Rightarrow> host_fs \<Rightarrow> (string + unit) \<times> host_fs" where
  "remove_named dir name fs =
    (case sanitize_name name of
       Inl e \<Rightarrow> (Inl e, fs)
     | Inr n \<Rightarrow>
         if \<not> path_exists fs (dir @ [n]) then (Inl (n @ '' not found''), fs)
         else remove_file (dir @ [n]) fs)"

definition remove_secret :: "string \<Rightarrow> secret_store \<Rightarrow> host_fs \<Rightarrow> (string + unit) \<times> host_fs" where
  "remove_secret name ss fs = remove_named (secrets_dir ss) name fs"

section \<open>Configurations\<close>

definition create_config :: "string \<Rightarrow> bytes \<Rightarrow> secret_store \<Rightarrow> host_fs \<Rightarrow> (string + unit) \<times> host_fs" where
  "create_config name data ss fs =
    (case sanitize_name name of
       Inl e \<Rightarrow> (Inl e, fs)
     | Inr n \<Rightarrow>
         (case create_dir_all (configs_dir ss) fs of
            (Inl e, fs1) \<Rightarrow> (Inl (''create configs dir: '' @ e), fs1)
          | (Inr _, fs1) \<Rightarrow> create_new (configs_dir ss @ [n]) None data fs1))"

definition read_config_raw :: "string \<Rightarrow> secret_store \<Rightarrow> host_fs \<Rightarrow> string + bytes" where
  "read_config_raw name ss fs =
    (case sanitize_name name of
       Inl e \<Rightarrow> Inl e
     | Inr n \<Rightarrow> (case read_file fs (configs_dir ss @ [n]) of None \<Rightarrow> Inl ''read config'' | Some data \<Rightarrow> Inr data))"

definition read_config :: "(bytes \<Rightarrow> string option) \<Rightarrow> string \<Rightarrow> secret_store \<Rightarrow> host_fs \<Rightarrow> string + string" where
  "read_config from_utf8 name ss fs =
    (case read_config_raw name ss fs of
       Inl e \<Rightarrow> Inl e
     | Inr data \<Rightarrow> (case from_utf8 data of None \<Rightarrow> Inl ''stream did not contain valid UTF-8'' | Some t \<Rightarrow> Inr t))"

definition list_configs :: "(path \<Rightarrow> int) \<Rightarrow> secret_store \<Rightarrow> host_fs \<Rightarrow> string + secret_info list" where
  "list_configs time ss fs = list_infos time (configs_dir ss) fs"

definition inspect_config :: "(path \<Rightarrow> int) \<Rightarrow> string \<Rightarrow> secret_store \<Rightarrow> host_fs \<Rightarrow> string + secret_info" where
  "inspect_config time name ss fs = inspect_file time (configs_dir ss) name fs"

definition remove_config :: "string \<Rightarrow> secret_store \<Rightarrow> host_fs \<Rightarrow> (string + unit) \<times> host_fs" where
  "remove_config name ss fs = remove_named (configs_dir ss) name fs"

section \<open>Requests and the abstract store\<close>

text \<open>
  The requests of the service in sequence, with the random bytes they draw, and a
  restart of the daemon, which forgets the cached key.
\<close>

datatype secret_op =
    CreateSecret bytes bytes string bytes
  | ReadSecret bytes string
  | RemoveSecret string
  | CreateConfig string bytes
  | ReadConfig string
  | RemoveConfig string
  | Restart

datatype secret_reply = Done | Failed | Content bytes

fun reply_unit :: "string + unit \<Rightarrow> secret_reply" where
  "reply_unit (Inl _) = Failed"
| "reply_unit (Inr _) = Done"

fun reply_bytes :: "string + bytes \<Rightarrow> secret_reply" where
  "reply_bytes (Inl _) = Failed"
| "reply_bytes (Inr b) = Content b"

fun serve :: "cipher \<Rightarrow> secret_op \<Rightarrow> secret_store \<times> host_fs \<Rightarrow> secret_reply \<times> secret_store \<times> host_fs" where
  "serve C (CreateSecret fresh nonce name data) (ss, fs) =
    (case create_secret C fresh nonce name data ss fs of (r, ss', fs') \<Rightarrow> (reply_unit r, ss', fs'))"
| "serve C (ReadSecret fresh name) (ss, fs) =
    (case read_secret_raw C fresh name ss fs of (r, ss', fs') \<Rightarrow> (reply_bytes r, ss', fs'))"
| "serve C (RemoveSecret name) (ss, fs) =
    (case remove_secret name ss fs of (r, fs') \<Rightarrow> (reply_unit r, ss, fs'))"
| "serve C (CreateConfig name data) (ss, fs) =
    (case create_config name data ss fs of (r, fs') \<Rightarrow> (reply_unit r, ss, fs'))"
| "serve C (ReadConfig name) (ss, fs) = (reply_bytes (read_config_raw name ss fs), ss, fs)"
| "serve C (RemoveConfig name) (ss, fs) =
    (case remove_config name ss fs of (r, fs') \<Rightarrow> (reply_unit r, ss, fs'))"
| "serve C Restart (ss, fs) = (Done, ss\<lparr>key_cache := None\<rparr>, fs)"

fun serve_all :: "cipher \<Rightarrow> secret_op list \<Rightarrow> secret_store \<times> host_fs \<Rightarrow> secret_reply list" where
  "serve_all C [] st = []"
| "serve_all C (op # ops) st = (case serve C op st of (r, st') \<Rightarrow> r # serve_all C ops st')"

text \<open>The promise: two maps from valid names to contents.\<close>

type_synonym secret_spec = "(string \<rightharpoonup> bytes) \<times> (string \<rightharpoonup> bytes)"

definition valid_name :: "string \<Rightarrow> bool" where
  "valid_name name \<longleftrightarrow> sanitize_name name = Inr name"

definition spec_create :: "string \<Rightarrow> bytes \<Rightarrow> (string \<rightharpoonup> bytes) \<Rightarrow> secret_reply \<times> (string \<rightharpoonup> bytes)" where
  "spec_create name data m =
    (if valid_name name \<and> m name = None then (Done, m(name \<mapsto> data)) else (Failed, m))"

definition spec_read :: "string \<Rightarrow> (string \<rightharpoonup> bytes) \<Rightarrow> secret_reply" where
  "spec_read name m = (case m name of None \<Rightarrow> Failed | Some data \<Rightarrow> Content data)"

definition spec_remove :: "string \<Rightarrow> (string \<rightharpoonup> bytes) \<Rightarrow> secret_reply \<times> (string \<rightharpoonup> bytes)" where
  "spec_remove name m = (if m name = None then (Failed, m) else (Done, m(name := None)))"

fun spec_serve :: "secret_op \<Rightarrow> secret_spec \<Rightarrow> secret_reply \<times> secret_spec" where
  "spec_serve (CreateSecret fresh nonce name data) (sec, conf) =
    (case spec_create name data sec of (r, sec') \<Rightarrow> (r, sec', conf))"
| "spec_serve (ReadSecret fresh name) (sec, conf) = (spec_read name sec, sec, conf)"
| "spec_serve (RemoveSecret name) (sec, conf) =
    (case spec_remove name sec of (r, sec') \<Rightarrow> (r, sec', conf))"
| "spec_serve (CreateConfig name data) (sec, conf) =
    (case spec_create name data conf of (r, conf') \<Rightarrow> (r, sec, conf'))"
| "spec_serve (ReadConfig name) (sec, conf) = (spec_read name conf, sec, conf)"
| "spec_serve (RemoveConfig name) (sec, conf) =
    (case spec_remove name conf of (r, conf') \<Rightarrow> (r, sec, conf'))"
| "spec_serve Restart (sec, conf) = (Done, sec, conf)"

fun spec_all :: "secret_op list \<Rightarrow> secret_spec \<Rightarrow> secret_reply list" where
  "spec_all [] m = []"
| "spec_all (op # ops) m = (case spec_serve op m of (r, m') \<Rightarrow> r # spec_all ops m')"

text \<open>
  What AES-GCM promises for keys of 32 bytes, nonces of 12 bytes and messages below
  its length limit, and what the random source delivers.
\<close>

definition cipher_ok :: "cipher \<Rightarrow> bool" where
  "cipher_ok C \<longleftrightarrow> (\<forall>k n p. length k = 32 \<longrightarrow> length n = NONCE_LEN \<longrightarrow> length p < 2 ^ 36 \<longrightarrow>
     (\<exists>c. gcm_encrypt C k n p = Inr c \<and> gcm_decrypt C k n c = Inr p))"

fun wf_op :: "secret_op \<Rightarrow> bool" where
  "wf_op (CreateSecret fresh nonce name data) \<longleftrightarrow> length fresh = 32 \<and> length nonce = NONCE_LEN \<and> length data < 2 ^ 36"
| "wf_op (ReadSecret fresh name) \<longleftrightarrow> length fresh = 32"
| "wf_op _ \<longleftrightarrow> True"

section \<open>The files refine the maps\<close>

lemma valid_name_sanitize: "sanitize_name name = (if valid_name name then Inr name else Inl (projl (sanitize_name name)))"
  by (simp add: valid_name_def sanitize_name_def)

lemma sanitize_valid [simp]: "valid_name name \<Longrightarrow> sanitize_name name = Inr name"
  by (simp add: valid_name_def)

lemma sanitize_invalid: "\<not> valid_name name \<Longrightarrow> \<exists>e. sanitize_name name = Inl e"
  by (metis valid_name_sanitize)

lemma valid_name_plain:
  assumes "valid_name name"
  shows "name \<noteq> ''..''"
  using assms by (auto simp: valid_name_def sanitize_name_def starts_with_def split: if_splits)

definition file_map :: "path \<Rightarrow> host_fs \<Rightarrow> string \<rightharpoonup> bytes" where
  "file_map dir fs name =
    (if valid_name name then case fs_lookup fs (dir @ [name]) of Some (File b) \<Rightarrow> Some b | _ \<Rightarrow> None else None)"

definition plain_dir :: "path \<Rightarrow> host_fs \<Rightarrow> bool" where
  "plain_dir dir fs \<longleftrightarrow> (fs_lookup fs dir = None \<or> fs_lookup fs dir = Some Dir) \<and>
     (\<forall>name. valid_name name \<longrightarrow> fs_lookup fs (dir @ [name]) = None \<or>
        fs_lookup fs dir = Some Dir \<and> (\<exists>b. fs_lookup fs (dir @ [name]) = Some (File b)))"

definition root_ok :: "path \<Rightarrow> host_fs \<Rightarrow> bool" where
  "root_ok r fs \<longleftrightarrow> dirs_above fs r \<and> fs_lookup fs r = Some Dir \<and>
     plain_dir (r @ [SECRETS_DIR]) fs \<and> plain_dir (r @ [CONFIGS_DIR]) fs"

text \<open>Changing the tree at one path that is no directory above the store.\<close>

definition changes_at :: "path \<Rightarrow> fs_node option \<Rightarrow> host_fs \<Rightarrow> host_fs \<Rightarrow> bool" where
  "changes_at p x fs fs' \<longleftrightarrow> (\<forall>q. fs_lookup fs' q = (if q = p then x else fs_lookup fs q))"

lemma changes_at_set: "p \<noteq> [] \<Longrightarrow> changes_at p (Some x) fs (set_attr a f (set_node p x fs))"
  "p \<noteq> [] \<Longrightarrow> changes_at p (Some x) fs (set_node p x fs)"
  by (simp_all add: changes_at_def)

lemma changes_at_drop: "p \<noteq> [] \<Longrightarrow> changes_at p None fs (drop_node p fs)"
  by (auto simp: changes_at_def drop_node_def fs_lookup_def)

lemma changes_dirs:
  assumes "changes_at p x fs fs'" "fs_lookup fs p \<noteq> Some Dir" "dirs_above fs q"
  shows "dirs_above fs' q"
  using assms by (auto simp: dirs_above_def changes_at_def)

lemma ensure_dir:
  assumes "dirs_above fs r" "fs_lookup fs r = Some Dir" "d \<noteq> ''..''"
    and "fs_lookup fs (r @ [d]) = None \<or> fs_lookup fs (r @ [d]) = Some Dir"
  shows "\<exists>fs1. create_dir_all (r @ [d]) fs = (Inr (), fs1) \<and> changes_at (r @ [d]) (Some Dir) fs fs1"
proof (cases "fs_lookup fs (r @ [d]) = None")
  case True
  then show ?thesis using create_dir_new [of fs "r @ [d]"] assms by (auto simp: dirs_above_snoc intro: changes_at_set)
next
  case False
  then show ?thesis
    using create_dir_existing [of fs "r @ [d]"] assms by (auto simp: dirs_above_snoc changes_at_def)
qed

lemma create_new_dirs:
  assumes "dirs_above fs p" "p \<noteq> []"
  shows "fs_lookup fs p = None \<Longrightarrow> \<exists>fs1. create_new p mode data fs = (Inr (), fs1) \<and> changes_at p (Some (File data)) fs fs1"
    and "fs_lookup fs p \<noteq> None \<Longrightarrow> \<exists>e. create_new p mode data fs = (Inl e, fs)"
  using resolve_parent_dirs [OF assms] changes_at_set(1) [OF assms(2)] by (auto simp: create_new_def)

lemma read_file_dirs:
  assumes "dirs_above fs p" "\<nexists>t. fs_lookup fs p = Some (Link t)"
  shows "read_file fs p = (case fs_lookup fs p of Some (File data) \<Rightarrow> Some data | _ \<Rightarrow> None)"
  using resolve_dirs [OF assms] by (simp add: read_file_def)

lemma path_exists_dirs:
  "dirs_above fs p \<Longrightarrow> (\<nexists>t. fs_lookup fs p = Some (Link t)) \<Longrightarrow> path_exists fs p \<longleftrightarrow> fs_lookup fs p \<noteq> None"
  using resolve_dirs [of fs p] by (simp add: path_exists_def)

lemma remove_file_dirs:
  assumes "dirs_above fs p" "p \<noteq> []" "fs_lookup fs p = Some (File b)"
  shows "\<exists>fs1. remove_file p fs = (Inr (), fs1) \<and> changes_at p None fs fs1"
  using resolve_parent_dirs [OF assms(1,2)] changes_at_drop [OF assms(2)] assms(3) by (simp add: remove_file_def)

lemma changes_frame:
  assumes "changes_at p x fs fs'" "p \<noteq> dir" "\<And>name. p \<noteq> dir @ [name]"
  shows "plain_dir dir fs' \<longleftrightarrow> plain_dir dir fs" "file_map dir fs' = file_map dir fs"
proof -
  have "fs_lookup fs' dir = fs_lookup fs dir" "fs_lookup fs' (dir @ [name]) = fs_lookup fs (dir @ [name])" for name
    using assms by (metis changes_at_def)+
  then show "plain_dir dir fs' \<longleftrightarrow> plain_dir dir fs" "file_map dir fs' = file_map dir fs"
    by (simp_all add: plain_dir_def file_map_def fun_eq_iff)
qed

text \<open>The directory itself may be made, and a file in it created or removed.\<close>

lemma changes_dir:
  assumes "changes_at dir (Some Dir) fs fs'" "plain_dir dir fs"
  shows "plain_dir dir fs'" "file_map dir fs' = file_map dir fs" "fs_lookup fs' dir = Some Dir"
  using assms by (auto simp: plain_dir_def file_map_def changes_at_def fun_eq_iff)

lemma changes_file:
  assumes "changes_at (dir @ [name]) x fs fs'" "plain_dir dir fs" "valid_name name"
    and "x = None \<or> (\<exists>b. x = Some (File b)) \<and> fs_lookup fs dir = Some Dir"
  shows "plain_dir dir fs'" "file_map dir fs' = (file_map dir fs)(name := (case x of Some (File b) \<Rightarrow> Some b | _ \<Rightarrow> None))"
    "fs_lookup fs' dir = fs_lookup fs dir"
  using assms by (auto simp: plain_dir_def file_map_def changes_at_def fun_eq_iff)

lemma plain_dir_lookup:
  assumes "plain_dir dir fs" "valid_name name"
  shows "fs_lookup fs (dir @ [name]) = map_option File (file_map dir fs name)"
  using assms by (auto simp: plain_dir_def file_map_def split: option.splits fs_node.splits)

lemma plain_dir_above:
  assumes "dirs_above fs r" "fs_lookup fs r = Some Dir" "d \<noteq> ''..''" "plain_dir (r @ [d]) fs" "valid_name name"
    and "fs_lookup fs (r @ [d]) = Some Dir \<or> file_map (r @ [d]) fs name \<noteq> None"
  shows "dirs_above fs ((r @ [d]) @ [name])"
proof -
  have "fs_lookup fs (r @ [d]) = Some Dir"
    using assms(4-6) by (auto simp: plain_dir_def file_map_def split: option.splits)
  then show ?thesis using assms(1-3,5) valid_name_plain dirs_above_snoc by blast
qed

text \<open>A name that is not there cannot be read, even while its directory is missing.\<close>

lemma missing_not_found:
  assumes "dirs_above fs r" "fs_lookup fs r = Some Dir" "d \<noteq> ''..''" "plain_dir (r @ [d]) fs" "valid_name name"
    and "file_map (r @ [d]) fs name = None"
  shows "read_file fs ((r @ [d]) @ [name]) = None \<and> \<not> path_exists fs ((r @ [d]) @ [name])"
proof (cases "fs_lookup fs (r @ [d]) = Some Dir")
  case True
  then have da: "dirs_above fs ((r @ [d]) @ [name])" using plain_dir_above assms by blast
  then show ?thesis
    using plain_dir_lookup [OF assms(4,5)] assms(6) read_file_dirs [OF da] path_exists_dirs [OF da] by simp
next
  case False
  then have none: "fs_lookup fs (r @ [d]) = None" using assms(4) by (simp add: plain_dir_def)
  have step: "resolve_from fs n at (cs @ [d, name]) = None"
    if "''..'' \<notin> set cs" "r = at @ cs" for n at cs
    using that assms(1-3) none
  proof (induction cs arbitrary: at)
    case Nil
    then show ?case by (simp add: resolve_from.simps)
  next
    case (Cons c cs)
    have "fs_lookup fs (at @ [c]) = Some Dir"
    proof (cases "cs = []")
      case False
      then have "length (at @ [c]) < length r" using Cons.prems(2) by simp
      moreover have "take (length (at @ [c])) r = at @ [c]" using Cons.prems(2) by simp
      ultimately show ?thesis using Cons.prems(3) by (metis dirs_above_def)
    qed (use Cons.prems in simp)
    moreover have "resolve_from fs n (at @ [c]) (cs @ [d, name]) = None"
      by (rule Cons.IH) (use Cons.prems in auto)
    moreover have "c \<noteq> ''..''" using Cons.prems(1) by auto
    ultimately show ?case by (simp add: resolve_from.simps)
  qed
  have "''..'' \<notin> set r" using assms(1) by (simp add: dirs_above_def)
  then have "resolve fs ((r @ [d]) @ [name]) = None" using step [of r "[]"] by (simp add: resolve_def)
  then show ?thesis by (simp add: read_file_def path_exists_def)
qed

section \<open>One directory of named files\<close>

lemma dir_names: "SECRETS_DIR \<noteq> ''..''" "CONFIGS_DIR \<noteq> ''..''" "SECRETS_DIR \<noteq> CONFIGS_DIR"
  "SECRETS_DIR \<noteq> SECRET_KEY_FILE" "CONFIGS_DIR \<noteq> SECRET_KEY_FILE" "SECRET_KEY_FILE \<noteq> ''..''"
  by (simp_all add: SECRETS_DIR_def CONFIGS_DIR_def SECRET_KEY_FILE_def)

lemma create_named:
  assumes root: "dirs_above fs r" "fs_lookup fs r = Some Dir" "d \<noteq> ''..''" and dir: "plain_dir (r @ [d]) fs"
    "fs_lookup fs (r @ [d]) = Some Dir" and valid: "valid_name name"
  shows "file_map (r @ [d]) fs name = None \<Longrightarrow>
      \<exists>fs1. create_new ((r @ [d]) @ [name]) mode data fs = (Inr (), fs1) \<and>
        changes_at ((r @ [d]) @ [name]) (Some (File data)) fs fs1"
    and "file_map (r @ [d]) fs name \<noteq> None \<Longrightarrow> \<exists>e. create_new ((r @ [d]) @ [name]) mode data fs = (Inl e, fs)"
proof -
  have da: "dirs_above fs ((r @ [d]) @ [name])" using plain_dir_above root dir valid by blast
  show "file_map (r @ [d]) fs name = None \<Longrightarrow>
      \<exists>fs1. create_new ((r @ [d]) @ [name]) mode data fs = (Inr (), fs1) \<and>
        changes_at ((r @ [d]) @ [name]) (Some (File data)) fs fs1"
    using create_new_dirs(1) [OF da, of mode data] plain_dir_lookup [OF dir(1) valid] by simp
  show "file_map (r @ [d]) fs name \<noteq> None \<Longrightarrow> \<exists>e. create_new ((r @ [d]) @ [name]) mode data fs = (Inl e, fs)"
    using create_new_dirs(2) [OF da, of mode data] plain_dir_lookup [OF dir(1) valid] by auto
qed

lemma read_named:
  assumes "dirs_above fs r" "fs_lookup fs r = Some Dir" "d \<noteq> ''..''" "plain_dir (r @ [d]) fs" "valid_name name"
  shows "read_file fs ((r @ [d]) @ [name]) = file_map (r @ [d]) fs name"
proof (cases "file_map (r @ [d]) fs name")
  case None
  then show ?thesis using missing_not_found [OF assms] by simp
next
  case (Some b)
  then have "dirs_above fs ((r @ [d]) @ [name])" using plain_dir_above assms by blast
  then show ?thesis using read_file_dirs plain_dir_lookup [OF assms(4,5)] Some by simp
qed

lemma remove_named_refines:
  assumes "dirs_above fs r" "fs_lookup fs r = Some Dir" "d \<noteq> ''..''" "plain_dir (r @ [d]) fs"
  shows "file_map (r @ [d]) fs name = None \<Longrightarrow> \<exists>e. remove_named (r @ [d]) name fs = (Inl e, fs)"
    and "file_map (r @ [d]) fs name \<noteq> None \<Longrightarrow> \<exists>fs1. remove_named (r @ [d]) name fs = (Inr (), fs1) \<and>
      changes_at ((r @ [d]) @ [name]) None fs fs1"
proof -
  show "\<exists>e. remove_named (r @ [d]) name fs = (Inl e, fs)" if none: "file_map (r @ [d]) fs name = None"
  proof (cases "valid_name name")
    case True
    then show ?thesis using missing_not_found [OF assms True none] by (simp add: remove_named_def)
  qed (use sanitize_invalid [of name] in \<open>auto simp: remove_named_def\<close>)
  assume some: "file_map (r @ [d]) fs name \<noteq> None"
  then have valid: "valid_name name" by (auto simp: file_map_def split: if_splits)
  have da: "dirs_above fs ((r @ [d]) @ [name])" using plain_dir_above assms valid some by blast
  obtain b where b: "fs_lookup fs ((r @ [d]) @ [name]) = Some (File b)"
    using some plain_dir_lookup [OF assms(4) valid] by auto
  then show "\<exists>fs1. remove_named (r @ [d]) name fs = (Inr (), fs1) \<and> changes_at ((r @ [d]) @ [name]) None fs fs1"
    using remove_file_dirs [OF da _ b] path_exists_dirs [OF da] valid by (simp add: remove_named_def)
qed

section \<open>The relation between files and maps\<close>

definition key_ok :: "secret_store \<Rightarrow> host_fs \<Rightarrow> bool" where
  "key_ok ss fs \<longleftrightarrow>
    (fs_lookup fs (key_path ss) = None \<and> key_cache ss = None \<or>
     (\<exists>k. fs_lookup fs (key_path ss) = Some (File k) \<and> length k = 32 \<and> (key_cache ss = None \<or> key_cache ss = Some k)))"

definition opens :: "cipher \<Rightarrow> secret_store \<Rightarrow> host_fs \<Rightarrow> bytes \<Rightarrow> bytes \<Rightarrow> bool" where
  "opens C ss fs b p \<longleftrightarrow> NONCE_LEN \<le> length b \<and>
    (\<exists>k. fs_lookup fs (key_path ss) = Some (File k) \<and> gcm_decrypt C k (take NONCE_LEN b) (drop NONCE_LEN b) = Inr p)"

lemma opens_cong: "fs_lookup fs' (key_path ss) = fs_lookup fs (key_path ss) \<Longrightarrow> opens C ss fs' = opens C ss fs"
  by (simp add: opens_def fun_eq_iff)

definition refines :: "cipher \<Rightarrow> secret_store \<times> host_fs \<Rightarrow> secret_spec \<Rightarrow> bool" where
  "refines C = (\<lambda>(ss, fs) (sec, conf). root_ok (ss_root ss) fs \<and> key_ok ss fs \<and> conf = file_map (configs_dir ss) fs \<and>
     (\<forall>name. rel_option (opens C ss fs) (file_map (secrets_dir ss) fs name) (sec name)))"

lemma root_okD:
  assumes "root_ok (ss_root ss) fs"
  shows "dirs_above fs (ss_root ss)" "fs_lookup fs (ss_root ss) = Some Dir" "plain_dir (secrets_dir ss) fs"
    "plain_dir (configs_dir ss) fs" "dirs_above fs (key_path ss)"
  using assms dir_names by (auto simp: root_ok_def secrets_dir_def configs_dir_def key_path_def dirs_above_snoc)

lemma root_changes:
  assumes "changes_at p x fs fs'" "root_ok (ss_root ss) fs" "fs_lookup fs p \<noteq> Some Dir \<or> x = Some Dir"
    and "plain_dir (secrets_dir ss) fs'" "plain_dir (configs_dir ss) fs'"
  shows "root_ok (ss_root ss) fs'"
proof -
  have "fs_lookup fs' q = Some Dir" if "fs_lookup fs q = Some Dir" for q
    using assms(1,3) that by (auto simp: changes_at_def)
  then show ?thesis using assms(2,4,5) by (auto simp: root_ok_def secrets_dir_def configs_dir_def dirs_above_def)
qed

lemma load_key:
  assumes "root_ok (ss_root ss) fs" "key_ok ss fs" "length fresh = 32"
  shows "\<exists>k fs'. load_or_generate_key fresh ss fs = (Inr k, ss\<lparr>key_cache := Some k\<rparr>, fs') \<and> length k = 32 \<and>
    changes_at (key_path ss) (Some (File k)) fs fs'"
proof (cases "fs_lookup fs (key_path ss)")
  case None
  note r = root_okD [OF assms(1)]
  have "create_dir_all (ss_root ss) fs = (Inr (), fs)" using create_dir_existing r(1,2) by blast
  moreover have "\<not> path_exists fs (key_path ss)" using path_exists_dirs [OF r(5)] None by simp
  moreover have "key_path ss \<noteq> []" by (simp add: key_path_def)
  ultimately show ?thesis
    using create_new_dirs(1) [OF r(5), of "Some 384" fresh] None assms(2,3)
    by (auto simp: load_or_generate_key_def key_ok_def)
next
  case (Some x)
  then obtain k where k: "fs_lookup fs (key_path ss) = Some (File k)" "length k = 32"
    "key_cache ss = None \<or> key_cache ss = Some k"
    using assms(2) by (auto simp: key_ok_def)
  note r = root_okD [OF assms(1)]
  have "path_exists fs (key_path ss)" "read_file fs (key_path ss) = Some k"
    using path_exists_dirs [OF r(5)] read_file_dirs [OF r(5)] k(1) by simp_all
  then have "load_or_generate_key fresh ss fs = (Inr k, ss\<lparr>key_cache := Some k\<rparr>, fs)"
    using k(2,3) by (auto simp: load_or_generate_key_def)
  moreover have "changes_at (key_path ss) (Some (File k)) fs fs" using k(1) by (simp add: changes_at_def)
  ultimately show ?thesis using k(2) by blast
qed

text \<open>Reading or making the key leaves the rest of the store alone.\<close>

lemma key_change:
  assumes "changes_at (key_path ss) (Some (File k)) fs fs'" "length k = 32" "refines C (ss, fs) (sec, conf)"
    and "fs_lookup fs (key_path ss) = None \<or> fs_lookup fs (key_path ss) = Some (File k)"
  shows "refines C (ss\<lparr>key_cache := Some k\<rparr>, fs') (sec, conf)"
proof -
  have ref: "root_ok (ss_root ss) fs" "key_ok ss fs" "conf = file_map (configs_dir ss) fs"
    "\<forall>name. rel_option (opens C ss fs) (file_map (secrets_dir ss) fs name) (sec name)"
    using assms(3) by (simp_all add: refines_def)
  have ne: "key_path ss \<noteq> secrets_dir ss" "key_path ss \<noteq> configs_dir ss" "key_path ss \<noteq> secrets_dir ss @ [name]"
    "key_path ss \<noteq> configs_dir ss @ [name]" for name
    using dir_names by (auto simp: key_path_def secrets_dir_def configs_dir_def)
  note sec = changes_frame [OF assms(1) ne(1,3)] and conf = changes_frame [OF assms(1) ne(2,4)]
  have lookup: "fs_lookup fs' (key_path ss) = Some (File k)" using assms(1) by (simp add: changes_at_def)
  have opens: "opens C (ss\<lparr>key_cache := Some k\<rparr>) fs' b p" if "opens C ss fs b p" for b p
    using that lookup assms(4) by (auto simp: opens_def key_path_def)
  have "root_ok (ss_root ss) fs'"
    by (rule root_changes [OF assms(1) ref(1)]) (use assms(4) root_okD [OF ref(1)] sec conf in auto)
  moreover have "key_ok (ss\<lparr>key_cache := Some k\<rparr>) fs'" using lookup assms(2) by (simp add: key_ok_def key_path_def)
  moreover have "\<forall>name. rel_option (opens C (ss\<lparr>key_cache := Some k\<rparr>) fs') (file_map (secrets_dir ss) fs' name) (sec name)"
    using ref(4) opens sec(2) by (metis option.rel_mono_strong)
  ultimately show ?thesis
    using ref(3) conf(2) by (simp add: refines_def secrets_dir_def configs_dir_def)
qed

lemma load_key_refines:
  assumes "refines C (ss, fs) (sec, conf)" "length fresh = 32"
  shows "\<exists>k fs'. load_or_generate_key fresh ss fs = (Inr k, ss\<lparr>key_cache := Some k\<rparr>, fs') \<and> length k = 32 \<and>
    fs_lookup fs' (key_path ss) = Some (File k) \<and> refines C (ss\<lparr>key_cache := Some k\<rparr>, fs') (sec, conf) \<and>
    (\<forall>q. q \<noteq> key_path ss \<longrightarrow> fs_lookup fs' q = fs_lookup fs q)"
proof -
  have ref: "root_ok (ss_root ss) fs" "key_ok ss fs" using assms(1) by (simp_all add: refines_def)
  obtain k fs' where k: "load_or_generate_key fresh ss fs = (Inr k, ss\<lparr>key_cache := Some k\<rparr>, fs')" "length k = 32"
    "changes_at (key_path ss) (Some (File k)) fs fs'"
    using load_key [OF ref assms(2)] by blast
  have "fs_lookup fs (key_path ss) = None \<or> fs_lookup fs (key_path ss) = Some (File k)"
  proof (rule ccontr)
    assume other: "\<not> (fs_lookup fs (key_path ss) = None \<or> fs_lookup fs (key_path ss) = Some (File k))"
    then obtain k' where k': "fs_lookup fs (key_path ss) = Some (File k')" "length k' = 32"
      "key_cache ss = None \<or> key_cache ss = Some k'"
      using ref(2) by (auto simp: key_ok_def)
    have "path_exists fs (key_path ss)" "read_file fs (key_path ss) = Some k'"
      using path_exists_dirs [OF root_okD(5) [OF ref(1)]] read_file_dirs [OF root_okD(5) [OF ref(1)]] k'(1) by simp_all
    then have "k = k'" using k(1) k'(2,3) by (auto simp: load_or_generate_key_def split: option.splits)
    then show False using other k'(1) by simp
  qed
  then show ?thesis
    using key_change [OF k(3,2) assms(1)] k by (auto simp: changes_at_def)
qed

text \<open>Making the directory of the secrets or of the configurations.\<close>

lemma dir_change:
  assumes "changes_at dir (Some Dir) fs fs'" "refines C (ss, fs) (sec, conf)"
    and "dir = secrets_dir ss \<or> dir = configs_dir ss"
  shows "refines C (ss, fs') (sec, conf)"
proof -
  have ref: "root_ok (ss_root ss) fs" "key_ok ss fs" "conf = file_map (configs_dir ss) fs"
    "\<forall>name. rel_option (opens C ss fs) (file_map (secrets_dir ss) fs name) (sec name)"
    using assms(2) by (simp_all add: refines_def)
  note r = root_okD [OF ref(1)]
  have ne: "secrets_dir ss \<noteq> configs_dir ss" "secrets_dir ss \<noteq> configs_dir ss @ [name]"
    "configs_dir ss \<noteq> secrets_dir ss @ [name]" for name
    using dir_names by (auto simp: secrets_dir_def configs_dir_def)
  have kept: "plain_dir (secrets_dir ss) fs'" "file_map (secrets_dir ss) fs' = file_map (secrets_dir ss) fs"
    "plain_dir (configs_dir ss) fs'" "file_map (configs_dir ss) fs' = file_map (configs_dir ss) fs"
    using assms(1,3) changes_dir changes_frame r(3,4) ne by metis+
  have "key_path ss \<noteq> dir" using assms(3) dir_names by (auto simp: key_path_def secrets_dir_def configs_dir_def)
  then have key: "fs_lookup fs' (key_path ss) = fs_lookup fs (key_path ss)" using assms(1) by (simp add: changes_at_def)
  have "root_ok (ss_root ss) fs'" by (rule root_changes [OF assms(1) ref(1)]) (use kept in auto)
  then show ?thesis using ref kept key opens_cong [OF key] by (simp add: refines_def key_ok_def)
qed

text \<open>Creating or removing one file of one of the directories.\<close>

lemma secret_change:
  assumes "changes_at (secrets_dir ss @ [name]) x fs fs'" "refines C (ss, fs) (sec, conf)" "valid_name name"
    and "x = None \<and> y = None \<or> (\<exists>b p. x = Some (File b) \<and> y = Some p \<and> opens C ss fs b p) \<and> fs_lookup fs (secrets_dir ss) = Some Dir"
  shows "refines C (ss, fs') (sec(name := y), conf)"
proof -
  have ref: "root_ok (ss_root ss) fs" "key_ok ss fs" "conf = file_map (configs_dir ss) fs"
    "\<forall>name. rel_option (opens C ss fs) (file_map (secrets_dir ss) fs name) (sec name)"
    using assms(2) by (simp_all add: refines_def)
  note r = root_okD [OF ref(1)]
  have ne: "secrets_dir ss @ [name] \<noteq> configs_dir ss" "secrets_dir ss @ [name] \<noteq> configs_dir ss @ [m]" for m
    using dir_names by (auto simp: secrets_dir_def configs_dir_def)
  have x: "x = None \<or> (\<exists>b. x = Some (File b)) \<and> fs_lookup fs (secrets_dir ss) = Some Dir" using assms(4) by blast
  note sec = changes_file [OF assms(1) r(3) assms(3) x] and conf = changes_frame [OF assms(1) ne]
  have "key_path ss \<noteq> secrets_dir ss @ [name]" using dir_names by (auto simp: key_path_def secrets_dir_def)
  then have key: "fs_lookup fs' (key_path ss) = fs_lookup fs (key_path ss)" using assms(1) by (simp add: changes_at_def)
  have "fs_lookup fs (secrets_dir ss @ [name]) \<noteq> Some Dir" using plain_dir_lookup [OF r(3) assms(3)] by simp
  then have "root_ok (ss_root ss) fs'" using root_changes [OF assms(1) ref(1)] sec conf r by blast
  moreover have "rel_option (opens C ss fs') (file_map (secrets_dir ss) fs' m) ((sec(name := y)) m)" for m
    using ref(4) assms(4) sec(2) opens_cong [OF key] by auto
  ultimately show ?thesis using ref conf key by (simp add: refines_def key_ok_def)
qed

lemma config_change:
  assumes "changes_at (configs_dir ss @ [name]) x fs fs'" "refines C (ss, fs) (sec, conf)" "valid_name name"
    and "x = None \<and> y = None \<or> (\<exists>b. x = Some (File b) \<and> y = Some b) \<and> fs_lookup fs (configs_dir ss) = Some Dir"
  shows "refines C (ss, fs') (sec, conf(name := y))"
proof -
  have ref: "root_ok (ss_root ss) fs" "key_ok ss fs" "conf = file_map (configs_dir ss) fs"
    "\<forall>name. rel_option (opens C ss fs) (file_map (secrets_dir ss) fs name) (sec name)"
    using assms(2) by (simp_all add: refines_def)
  note r = root_okD [OF ref(1)]
  have ne: "configs_dir ss @ [name] \<noteq> secrets_dir ss" "configs_dir ss @ [name] \<noteq> secrets_dir ss @ [m]" for m
    using dir_names by (auto simp: secrets_dir_def configs_dir_def)
  have x: "x = None \<or> (\<exists>b. x = Some (File b)) \<and> fs_lookup fs (configs_dir ss) = Some Dir" using assms(4) by blast
  note conf = changes_file [OF assms(1) r(4) assms(3) x] and sec = changes_frame [OF assms(1) ne]
  have "key_path ss \<noteq> configs_dir ss @ [name]" using dir_names by (auto simp: key_path_def configs_dir_def)
  then have key: "fs_lookup fs' (key_path ss) = fs_lookup fs (key_path ss)" using assms(1) by (simp add: changes_at_def)
  have "fs_lookup fs (configs_dir ss @ [name]) \<noteq> Some Dir" using plain_dir_lookup [OF r(4) assms(3)] by simp
  then have "root_ok (ss_root ss) fs'" using root_changes [OF assms(1) ref(1)] sec conf r by blast
  moreover have "file_map (configs_dir ss) fs' = conf(name := y)" using conf(2) ref(3) assms(4) by auto
  ultimately show ?thesis using ref sec key opens_cong [OF key] by (simp add: refines_def key_ok_def)
qed

section \<open>Every request refines its abstract counterpart\<close>

lemma refinesD:
  assumes "refines C (ss, fs) (sec, conf)"
  shows "root_ok (ss_root ss) fs" "conf = file_map (configs_dir ss) fs"
    "rel_option (opens C ss fs) (file_map (secrets_dir ss) fs name) (sec name)"
  using assms by (simp_all add: refines_def)

lemma secrets_dir_cache [simp]: "secrets_dir (ss\<lparr>key_cache := c\<rparr>) = secrets_dir ss" "configs_dir (ss\<lparr>key_cache := c\<rparr>) = configs_dir ss"
  "key_path (ss\<lparr>key_cache := c\<rparr>) = key_path ss"
  by (simp_all add: secrets_dir_def configs_dir_def key_path_def)

lemma create_secret_refines:
  assumes "refines C (ss, fs) (sec, conf)" "cipher_ok C" "length fresh = 32" "length nonce = NONCE_LEN" "length data < 2 ^ 36"
    and "create_secret C fresh nonce name data ss fs = (r, ss', fs')" "spec_create name data sec = (q, sec')"
  shows "reply_unit r = q \<and> refines C (ss', fs') (sec', conf)"
proof (cases "valid_name name")
  case valid: True
  note r = root_okD [OF refinesD(1) [OF assms(1)]]
  obtain fs1 where fs1: "create_dir_all (secrets_dir ss) fs = (Inr (), fs1)" "changes_at (secrets_dir ss) (Some Dir) fs fs1"
    using ensure_dir [OF r(1,2) dir_names(1)] r(3) unfolding secrets_dir_def plain_dir_def by blast
  have ref1: "refines C (ss, fs1) (sec, conf)" using dir_change [OF fs1(2) assms(1)] by simp
  obtain k fs2 where k: "load_or_generate_key fresh ss fs1 = (Inr k, ss\<lparr>key_cache := Some k\<rparr>, fs2)" "length k = 32"
    "fs_lookup fs2 (key_path ss) = Some (File k)" "refines C (ss\<lparr>key_cache := Some k\<rparr>, fs2) (sec, conf)"
    "\<forall>q. q \<noteq> key_path ss \<longrightarrow> fs_lookup fs2 q = fs_lookup fs1 q"
    using load_key_refines [OF ref1 assms(3)] by blast
  obtain c where c: "gcm_encrypt C k nonce data = Inr c" "gcm_decrypt C k nonce c = Inr data"
    using assms(2,4,5) k(2) unfolding cipher_ok_def by blast
  have dir: "fs_lookup fs2 (secrets_dir ss) = Some Dir" using k(5) fs1(2) dir_names by (simp add: changes_at_def secrets_dir_def key_path_def)
  note r2 = root_okD [OF refinesD(1) [OF k(4)]]
  have ss': "ss' = ss\<lparr>key_cache := Some k\<rparr>"
    using assms(6) valid fs1(1) k(1) c(1) by (auto simp: create_secret_def encrypt_def split: sum.splits prod.splits)
  have rel: "rel_option (opens C (ss\<lparr>key_cache := Some k\<rparr>) fs2) (file_map (secrets_dir ss) fs2 name) (sec name)"
    using refinesD(3) [OF k(4), of name] by simp
  show ?thesis
  proof (cases "sec name")
    case None
    then have "file_map (secrets_dir ss) fs2 name = None" using rel by (auto elim: option.rel_cases)
    then obtain fs3 where fs3: "create_new (secrets_dir ss @ [name]) (Some 384) (nonce @ c) fs2 = (Inr (), fs3)"
      "changes_at (secrets_dir ss @ [name]) (Some (File (nonce @ c))) fs2 fs3"
      using create_named(1) [of fs2 "ss_root ss" SECRETS_DIR name "Some 384" "nonce @ c"] r2 dir dir_names(1) valid
      by (auto simp: secrets_dir_def)
    have "opens C (ss\<lparr>key_cache := Some k\<rparr>) fs2 (nonce @ c) data" using c(2) k(3) assms(4) by (simp add: opens_def)
    then have "refines C (ss\<lparr>key_cache := Some k\<rparr>, fs3) (sec(name := Some data), conf)"
      using secret_change [OF _ k(4) valid] fs3(2) dir by auto
    moreover have "r = Inr ()" "fs' = fs3"
      using assms(6) valid fs1(1) k(1) c(1) fs3(1) by (simp_all add: create_secret_def encrypt_def)
    ultimately show ?thesis using assms(7) None valid ss' by (simp add: spec_create_def)
  next
    case (Some p)
    then have "file_map (secrets_dir ss) fs2 name \<noteq> None" using rel by (auto elim: option.rel_cases)
    then obtain e where e: "create_new (secrets_dir ss @ [name]) (Some 384) (nonce @ c) fs2 = (Inl e, fs2)"
      using create_named(2) [of fs2 "ss_root ss" SECRETS_DIR name "Some 384" "nonce @ c"] r2 dir dir_names(1) valid
      by (auto simp: secrets_dir_def)
    then have "\<exists>e'. r = Inl e'" "fs' = fs2"
      using assms(6) valid fs1(1) k(1) c(1) by (auto simp: create_secret_def encrypt_def)
    then show ?thesis using assms(7) Some k(4) ss' by (auto simp: spec_create_def)
  qed
next
  case False
  then show ?thesis using assms(1,6,7) sanitize_invalid [OF False] by (auto simp: create_secret_def spec_create_def)
qed

lemma read_secret_refines:
  assumes "refines C (ss, fs) (sec, conf)" "length fresh = 32" "read_secret_raw C fresh name ss fs = (r, ss', fs')"
  shows "reply_bytes r = spec_read name sec \<and> refines C (ss', fs') (sec, conf)"
proof (cases "valid_name name")
  case valid: True
  note r = root_okD [OF refinesD(1) [OF assms(1)]]
  have read: "read_file fs (secrets_dir ss @ [name]) = file_map (secrets_dir ss) fs name"
    using read_named [OF r(1,2) dir_names(1)] r(3) valid by (simp add: secrets_dir_def)
  note rel = refinesD(3) [OF assms(1), of name]
  show ?thesis
  proof (cases "sec name")
    case None
    then have "file_map (secrets_dir ss) fs name = None" using rel by (auto elim: option.rel_cases)
    then show ?thesis using assms(1,3) read valid None by (auto simp: read_secret_raw_def spec_read_def)
  next
    case (Some p)
    then obtain b where b: "file_map (secrets_dir ss) fs name = Some b" "opens C ss fs b p"
      using rel by (auto elim: option.rel_cases)
    obtain k fs2 where k: "load_or_generate_key fresh ss fs = (Inr k, ss\<lparr>key_cache := Some k\<rparr>, fs2)"
      "fs_lookup fs2 (key_path ss) = Some (File k)" "refines C (ss\<lparr>key_cache := Some k\<rparr>, fs2) (sec, conf)"
      "\<forall>q. q \<noteq> key_path ss \<longrightarrow> fs_lookup fs2 q = fs_lookup fs q"
      using load_key_refines [OF assms(1,2)] by blast
    obtain b' where b': "file_map (secrets_dir ss) fs2 name = Some b'" "opens C (ss\<lparr>key_cache := Some k\<rparr>) fs2 b' p"
      using refinesD(3) [OF k(3), of name] Some by (auto elim: option.rel_cases)
    have "fs_lookup fs2 (secrets_dir ss @ [name]) = fs_lookup fs (secrets_dir ss @ [name])"
      using k(4) by (simp add: secrets_dir_def key_path_def)
    then have "b' = b" using b(1) b'(1) valid by (simp add: file_map_def)
    then have "gcm_decrypt C k (take NONCE_LEN b) (drop NONCE_LEN b) = Inr p" "NONCE_LEN \<le> length b"
      using b'(2) k(2) by (auto simp: opens_def)
    then have "r = Inr p" "ss' = ss\<lparr>key_cache := Some k\<rparr>" "fs' = fs2"
      using assms(3) read valid b(1) k(1) by (simp_all add: read_secret_raw_def decrypt_def)
    then show ?thesis using k(3) Some by (simp add: spec_read_def)
  qed
next
  case False
  then have "sec name = None"
    using refinesD(3) [OF assms(1), of name] by (auto simp: file_map_def)
  then show ?thesis
    using assms(1,3) sanitize_invalid [OF False] by (auto simp: read_secret_raw_def spec_read_def)
qed

lemma remove_secret_refines:
  assumes "refines C (ss, fs) (sec, conf)" "remove_secret name ss fs = (r, fs')" "spec_remove name sec = (q, sec')"
  shows "reply_unit r = q \<and> refines C (ss, fs') (sec', conf)"
proof -
  note r = root_okD [OF refinesD(1) [OF assms(1)]]
  note rem = remove_named_refines [OF r(1,2) dir_names(1), folded secrets_dir_def, OF r(3), of name]
  note rel = refinesD(3) [OF assms(1), of name]
  show ?thesis
  proof (cases "sec name")
    case None
    then have "file_map (secrets_dir ss) fs name = None" using rel by (auto elim: option.rel_cases)
    then show ?thesis using rem(1) assms None by (auto simp: remove_secret_def spec_remove_def)
  next
    case (Some p)
    then have some: "file_map (secrets_dir ss) fs name \<noteq> None" using rel by (auto elim: option.rel_cases)
    then have "valid_name name" by (auto simp: file_map_def split: if_splits)
    then show ?thesis
      using rem(2) [OF some] secret_change [OF _ assms(1), of name None fs' None] assms(2,3) Some
      by (auto simp: remove_secret_def spec_remove_def)
  qed
qed

lemma create_config_refines:
  assumes "refines C (ss, fs) (sec, conf)" "create_config name data ss fs = (r, fs')" "spec_create name data conf = (q, conf')"
  shows "reply_unit r = q \<and> refines C (ss, fs') (sec, conf')"
proof (cases "valid_name name")
  case valid: True
  note r = root_okD [OF refinesD(1) [OF assms(1)]]
  obtain fs1 where fs1: "create_dir_all (configs_dir ss) fs = (Inr (), fs1)" "changes_at (configs_dir ss) (Some Dir) fs fs1"
    using ensure_dir [OF r(1,2) dir_names(2)] r(4) unfolding configs_dir_def plain_dir_def by blast
  have ref1: "refines C (ss, fs1) (sec, conf)" using dir_change [OF fs1(2) assms(1)] by simp
  have dir: "fs_lookup fs1 (configs_dir ss) = Some Dir" using fs1(2) by (simp add: changes_at_def)
  note r1 = root_okD [OF refinesD(1) [OF ref1]]
  note new = create_named [OF r1(1,2) dir_names(2), folded configs_dir_def, OF r1(4) dir valid, of None data]
  have conf: "conf name = file_map (configs_dir ss) fs1 name" using refinesD(2) [OF ref1] by simp
  show ?thesis
  proof (cases "conf name")
    case None
    then obtain fs2 where fs2: "create_new (configs_dir ss @ [name]) None data fs1 = (Inr (), fs2)"
      "changes_at (configs_dir ss @ [name]) (Some (File data)) fs1 fs2"
      using new(1) conf by auto
    then have "refines C (ss, fs2) (sec, conf(name := Some data))" using config_change [OF _ ref1 valid] dir by auto
    then show ?thesis using assms(2,3) None valid fs1(1) fs2(1) by (auto simp: create_config_def spec_create_def)
  next
    case (Some b)
    then show ?thesis using new(2) conf assms(2,3) valid fs1(1) ref1 by (auto simp: create_config_def spec_create_def)
  qed
next
  case False
  then show ?thesis using assms sanitize_invalid [OF False] by (auto simp: create_config_def spec_create_def)
qed

lemma read_config_refines:
  assumes "refines C (ss, fs) (sec, conf)"
  shows "reply_bytes (read_config_raw name ss fs) = spec_read name conf"
proof (cases "valid_name name")
  case True
  note r = root_okD [OF refinesD(1) [OF assms]]
  have "read_file fs (configs_dir ss @ [name]) = conf name"
    using read_named [OF r(1,2) dir_names(2)] r(4) True refinesD(2) [OF assms] by (simp add: configs_dir_def)
  then show ?thesis using True by (simp add: read_config_raw_def spec_read_def split: option.splits)
next
  case False
  then have "conf name = None" using refinesD(2) [OF assms] by (simp add: file_map_def)
  then show ?thesis using sanitize_invalid [OF False] by (auto simp: read_config_raw_def spec_read_def)
qed

lemma remove_config_refines:
  assumes "refines C (ss, fs) (sec, conf)" "remove_config name ss fs = (r, fs')" "spec_remove name conf = (q, conf')"
  shows "reply_unit r = q \<and> refines C (ss, fs') (sec, conf')"
proof -
  note r = root_okD [OF refinesD(1) [OF assms(1)]]
  note rem = remove_named_refines [OF r(1,2) dir_names(2), folded configs_dir_def, OF r(4), of name]
  have conf: "conf name = file_map (configs_dir ss) fs name" using refinesD(2) [OF assms(1)] by simp
  show ?thesis
  proof (cases "conf name")
    case None
    then show ?thesis using rem(1) conf assms by (auto simp: remove_config_def spec_remove_def)
  next
    case (Some b)
    then have some: "file_map (configs_dir ss) fs name \<noteq> None" using conf by simp
    then have "valid_name name" by (auto simp: file_map_def split: if_splits)
    then show ?thesis
      using rem(2) [OF some] config_change [OF _ assms(1), of name None fs' None] assms(2,3) Some
      by (auto simp: remove_config_def spec_remove_def)
  qed
qed

lemma serve_refines:
  assumes "refines C st m" "cipher_ok C" "wf_op op" "serve C op st = (r, st')" "spec_serve op m = (q, m')"
  shows "r = q \<and> refines C st' m'"
proof -
  obtain ss fs sec conf where [simp]: "st = (ss, fs)" "m = (sec, conf)" by (cases st; cases m) simp
  obtain ss' fs' where [simp]: "st' = (ss', fs')" by (cases st') simp
  note ref = assms(1) [unfolded \<open>st = (ss, fs)\<close> \<open>m = (sec, conf)\<close>]
  show ?thesis
  proof (cases op)
    case (CreateSecret fresh nonce name data)
    then show ?thesis
      using create_secret_refines [OF ref assms(2), of fresh nonce data name] assms(3-5) by (auto split: prod.splits)
  next
    case (ReadSecret fresh name)
    then show ?thesis using read_secret_refines [OF ref, of fresh name] assms(3-5) by (auto split: prod.splits)
  next
    case (RemoveSecret name)
    then show ?thesis using remove_secret_refines [OF ref, of name] assms(4,5) by (auto split: prod.splits)
  next
    case (CreateConfig name data)
    then show ?thesis using create_config_refines [OF ref, of name data] assms(4,5) by (auto split: prod.splits)
  next
    case (ReadConfig name)
    then show ?thesis using read_config_refines [OF ref, of name] ref assms(4,5) by auto
  next
    case (RemoveConfig name)
    then show ?thesis using remove_config_refines [OF ref, of name] assms(4,5) by (auto split: prod.splits)
  next
    case Restart
    have "opens C (ss\<lparr>key_cache := None\<rparr>) fs = opens C ss fs" by (simp add: opens_def fun_eq_iff)
    then have "refines C (ss\<lparr>key_cache := None\<rparr>, fs) (sec, conf)" using ref by (auto simp: refines_def key_ok_def)
    then show ?thesis using Restart assms(4,5) by auto
  qed
qed

text \<open>
  C10: the secret store is two maps.  Started on a root directory without a key,
  secrets or configurations, any sequence of requests, with restarts of the daemon
  in between, is answered exactly as two maps from valid names to contents would
  answer it: a created secret or configuration is read back unchanged until it is
  removed, whatever is created, removed or restarted meanwhile, a taken or invalid
  name is refused, and no request changes another name or the other kind.
\<close>

theorem secrets_refine_maps:
  assumes "cipher_ok C" "root_ok r fs" "fs_lookup fs (r @ [SECRET_KEY_FILE]) = None"
    and "fs_lookup fs (r @ [SECRETS_DIR]) = None" "fs_lookup fs (r @ [CONFIGS_DIR]) = None" "list_all wf_op ops"
  shows "serve_all C ops (secret_store_new r, fs) = spec_all ops (\<lambda>_. None, \<lambda>_. None)"
proof -
  have all: "serve_all C ops st = spec_all ops m" if "refines C st m" for st m
    using that assms(6)
  proof (induction ops arbitrary: st m)
    case (Cons op ops)
    obtain r st' q m' where step: "serve C op st = (r, st')" "spec_serve op m = (q, m')" by (metis surj_pair)
    then show ?case using serve_refines [OF Cons.prems(1) assms(1) _ step] Cons by simp
  qed simp
  have "file_map (r @ [d]) fs = (\<lambda>_. None)" if "d = SECRETS_DIR \<or> d = CONFIGS_DIR" for d
    using that assms(2,4,5) by (auto simp: file_map_def root_ok_def plain_dir_def fun_eq_iff)
  then have "refines C (secret_store_new r, fs) (\<lambda>_. None, \<lambda>_. None)"
    using assms(2,3) by (simp add: refines_def secret_store_new_def key_ok_def key_path_def configs_dir_def secrets_dir_def)
  then show ?thesis by (rule all)
qed

text \<open>An instance: a cipher that adds the first byte of the key, and a store below one directory.\<close>

definition sample_cipher :: cipher where
  "sample_cipher = \<lparr>gcm_encrypt = (\<lambda>k n p. Inr (map (\<lambda>b. b + hd k) p)), gcm_decrypt = (\<lambda>k n c. Inr (map (\<lambda>b. b - hd k) c))\<rparr>"

definition sample_root_fs :: host_fs where
  "sample_root_fs = \<lparr>fs_nodes = [([''store''], Dir)], fs_attrs = []\<rparr>"

definition sample_secret_ops :: "secret_op list" where
  "sample_secret_ops =
    [CreateSecret (replicate 32 7) (replicate 12 1) ''token'' [1, 2, 3], CreateConfig ''token'' [9], Restart,
     ReadSecret (replicate 32 5) ''token'', RemoveConfig ''token'', ReadConfig ''token'']"

lemma sample_cipher_ok: "cipher_ok sample_cipher"
  by (simp add: cipher_ok_def sample_cipher_def comp_def)

theorem secrets_refine_maps_witness:
  "serve_all sample_cipher sample_secret_ops (secret_store_new [''store''], sample_root_fs) =
    [Done, Done, Done, Content [1, 2, 3], Done, Failed]"
proof -
  have root: "root_ok [''store''] sample_root_fs"
    by (auto simp: root_ok_def sample_root_fs_def dirs_above_def plain_dir_def fs_lookup_def)
  have "list_all wf_op sample_secret_ops" by (simp add: sample_secret_ops_def NONCE_LEN_def)
  from secrets_refine_maps [OF sample_cipher_ok root _ _ _ this]
  have "serve_all sample_cipher sample_secret_ops (secret_store_new [''store''], sample_root_fs) =
      spec_all sample_secret_ops (\<lambda>_. None, \<lambda>_. None)"
    by (simp add: sample_root_fs_def fs_lookup_def)
  also have "\<dots> = [Done, Done, Done, Content [1, 2, 3], Done, Failed]"
  proof -
    have "valid_name ''token''" by code_simp
    then show ?thesis by (simp add: sample_secret_ops_def spec_create_def spec_read_def spec_remove_def)
  qed
  finally show ?thesis .
qed

end
