(* ===== verification/Runtime_State.thy ===== *)
theory Runtime_State
  imports Workload_Types Secrets Materializer Gc
begin

text \<open>
  The state of the runtime service, \<^verbatim>\<open>RuntimeService\<close> of
  \<^verbatim>\<open>pullrun-runtime/src/service.rs\<close>, its executors and what all requests share:
  tags, checkpoints, events, the policy gates and the walk behind \<^verbatim>\<open>inspect\<close>.

  The container and virtual machine executors are interfaces (the trait
  \<^verbatim>\<open>Executor\<close>) over a state of their own; the router that chooses between them is
  modelled.  Saved tags and checkpoints are kept as data, without their JSON text.
  The model is that of a Linux build.
\<close>

section \<open>Executors\<close>

record exec_output =
  eo_exit_code :: int
  eo_stdout :: bytes
  eo_stderr :: bytes

record 'x executor =
  ex_create :: "run_spec \<Rightarrow> 'x \<Rightarrow> (exec_error + process_handle) \<times> 'x"
  ex_start :: "process_handle \<Rightarrow> 'x \<Rightarrow> (exec_error + process_handle) \<times> 'x"
  ex_stop :: "string \<Rightarrow> 'x \<Rightarrow> (exec_error + unit) \<times> 'x"
  ex_wait :: "string \<Rightarrow> 'x \<Rightarrow> (exec_error + int) \<times> 'x"
  ex_status :: "string \<Rightarrow> 'x \<Rightarrow> (exec_error + string) \<times> 'x"
  ex_update :: "string \<Rightarrow> u64 option \<Rightarrow> u64 option \<Rightarrow> 'x \<Rightarrow> (exec_error + unit) \<times> 'x"
  ex_exec :: "string \<Rightarrow> string list \<Rightarrow> u64 \<Rightarrow> 'x \<Rightarrow> (exec_error + exec_output) \<times> 'x"

text \<open>
  The configured executors; whether the daemon runs as root, whether the rootless
  executor has a bundle directory for an id, and whether the VM executor has a
  sidecar file for it.
\<close>

record 'x executor_router =
  er_container :: "'x executor"
  er_rootless :: "'x executor option"
  er_vm :: "'x executor option"
  er_is_root :: bool
  er_has_bundle :: "string \<Rightarrow> 'x \<Rightarrow> bool"
  er_has_sidecar :: "string \<Rightarrow> 'x \<Rightarrow> bool"

definition router_create :: "'x executor_router \<Rightarrow> run_spec \<Rightarrow> 'x \<Rightarrow> (exec_error + process_handle) \<times> 'x" where
  "router_create r spec x =
    (case rs_backend spec of
       ContainerBackend \<Rightarrow>
         (case er_rootless r of
            Some e \<Rightarrow> if \<not> er_is_root r then ex_create e spec x else ex_create (er_container r) spec x
          | None \<Rightarrow> ex_create (er_container r) spec x)
     | ContainerRootless \<Rightarrow>
         (case er_rootless r of
            Some e \<Rightarrow> ex_create e spec x
          | None \<Rightarrow> (Inl (BackendNotAvailable ''Rootless container backend not configured''), x))
     | Vm \<Rightarrow>
         (case er_vm r of
            Some e \<Rightarrow> ex_create e spec x
          | None \<Rightarrow> (Inl (BackendNotAvailable ''VM backend not configured''), x))
     | Sandbox \<Rightarrow> (Inl (BackendNotAvailable ''Sandbox backend is a Phase 5 stub''), x))"

definition router_start :: "'x executor_router \<Rightarrow> process_handle \<Rightarrow> 'x \<Rightarrow> (exec_error + process_handle) \<times> 'x" where
  "router_start r h x =
    (if ph_backend h = ''container'' then ex_start (er_container r) h x
     else if ph_backend h = ''container-rootless'' then
       (case er_rootless r of
          Some e \<Rightarrow> ex_start e h x
        | None \<Rightarrow> (Inl (BackendNotAvailable ''Rootless container backend not configured''), x))
     else if ph_backend h = ''vm'' then
       (case er_vm r of
          Some e \<Rightarrow> ex_start e h x
        | None \<Rightarrow> (Inl (BackendNotAvailable ''VM backend not configured''), x))
     else (Inl (BackendNotAvailable ''unknown backend in handle''), x))"

text \<open>The executor of an existing workload: rootless, then VM, then container.\<close>

definition executor_for :: "'x executor_router \<Rightarrow> string \<Rightarrow> 'x \<Rightarrow> 'x executor" where
  "executor_for r i x =
    (case er_rootless r of
       Some e \<Rightarrow>
         if er_has_bundle r i x then e
         else (case er_vm r of
                 Some v \<Rightarrow> if er_has_sidecar r i x then v else er_container r
               | None \<Rightarrow> er_container r)
     | None \<Rightarrow>
         (case er_vm r of
            Some v \<Rightarrow> if er_has_sidecar r i x then v else er_container r
          | None \<Rightarrow> er_container r))"

definition router_stop :: "'x executor_router \<Rightarrow> string \<Rightarrow> 'x \<Rightarrow> (exec_error + unit) \<times> 'x" where
  "router_stop r i x = ex_stop (executor_for r i x) i x"

definition router_wait :: "'x executor_router \<Rightarrow> string \<Rightarrow> 'x \<Rightarrow> (exec_error + int) \<times> 'x" where
  "router_wait r i x = ex_wait (executor_for r i x) i x"

definition router_status :: "'x executor_router \<Rightarrow> string \<Rightarrow> 'x \<Rightarrow> (exec_error + string) \<times> 'x" where
  "router_status r i x = ex_status (executor_for r i x) i x"

definition router_update ::
    "'x executor_router \<Rightarrow> string \<Rightarrow> u64 option \<Rightarrow> u64 option \<Rightarrow> 'x \<Rightarrow> (exec_error + unit) \<times> 'x" where
  "router_update r i cpu mem x = ex_update (executor_for r i x) i cpu mem x"

definition router_exec ::
    "'x executor_router \<Rightarrow> string \<Rightarrow> string list \<Rightarrow> u64 \<Rightarrow> 'x \<Rightarrow> (exec_error + exec_output) \<times> 'x" where
  "router_exec r i command timeout x = ex_exec (executor_for r i x) i command timeout x"

section \<open>State and configuration\<close>

record staged_kernel =
  sk_vmlinux_path :: string
  sk_root_digest :: "string option"
  sk_vmlinux_size :: u64

record service_config =
  cf_store_root :: path
  cf_bundle_root :: path
  cf_vm_root :: "path option"
  cf_policy_engine :: "policy_engine option"
  cf_insecure_registries :: "string list"

record 'x runtime =
  rt_store :: mmap_store
  rt_ops :: ops_dir
  rt_workloads :: "(string \<times> workload_state) list"
  rt_checkpoints :: "(string \<times> workload_state) list"
  rt_image_tags :: "(string \<times> string) list"
  rt_saved_tags :: "(string \<times> string) list"
  rt_events :: "event list"
  rt_kernel_cache :: "(string \<times> staged_kernel) list"
  rt_rootfs_cache :: "(string \<times> path) list"
  rt_secrets :: secret_store
  rt_fs :: host_fs
  rt_exec :: 'x

text \<open>
  What the service takes from outside: hashing and codecs, the cipher, the router,
  staging of a kernel image, registration of a foreign architecture, the
  architecture of the host, the working directory and fresh key bytes.
\<close>

record 'x runtime_env =
  re_ext :: ext
  re_conv :: conv_env
  re_policy :: policy_env
  re_cipher :: cipher
  re_router :: "'x executor_router"
  re_stage_kernel :: "string \<Rightarrow> mmap_store \<Rightarrow> (string + staged_kernel) \<times> mmap_store"
  re_binfmt :: "string \<Rightarrow> string + unit"
  re_host_arch :: string
  re_cwd :: path
  re_fresh_key :: bytes

text \<open>Chaining of steps that may end the request.\<close>

definition and_then ::
    "('e + 'a) \<times> 's \<Rightarrow> ('a \<Rightarrow> 's \<Rightarrow> ('e + 'b) \<times> 's) \<Rightarrow> ('e + 'b) \<times> 's" where
  "and_then r f = (case r of (Inl e, s) \<Rightarrow> (Inl e, s) | (Inr a, s) \<Rightarrow> f a s)"

lemma and_then_simps [simp]: "and_then (Inl e, s) f = (Inl e, s)" "and_then (Inr a, s) f = f a s"
  by (simp_all add: and_then_def)

lemma and_then_Inr:
  "and_then r f = (Inr b, s') \<longleftrightarrow> (\<exists>a s. r = (Inr a, s) \<and> f a s = (Inr b, s'))"
  by (auto simp: and_then_def split: prod.splits sum.splits)

definition emit :: "event \<Rightarrow> 'x runtime \<Rightarrow> 'x runtime" where
  "emit e st = st\<lparr>rt_events := rt_events st @ [e]\<rparr>"

definition write_workload_checkpoint :: "string \<Rightarrow> workload_state \<Rightarrow> 'x runtime \<Rightarrow> 'x runtime" where
  "write_workload_checkpoint i s st = st\<lparr>rt_checkpoints := AList.update i s (rt_checkpoints st)\<rparr>"

definition set_workload :: "string \<Rightarrow> workload_state \<Rightarrow> 'x runtime \<Rightarrow> 'x runtime" where
  "set_workload i s st = st\<lparr>rt_workloads := AList.update i s (rt_workloads st)\<rparr>"

definition save_image_tags :: "'x runtime \<Rightarrow> 'x runtime" where
  "save_image_tags st = st\<lparr>rt_saved_tags := rt_image_tags st\<rparr>"

section \<open>Garbage collection roots\<close>

definition hex_roots :: "ext \<Rightarrow> string list \<Rightarrow> digest list" where
  "hex_roots E hs = concat (map (\<lambda>h. case from_hex E h of Inl _ \<Rightarrow> [] | Inr d \<Rightarrow> [d]) hs)"

definition enumerate_gc_roots :: "ext \<Rightarrow> 'x runtime \<Rightarrow> digest list" where
  "enumerate_gc_roots E st =
    hex_roots E (map fst (rt_image_tags st)) @
    concat (map (\<lambda>(i, s). (if ws_image_root s \<noteq> [] then hex_roots E [ws_image_root s] else []) @
                          (if ws_kernel_image_digest s \<noteq> [] then hex_roots E [ws_kernel_image_digest s] else []))
                (rt_workloads st))"

fun gc_error_to_status :: "gc_error \<Rightarrow> status" where
  "gc_error_to_status ActiveOpLocks = (FailedPrecondition, ''active operation locks exist, GC deferred'')"
| "gc_error_to_status EmptyRootSet = (FailedPrecondition, ''root set is empty'')"
| "gc_error_to_status (RootDigestMissing d) = (FailedPrecondition, ''root digest not found in store'')"
| "gc_error_to_status (CorruptedNodeDuringWalk d) = (Internal, ''corrupted node during reachability walk'')"
| "gc_error_to_status (WouldFreeTooMuch pct mb max_pct) = (FailedPrecondition, ''would free too much; use --force to override'')"
| "gc_error_to_status (Store e) = (Internal, ''store error'')"

section \<open>The policy gates\<close>

definition policy_verdict ::
    "'x runtime_env \<Rightarrow> policy_engine \<Rightarrow> string \<Rightarrow> string \<Rightarrow> string \<Rightarrow> 'x runtime \<Rightarrow> (status + unit) \<times> 'x runtime" where
  "policy_verdict V eng denied image_ref manifest_digest st =
    (case evaluate_for_image (re_policy V) (re_ext V) eng (default_policy eng) (rt_store st) image_ref manifest_digest of
       (Inl _, s1) \<Rightarrow> (Inl (Internal, ''policy evaluation failed''), st\<lparr>rt_store := s1\<rparr>)
     | (Inr Allow, s1) \<Rightarrow> (Inr (), st\<lparr>rt_store := s1\<rparr>)
     | (Inr (Deny reason), s1) \<Rightarrow> (Inl (PermissionDenied, denied @ reason), st\<lparr>rt_store := s1\<rparr>))"

definition evaluate_pulled ::
    "'x runtime_env \<Rightarrow> service_config \<Rightarrow> string \<Rightarrow> digest \<Rightarrow> 'x runtime \<Rightarrow> (status + unit) \<times> 'x runtime" where
  "evaluate_pulled V cf image_ref manifest_digest st =
    (case cf_policy_engine cf of
       None \<Rightarrow> (Inr (), st)
     | Some eng \<Rightarrow> policy_verdict V eng (''Policy denied image '' @ image_ref @ '': '') image_ref (as_hex (re_ext V) manifest_digest) st)"

definition evaluate_for_run ::
    "'x runtime_env \<Rightarrow> service_config \<Rightarrow> string \<Rightarrow> 'x runtime \<Rightarrow> (status + unit) \<times> 'x runtime" where
  "evaluate_for_run V cf root_digest st =
    (case cf_policy_engine cf of
       None \<Rightarrow> (Inr (), st)
     | Some eng \<Rightarrow>
         (let image_ref = (case map_of (rt_image_tags st) root_digest of None \<Rightarrow> root_digest | Some t \<Rightarrow> t)
          in policy_verdict V eng [] image_ref root_digest st))"

section \<open>Starting the service\<close>

text \<open>\<^verbatim>\<open>alive\<close> tells whether \<^verbatim>\<open>runc\<close> reports a container as running.\<close>

definition recover_workload :: "int \<Rightarrow> (string \<Rightarrow> bool) \<Rightarrow> string \<times> workload_state \<Rightarrow> string \<times> workload_state" where
  "recover_workload now alive = (\<lambda>(i, s).
    (i, if ws_status s = ''running'' \<and> ws_backend s \<noteq> ''vm'' \<and> \<not> alive i
        then s\<lparr>ws_status := ''exited'',
               ws_exit_code := (case ws_exit_code s of None \<Rightarrow> Some 137 | Some c \<Rightarrow> Some c),
               ws_exit_time := (if ws_exit_time s = 0 then now else ws_exit_time s)\<rparr>
        else s))"

definition needs_kernel_digest :: "workload_state \<Rightarrow> bool" where
  "needs_kernel_digest s \<longleftrightarrow> ws_kernel_image_ref s \<noteq> [] \<and> ws_kernel_image_digest s = []"

definition find_tag :: "(string \<times> string) list \<Rightarrow> string \<Rightarrow> string option" where
  "find_tag tags ref = map_option fst (List.find (\<lambda>(d, t). t = ref) tags)"

definition migrate_workload :: "(string \<times> string) list \<Rightarrow> workload_state \<Rightarrow> workload_state" where
  "migrate_workload tags s =
    (if needs_kernel_digest s
     then (case find_tag tags (ws_kernel_image_ref s) of None \<Rightarrow> s | Some d \<Rightarrow> s\<lparr>ws_kernel_image_digest := d\<rparr>)
     else s)"

definition migrate_kernel_digests :: "'x runtime \<Rightarrow> 'x runtime" where
  "migrate_kernel_digests st =
    (let tags = rt_image_tags st;
         migrated = (\<exists>s \<in> snd ` set (rt_workloads st). needs_kernel_digest s \<and> find_tag tags (ws_kernel_image_ref s) \<noteq> None);
         wl = map (\<lambda>(i, s). (i, migrate_workload tags s)) (rt_workloads st);
         st1 = st\<lparr>rt_workloads := wl\<rparr>
     in if migrated then fold (\<lambda>(i, s). write_workload_checkpoint i s) wl st1 else st1)"

definition startup_roots :: "ext \<Rightarrow> 'x runtime \<Rightarrow> digest list" where
  "startup_roots E st = hex_roots E (map fst (rt_image_tags st)) @ hex_roots E (map (ws_image_root \<circ> snd) (rt_workloads st))"

definition start_service :: "ext \<Rightarrow> int \<Rightarrow> nat \<Rightarrow> (string \<Rightarrow> bool) \<Rightarrow> 'x runtime \<Rightarrow> 'x runtime" where
  "start_service E now nanos alive st =
    (let st1 = migrate_kernel_digests
                 (st\<lparr>rt_workloads := map (recover_workload now alive) (rt_checkpoints st), rt_image_tags := rt_saved_tags st,
                     rt_events := [], rt_kernel_cache := [], rt_rootfs_cache := []\<rparr>);
         st2 = st1\<lparr>rt_ops := snd (clean_stale_op_locks nanos (rt_ops st1))\<rparr>;
         roots = startup_roots E st2
     in if roots = [] then st2
        else st2\<lparr>rt_store := snd (recompute_all_refcounts E (rt_store st2) roots)\<rparr>)"

section \<open>Walking an image\<close>

definition kind_name :: "dag_node \<Rightarrow> string" where
  "kind_name n =
    (if is_manifest n then ''manifest'' else if is_tree n then ''tree'' else if is_layer n then ''layer''
     else if is_blob n then ''blob'' else ''unknown'')"

function walk_dag_loop ::
  "ext \<Rightarrow> mmap_store \<Rightarrow> digest set \<Rightarrow> digest list \<Rightarrow> (string \<times> string) list \<Rightarrow> (string \<times> string) list \<times> mmap_store" where
  "walk_dag_loop E s visited [] out = (out, s)"
| "walk_dag_loop E s visited (d # queue) out =
    (if d \<in> visited then walk_dag_loop E s visited queue out
     else case get_archived E s d of
            (Inl _, s') \<Rightarrow> walk_dag_loop E s' (insert d visited) queue out
          | (Inr node, s') \<Rightarrow>
              walk_dag_loop E s' (insert d visited) (queue @ edges node) (out @ [(as_hex E d, kind_name node)]))"
  by pat_completeness auto

termination
proof (relation "inv_image walk_measure
    (\<lambda>(E, s, visited, queue, out). (card (store_keys s - visited), length queue))")
qed (auto intro: walk_terminates)

text \<open>The digests and kinds of the nodes of an image; the reported sizes are always zero.\<close>

definition walk_dag :: "ext \<Rightarrow> string \<Rightarrow> mmap_store \<Rightarrow> (string \<times> string) list \<times> mmap_store" where
  "walk_dag E image_root s =
    walk_dag_loop E s {} (if image_root = [] then [] else case from_hex E image_root of Inl _ \<Rightarrow> [] | Inr d \<Rightarrow> [d]) []"

section \<open>Facts\<close>

lemma hex_roots_mem: "h \<in> set hs \<Longrightarrow> from_hex E h = Inr d \<Longrightarrow> d \<in> set (hex_roots E hs)"
  by (force simp: hex_roots_def)

lemma tag_is_root:
  "map_of (rt_image_tags st) h = Some t \<Longrightarrow> from_hex E h = Inr d \<Longrightarrow> d \<in> set (enumerate_gc_roots E st)"
proof -
  assume "map_of (rt_image_tags st) h = Some t" "from_hex E h = Inr d"
  moreover from this have "h \<in> set (map fst (rt_image_tags st))" by (auto dest!: map_of_SomeD simp: rev_image_eqI)
  ultimately show ?thesis using hex_roots_mem by (simp add: enumerate_gc_roots_def)
qed

lemma workload_is_root:
  assumes "map_of (rt_workloads st) i = Some s" "from_hex E h = Inr d" "h \<noteq> []"
    and "h = ws_image_root s \<or> h = ws_kernel_image_digest s"
  shows "d \<in> set (enumerate_gc_roots E st)"
proof -
  have "(i, s) \<in> set (rt_workloads st)" using assms(1) by (rule map_of_SomeD)
  moreover have "d \<in> set (hex_roots E [h])" using assms(2) by (simp add: hex_roots_def)
  ultimately show ?thesis using assms(3,4) by (force simp: enumerate_gc_roots_def)
qed

lemma set_workload_simps [simp]:
  "rt_workloads (set_workload i s st) = AList.update i s (rt_workloads st)"
  "rt_checkpoints (set_workload i s st) = rt_checkpoints st" "rt_exec (set_workload i s st) = rt_exec st"
  "rt_workloads (write_workload_checkpoint i s st) = rt_workloads st"
  "rt_checkpoints (write_workload_checkpoint i s st) = AList.update i s (rt_checkpoints st)"
  "rt_exec (write_workload_checkpoint i s st) = rt_exec st"
  "rt_workloads (emit e st) = rt_workloads st" "rt_checkpoints (emit e st) = rt_checkpoints st"
  "rt_exec (emit e st) = rt_exec st" "rt_image_tags (emit e st) = rt_image_tags st" "rt_store (emit e st) = rt_store st"
  "rt_kernel_cache (emit e st) = rt_kernel_cache st" "rt_fs (emit e st) = rt_fs st"
  by (simp_all add: set_workload_def write_workload_checkpoint_def emit_def)

lemma policy_verdict_Inr:
  assumes "policy_verdict V eng denied ref h st = (Inr u, st')"
  shows "fst (evaluate_for_image (re_policy V) (re_ext V) eng (default_policy eng) (rt_store st) ref h) = Inr Allow"
  using assms by (auto simp: policy_verdict_def split: prod.splits sum.splits policy_decision.splits)

end
