(* ===== verification/Workload_Service.thy ===== *)
theory Workload_Service
  imports Runtime_State
begin

text \<open>
  Running and stopping workloads, \<^verbatim>\<open>run_workload\<close>,
  \<^verbatim>\<open>stop_workload\<close>, \<^verbatim>\<open>prune\<close> and the read-only requests of
  \<^verbatim>\<open>pullrun-runtime/src/service.rs\<close>, and its background tasks: the watcher that
  notices exits and restarts workloads, and the health checks.
\<close>

section \<open>Checks before a run\<close>

definition strip_sha256 :: "string \<Rightarrow> string" where
  "strip_sha256 s = (case strip_prefix ''sha256:'' s of None \<Rightarrow> s | Some r \<Rightarrow> r)"

definition check_network_join :: "run_request \<Rightarrow> backend \<Rightarrow> network_mode \<Rightarrow> 'x runtime \<Rightarrow> status + unit" where
  "check_network_join req b m st =
    (case m of
       Container target \<Rightarrow>
         if target = rq_id req then Inl (InvalidArgument, ''a workload cannot join its own network namespace'')
         else if b = Vm then Inl (InvalidArgument, ''network mode container is only valid for container backends'')
         else (case map_of (rt_workloads st) target of
                 None \<Rightarrow> Inl (StatusNotFound, ''cannot join network namespace: no such workload'')
               | Some ts \<Rightarrow>
                   if starts_with (ws_backend ts) ''container'' then Inr ()
                   else Inl (InvalidArgument, ''cannot join network namespace: target is not a container backend''))
     | _ \<Rightarrow> Inr ())"

definition stage_vm_kernel ::
    "'x runtime_env \<Rightarrow> service_config \<Rightarrow> int \<Rightarrow> run_request \<Rightarrow> backend \<Rightarrow> 'x runtime \<Rightarrow> (status + unit) \<times> 'x runtime" where
  "stage_vm_kernel V cf now req b st =
    (if b \<noteq> Vm then (Inr (), st)
     else if rq_kernel_image req = [] \<and> cf_vm_root cf = None
     then (Inl (InvalidArgument, ''backend=vm requires kernel_image''), st)
     else if rq_kernel_image req = [] \<or> map_of (rt_kernel_cache st) (rq_kernel_image req) \<noteq> None then (Inr (), st)
     else
       (case re_stage_kernel V (rq_kernel_image req) (rt_store st) of
          (Inr k, s1) \<Rightarrow>
            (Inr (), (emit (with_metadata ''vmlinux_bytes'' (nat_to_string (unat (sk_vmlinux_size k)))
                              (with_metadata ''image'' (rq_kernel_image req) (with_metadata ''kind'' ''kernel''
                                 (event_new now (rq_id req) ImagePulled)))) (st\<lparr>rt_store := s1\<rparr>))
                       \<lparr>rt_kernel_cache := AList.update (rq_kernel_image req) k (rt_kernel_cache st)\<rparr>)
        | (Inl e, s1) \<Rightarrow>
            (Inl (Internal, ''stage kernel''),
             emit (with_metadata ''error'' e (with_metadata ''outcome'' ''failed''
                     (with_metadata ''image'' (rq_kernel_image req) (with_metadata ''kind'' ''kernel''
                        (event_new now (rq_id req) ImagePulled))))) (st\<lparr>rt_store := s1\<rparr>))))"

definition check_architecture ::
    "'x runtime_env \<Rightarrow> run_request \<Rightarrow> backend \<Rightarrow> 'x runtime \<Rightarrow> (status + unit) \<times> 'x runtime" where
  "check_architecture V req b st =
    (if b = Vm then (Inr (), st)
     else case from_hex (re_ext V) (rq_root_digest req) of
            Inl _ \<Rightarrow> (Inl (Internal, ''invalid digest''), st)
          | Inr d \<Rightarrow>
              (case materialize_manifest (re_ext V) (re_conv V) d (rt_store st) of
                 (Inl _, s1) \<Rightarrow> (Inl (Internal, ''read manifest for arch check''), st\<lparr>rt_store := s1\<rparr>)
               | (Inr md, s1) \<Rightarrow>
                   if md_architecture md \<noteq> re_host_arch V
                   then (case re_binfmt V (md_architecture md) of
                           Inl _ \<Rightarrow> (Inl (Internal, ''cross-arch binfmt setup''), st\<lparr>rt_store := s1\<rparr>)
                         | Inr _ \<Rightarrow> (Inr (), st\<lparr>rt_store := s1\<rparr>))
                   else (Inr (), st\<lparr>rt_store := s1\<rparr>)))"

section \<open>Staging of secrets and configurations\<close>

definition stage_dir :: "service_config \<Rightarrow> string \<Rightarrow> path" where
  "stage_dir cf i = path_join (cf_store_root cf @ [''run'', ''secrets-stage'']) i"

definition write_stage_file :: "path \<Rightarrow> bytes \<Rightarrow> host_fs \<Rightarrow> (string + unit) \<times> host_fs" where
  "write_stage_file p data fs =
    (case create_new p (Some 384) data fs of
       (Inl e, fs1) \<Rightarrow> (Inl e, fs1)
     | (Inr _, fs1) \<Rightarrow> (Inr (), set_permissions p 384 fs1))"

definition staged_mount :: "path \<Rightarrow> string \<Rightarrow> mount" where
  "staged_mount p target =
    \<lparr>mount_type = ''bind'', mount_source = path_text p, mount_destination = target, mount_options = [''ro'', ''rbind'']\<rparr>"

definition target_or :: "string \<Rightarrow> file_ref \<Rightarrow> string" where
  "target_or pre r = (if ref_target_path r = [] then pre @ ref_name r else ref_target_path r)"

definition prepare_stage :: "service_config \<Rightarrow> run_request \<Rightarrow> 'x runtime \<Rightarrow> (status + unit) \<times> 'x runtime" where
  "prepare_stage cf req st =
    (if rq_secrets req = [] \<and> rq_configs req = [] then (Inr (), st)
     else case create_dir_all (stage_dir cf (rq_id req)) (rt_fs st) of
            (Inl _, fs1) \<Rightarrow> (Inl (Internal, ''create secret stage dir''), st\<lparr>rt_fs := fs1\<rparr>)
          | (Inr _, fs1) \<Rightarrow> (Inr (), st\<lparr>rt_fs := set_permissions (stage_dir cf (rq_id req)) 448 fs1\<rparr>))"

fun stage_secrets ::
    "'x runtime_env \<Rightarrow> path \<Rightarrow> file_ref list \<Rightarrow> 'x runtime \<Rightarrow> (status + mount list) \<times> 'x runtime" where
  "stage_secrets V dir [] st = (Inr [], st)"
| "stage_secrets V dir (r # rs) st =
    (case read_secret_raw (re_cipher V) (re_fresh_key V) (ref_name r) (rt_secrets st) (rt_fs st) of
       (Inl _, ss1, fs1) \<Rightarrow> (Inl (InvalidArgument, ''secret''), st\<lparr>rt_secrets := ss1, rt_fs := fs1\<rparr>)
     | (Inr data, ss1, fs1) \<Rightarrow>
         (case write_stage_file (path_join dir (ref_name r)) data fs1 of
            (Inl _, fs2) \<Rightarrow> (Inl (Internal, ''stage secret''), st\<lparr>rt_secrets := ss1, rt_fs := fs2\<rparr>)
          | (Inr _, fs2) \<Rightarrow>
              and_then (stage_secrets V dir rs (st\<lparr>rt_secrets := ss1, rt_fs := fs2\<rparr>)) (\<lambda>ms st'.
                (Inr (staged_mount (path_join dir (ref_name r)) (target_or ''/run/secrets/'' r) # ms), st'))))"

fun stage_configs :: "path \<Rightarrow> file_ref list \<Rightarrow> 'x runtime \<Rightarrow> (status + mount list) \<times> 'x runtime" where
  "stage_configs dir [] st = (Inr [], st)"
| "stage_configs dir (r # rs) st =
    (case read_config_raw (ref_name r) (rt_secrets st) (rt_fs st) of
       Inl _ \<Rightarrow> (Inl (InvalidArgument, ''config''), st)
     | Inr data \<Rightarrow>
         (case write_stage_file (path_join dir (ref_name r)) data (rt_fs st) of
            (Inl _, fs2) \<Rightarrow> (Inl (Internal, ''stage config''), st\<lparr>rt_fs := fs2\<rparr>)
          | (Inr _, fs2) \<Rightarrow>
              and_then (stage_configs dir rs (st\<lparr>rt_fs := fs2\<rparr>)) (\<lambda>ms st'.
                (Inr (staged_mount (path_join dir (ref_name r)) (target_or ''/'' r) # ms), st'))))"

section \<open>Running a workload\<close>

definition nonzero :: "u64 \<Rightarrow> u64 option" where
  "nonzero n = (if n > 0 then Some n else None)"

definition nonempty :: "string \<Rightarrow> string option" where
  "nonempty s = (if s = [] then None else Some s)"

definition current_policy :: "service_config \<Rightarrow> policy" where
  "current_policy cf = (case cf_policy_engine cf of None \<Rightarrow> default_policy_value | Some e \<Rightarrow> default_policy e)"

definition requested_mode :: "run_request \<Rightarrow> network_mode" where
  "requested_mode req =
    parse_network_mode (rq_network_mode req) (\<exists>r \<in> set (rq_network_rules req). pn_direction r = ''inbound'')"

definition run_spec_of ::
    "service_config \<Rightarrow> run_request \<Rightarrow> backend \<Rightarrow> digest \<Rightarrow> string option \<Rightarrow> mount list \<Rightarrow> run_spec" where
  "run_spec_of cf req b d vmlinux extra =
    (case effective_security_flags (current_policy cf) req of (privileged, ro, nnp, seccomp, syscalls) \<Rightarrow>
      \<lparr>rs_id = rq_id req, rs_image_root = d, rs_backend = b, rs_command = rq_command req, rs_env = rq_env req,
       rs_cpu_millicores = nonzero (rq_cpu_millicores req), rs_memory_bytes = nonzero (rq_memory_bytes req),
       rs_network_mode = requested_mode req, rs_network_rules = map net_rule_of (rq_network_rules req),
       rs_kernel_path = vmlinux, rs_bridge_name = nonempty (rq_bridge_name req), rs_mounts = rq_mounts req @ extra,
       rs_health_check = rq_health_check req, rs_restart_policy = parse_restart_policy (rq_restart_policy req),
       rs_readonly_rootfs = ro, rs_no_new_privileges = nnp, rs_seccomp_profile = seccomp, rs_allowed_syscalls = syscalls,
       rs_privileged = privileged, rs_dns = dns_from_req (rq_dns req)\<rparr>)"

definition vm_path :: "service_config \<Rightarrow> (path \<Rightarrow> path) \<Rightarrow> string option" where
  "vm_path cf f = map_option (\<lambda>r. path_text (f r)) (cf_vm_root cf)"

definition running_state ::
    "service_config \<Rightarrow> int \<Rightarrow> run_request \<Rightarrow> run_spec \<Rightarrow> process_handle \<Rightarrow> 'x runtime \<Rightarrow> workload_state" where
  "running_state cf now req spec h st =
    \<lparr>ws_status = ''running'', ws_start_time = now, ws_exit_time = 0, ws_exit_code = None, ws_backend = ph_backend h,
     ws_internal_ip = ph_internal_ip h, ws_pid = (case ph_pid h of None \<Rightarrow> 0 | Some p \<Rightarrow> p),
     ws_image_root = rq_root_digest req, ws_command = rq_command req, ws_network_rules = rs_network_rules spec,
     ws_policy_decisions = (if cf_policy_engine cf = None then [] else [(''default'', ''allow'')]),
     ws_kernel_image_ref = rq_kernel_image req,
     ws_kernel_image_digest =
       (if rq_kernel_image req = [] then []
        else case map_of (rt_kernel_cache st) (rq_kernel_image req) of
               None \<Rightarrow> [] | Some k \<Rightarrow> (case sk_root_digest k of None \<Rightarrow> [] | Some d \<Rightarrow> d)),
     ws_working_dir = (if rq_working_dir req = [] then ''/'' else rq_working_dir req),
     ws_rootfs_dir =
       (if ph_backend h = ''vm''
        then (case map_of (rt_rootfs_cache st) (rq_id req) of
                Some p \<Rightarrow> Some (path_text p)
              | None \<Rightarrow> vm_path cf (\<lambda>r. path_join r (rq_id req @ ''.ext4'')))
        else None),
     ws_health_check = rs_health_check spec, ws_health = ''starting'', ws_health_failures = 0, ws_health_last_success = 0,
     ws_restart_policy = rs_restart_policy spec, ws_restart_count = 0, ws_env = rs_env spec,
     ws_cpu_millicores = rs_cpu_millicores spec, ws_memory_bytes = rs_memory_bytes spec,
     ws_bridge_name = rs_bridge_name spec, ws_network_mode = network_mode_str (rs_network_mode spec),
     ws_mounts = rs_mounts spec, ws_privileged = rs_privileged spec, ws_readonly_rootfs = rs_readonly_rootfs spec,
     ws_no_new_privileges = rs_no_new_privileges spec, ws_seccomp_profile = rs_seccomp_profile spec,
     ws_allowed_syscalls = rs_allowed_syscalls spec, ws_dns = rs_dns spec,
     ws_console_log_path =
       (if ph_backend h = ''vm'' then vm_path cf (\<lambda>r. path_join (path_join r (rq_id req)) ''console.log'') else None)\<rparr>"

record run_response =
  rr_id :: string
  rr_pid :: u32
  rr_backend_used :: string
  rr_internal_ip :: string

definition launch ::
    "'x runtime_env \<Rightarrow> service_config \<Rightarrow> int \<Rightarrow> run_request \<Rightarrow> backend \<Rightarrow> run_spec \<Rightarrow> 'x runtime \<Rightarrow>
     (status + run_response) \<times> 'x runtime" where
  "launch V cf now req b spec st =
    (let st1 = emit (with_metadata ''image_root'' (rq_root_digest req) (with_metadata ''selected_backend'' (backend_str b)
                       (with_metadata ''requested_backend'' (backend_str b) (event_new now (rq_id req) BackendSelected)))) st
     in case router_create (re_router V) spec (rt_exec st1) of
          (Inl e, x1) \<Rightarrow>
            (Inl (Internal, ''create failed''),
             emit (with_metadata ''error'' (exec_error_str e) (with_metadata ''outcome'' ''create_failed''
                     (with_metadata ''backend'' (backend_str b) (event_new now (rq_id req) WorkloadStarted)))) (st1\<lparr>rt_exec := x1\<rparr>))
        | (Inr h, x1) \<Rightarrow>
            (case router_start (re_router V) h x1 of
               (Inl e, x2) \<Rightarrow>
                 (Inl (Internal, ''start failed''),
                  emit (with_metadata ''error'' (exec_error_str e) (with_metadata ''outcome'' ''start_failed''
                          (with_metadata ''backend'' (ph_backend h) (event_new now (rq_id req) WorkloadStarted)))) (st1\<lparr>rt_exec := x2\<rparr>))
             | (Inr h2, x2) \<Rightarrow>
                 (let st2 = st1\<lparr>rt_exec := x2\<rparr>;
                      s = running_state cf now req spec h2 st2;
                      ip = (case ph_internal_ip h2 of None \<Rightarrow> ''loopback'' | Some a \<Rightarrow> a);
                      st3 = write_workload_checkpoint (rq_id req) s (set_workload (rq_id req) s st2)
                  in (Inr \<lparr>rr_id = rq_id req, rr_pid = ws_pid s, rr_backend_used = ph_backend h2, rr_internal_ip = ip\<rparr>,
                      emit (with_metadata ''pid'' (nat_to_string (unat (ws_pid s))) (with_metadata ''internal_ip'' ip
                              (with_metadata ''image_root'' (rq_root_digest req) (with_metadata ''backend'' (ph_backend h2)
                                 (event_new now (rq_id req) WorkloadStarted))))) st3))))"

definition run_workload ::
    "'x runtime_env \<Rightarrow> service_config \<Rightarrow> int \<Rightarrow> run_request \<Rightarrow> 'x runtime \<Rightarrow> (status + run_response) \<times> 'x runtime" where
  "run_workload V cf now req0 st =
    (case validate_workload_id (rq_id req0) of
       Inl e \<Rightarrow> (Inl (InvalidArgument, e), st)
     | Inr _ \<Rightarrow>
         (let req = req0\<lparr>rq_root_digest := strip_sha256 (rq_root_digest req0)\<rparr>
          in case backend_from_str (rq_backend req) of
               Inl e \<Rightarrow> (Inl (InvalidArgument, e), st)
             | Inr b \<Rightarrow>
                 (case check_network_join req b (requested_mode req) st of
                    Inl e \<Rightarrow> (Inl e, st)
                  | Inr _ \<Rightarrow>
                      and_then (stage_vm_kernel V cf now req b st) (\<lambda>_ st1.
                      and_then (evaluate_for_run V cf (rq_root_digest req) st1) (\<lambda>_ st2.
                      and_then (check_architecture V req b st2) (\<lambda>_ st3.
                      and_then (prepare_stage cf req st3) (\<lambda>_ st4.
                      and_then (stage_secrets V (stage_dir cf (rq_id req)) (rq_secrets req) st4) (\<lambda>ms1 st5.
                      and_then (stage_configs (stage_dir cf (rq_id req)) (rq_configs req) st5) (\<lambda>ms2 st6.
                        case sanitize_mounts (rt_fs st6) (re_cwd V) (cf_store_root cf) (rq_mounts req) of
                          Inl e \<Rightarrow> (Inl (InvalidArgument, e), st6)
                        | Inr _ \<Rightarrow>
                            (case from_hex (re_ext V) (rq_root_digest req) of
                               Inl _ \<Rightarrow> (Inl (InvalidArgument, ''invalid root_digest''), st6)
                             | Inr d \<Rightarrow>
                                 (let vmlinux = (if rq_kernel_image req = [] then None
                                                else map_option sk_vmlinux_path (map_of (rt_kernel_cache st6) (rq_kernel_image req)))
                                  in launch V cf now req b (run_spec_of cf req b d vmlinux (ms1 @ ms2)) st6)))))))))))"

section \<open>Stopping a workload\<close>

definition known_workload :: "string \<Rightarrow> 'x runtime \<Rightarrow> status + workload_state" where
  "known_workload i st =
    (case map_of (rt_workloads st) i of
       None \<Rightarrow> Inl (StatusNotFound, ''workload '' @ i @ '' not found'') | Some s \<Rightarrow> Inr s)"

definition stop_check :: "string \<Rightarrow> 'x runtime \<Rightarrow> status + bool" where
  "stop_check i st =
    (case validate_workload_id i of
       Inl e \<Rightarrow> Inl (InvalidArgument, e)
     | Inr _ \<Rightarrow>
         (case known_workload i st of
            Inl e \<Rightarrow> Inl e
          | Inr s \<Rightarrow> Inr (ws_status s = ''running'')))"

definition stopped_state :: "int \<Rightarrow> workload_state \<Rightarrow> workload_state option" where
  "stopped_state now s =
    (if ws_status s = ''running''
     then Some (s\<lparr>ws_status := ''stopped'', ws_exit_code := Some 0, ws_exit_time := now\<rparr>)
     else if ws_status s = ''pending''
     then Some (s\<lparr>ws_status := ''exited'', ws_exit_code := Some 0, ws_exit_time := now\<rparr>)
     else None)"

definition is_vm_workload :: "string \<Rightarrow> 'x runtime \<Rightarrow> bool" where
  "is_vm_workload i st = (case map_of (rt_workloads st) i of None \<Rightarrow> False | Some s \<Rightarrow> ws_backend s = ''vm'')"

definition finish_stop :: "service_config \<Rightarrow> int \<Rightarrow> string \<Rightarrow> 'x runtime \<Rightarrow> 'x runtime" where
  "finish_stop cf now i st =
    (let st1 = st\<lparr>rt_rootfs_cache := AList.delete i (rt_rootfs_cache st),
                  rt_fs := snd (remove_dir_all (stage_dir cf i) (rt_fs st))\<rparr>
     in case map_of (rt_workloads st1) i of
          None \<Rightarrow> st1
        | Some s \<Rightarrow>
            (case stopped_state now s of
               None \<Rightarrow> st1
             | Some s' \<Rightarrow>
                 emit (with_metadata ''source'' ''operator'' (with_metadata ''exit_code'' ''0''
                         (with_metadata ''backend'' (ws_backend s) (event_new now i WorkloadStopped))))
                   (write_workload_checkpoint i s' (set_workload i s' st1))))"

definition stop_task ::
    "'x runtime_env \<Rightarrow> service_config \<Rightarrow> int \<Rightarrow> string \<Rightarrow> 'x runtime \<Rightarrow> (status + unit) \<times> 'x runtime" where
  "stop_task V cf now i st =
    (case router_stop (re_router V) i (rt_exec st) of
       (Inl e, x1) \<Rightarrow>
         if is_vm_workload i st then (Inr (), finish_stop cf now i (st\<lparr>rt_exec := x1\<rparr>))
         else (Inl (Internal, ''stop failed''), st\<lparr>rt_exec := x1\<rparr>)
     | (Inr _, x1) \<Rightarrow> (Inr (), finish_stop cf now i (st\<lparr>rt_exec := x1\<rparr>)))"

definition stop_workload ::
    "'x runtime_env \<Rightarrow> service_config \<Rightarrow> int \<Rightarrow> string \<Rightarrow> 'x runtime \<Rightarrow> (status + unit) \<times> 'x runtime" where
  "stop_workload V cf now i st =
    (case stop_check i st of
       Inl e \<Rightarrow> (Inl e, st)
     | Inr needs_stop \<Rightarrow> if needs_stop then stop_task V cf now i st else (Inr (), st))"

section \<open>Requests about a workload\<close>

definition update_workload ::
    "'x runtime_env \<Rightarrow> string \<Rightarrow> u64 \<Rightarrow> u64 \<Rightarrow> 'x runtime \<Rightarrow> bool \<times> 'x runtime" where
  "update_workload V i cpu memory st =
    (if nonzero cpu = None \<and> nonzero memory = None then (False, st)
     else case router_update (re_router V) i (nonzero cpu) (nonzero memory) (rt_exec st) of
            (Inl _, x1) \<Rightarrow> (False, st\<lparr>rt_exec := x1\<rparr>)
          | (Inr _, x1) \<Rightarrow> (True, st\<lparr>rt_exec := x1\<rparr>))"

definition exec_in_workload ::
    "'x runtime_env \<Rightarrow> string \<Rightarrow> string list \<Rightarrow> 'x runtime \<Rightarrow> (status + exec_output) \<times> 'x runtime" where
  "exec_in_workload V i command st =
    (case validate_workload_id i of
       Inl e \<Rightarrow> (Inl (InvalidArgument, e), st)
     | Inr _ \<Rightarrow>
         (case known_workload i st of
            Inl e \<Rightarrow> (Inl e, st)
          | Inr _ \<Rightarrow>
              (case router_exec (re_router V) i command 30 (rt_exec st) of
                 (Inl (ExecNotFound m), x1) \<Rightarrow> (Inl (StatusNotFound, exec_error_str (ExecNotFound m)), st\<lparr>rt_exec := x1\<rparr>)
               | (Inl _, x1) \<Rightarrow> (Inl (Internal, ''exec failed''), st\<lparr>rt_exec := x1\<rparr>)
               | (Inr out, x1) \<Rightarrow> (Inr out, st\<lparr>rt_exec := x1\<rparr>))))"

record workload_status =
  wst_id :: string
  wst_state :: string
  wst_backend :: string
  wst_exit_code :: u32
  wst_start_time :: int
  wst_internal_ip :: string
  wst_network_isolated :: bool
  wst_health :: string
  wst_restart_policy :: int
  wst_restart_count :: u32

fun restart_proto :: "restart_policy \<Rightarrow> int" where
  "restart_proto RestartNo = 1"
| "restart_proto OnFailure = 2"
| "restart_proto Always = 3"
| "restart_proto UnlessStopped = 4"

definition workload_status_of :: "string \<Rightarrow> workload_state \<Rightarrow> workload_status" where
  "workload_status_of i s =
    \<lparr>wst_id = i, wst_state = ws_status s, wst_backend = ws_backend s,
     wst_exit_code = (case ws_exit_code s of None \<Rightarrow> 0 | Some c \<Rightarrow> c), wst_start_time = ws_start_time s,
     wst_internal_ip = (case ws_internal_ip s of None \<Rightarrow> [] | Some a \<Rightarrow> a),
     wst_network_isolated = is_network_isolated s, wst_health = ws_health s,
     wst_restart_policy = restart_proto (ws_restart_policy s), wst_restart_count = ws_restart_count s\<rparr>"

definition get_workload :: "string \<Rightarrow> 'x runtime \<Rightarrow> status + workload_status" where
  "get_workload i st =
    (case known_workload i st of Inl e \<Rightarrow> Inl e | Inr s \<Rightarrow> Inr (workload_status_of i s))"

definition list_workloads :: "'x runtime \<Rightarrow> workload_status list" where
  "list_workloads st = map (\<lambda>(i, s). workload_status_of i s) (rt_workloads st)"

definition proto_rule_of :: "network_rule \<Rightarrow> proto_network_rule" where
  "proto_rule_of r =
    \<lparr>pn_direction = direction_str (nr_direction r), pn_protocol = protocol_str (nr_protocol r), pn_port = ucast (nr_port r),
     pn_to_host = (case nr_to_host r of None \<Rightarrow> [] | Some h \<Rightarrow> h),
     pn_from_cidrs = (case nr_from_cidrs r of None \<Rightarrow> [] | Some c \<Rightarrow> c), pn_host_port = ucast (nr_host_port r)\<rparr>"

text \<open>What \<^verbatim>\<open>inspect\<close> adds to the status: the state itself, the rules in wire form and the
  nodes of the image; \<open>None\<close> is the answer \<^verbatim>\<open>found: false\<close>.\<close>

definition inspect_workload ::
    "'x runtime_env \<Rightarrow> string \<Rightarrow> 'x runtime \<Rightarrow>
     (workload_state \<times> proto_network_rule list \<times> (string \<times> string) list) option \<times> 'x runtime" where
  "inspect_workload V i st =
    (case map_of (rt_workloads st) i of
       None \<Rightarrow> (None, st)
     | Some s \<Rightarrow>
         (case walk_dag (re_ext V) (ws_image_root s) (rt_store st) of (nodes, s1) \<Rightarrow>
            (Some (s, map proto_rule_of (ws_network_rules s), nodes), st\<lparr>rt_store := s1\<rparr>)))"

section \<open>Pruning\<close>

text \<open>Removing the directories below \<open>dir\<close> whose name is no workload, and how many could be removed.\<close>

fun prune_dirs :: "path \<Rightarrow> string list \<Rightarrow> string list \<Rightarrow> host_fs \<Rightarrow> nat \<times> host_fs" where
  "prune_dirs dir active [] fs = (0, fs)"
| "prune_dirs dir active (n # ns) fs =
    (if is_dir_path fs (dir @ [n]) \<and> n \<notin> set active
     then (case remove_dir_all (dir @ [n]) fs of
             (Inl _, fs1) \<Rightarrow> prune_dirs dir active ns fs1
           | (Inr _, fs1) \<Rightarrow> (case prune_dirs dir active ns fs1 of (k, fs2) \<Rightarrow> (Suc k, fs2)))
     else prune_dirs dir active ns fs)"

definition prune_below :: "path \<Rightarrow> string list \<Rightarrow> host_fs \<Rightarrow> nat \<times> host_fs" where
  "prune_below dir active fs =
    (if path_exists fs dir \<and> is_dir_path fs dir then prune_dirs dir active (child_names fs (the (resolve fs dir))) fs else (0, fs))"

definition prune :: "service_config \<Rightarrow> 'x runtime \<Rightarrow> nat \<times> 'x runtime" where
  "prune cf st =
    (let wl = filter (\<lambda>(i, s). ws_status s \<noteq> ''exited'') (rt_workloads st);
         active = map fst wl
     in case prune_below (cf_store_root cf @ [''bundles'']) active (rt_fs st) of (k, fs1) \<Rightarrow>
          let fs2 = fold (\<lambda>(i, p) fs. if i \<in> set active then fs else snd (remove_dir_all p fs)) (rt_rootfs_cache st) fs1
          in (k, st\<lparr>rt_workloads := wl,
                    rt_rootfs_cache := filter (\<lambda>(i, p). i \<in> set active) (rt_rootfs_cache st),
                    rt_fs := snd (prune_below (cf_store_root cf @ [''run'', ''secrets-stage'']) active fs2)\<rparr>))"

section \<open>Restarting a workload\<close>

text \<open>Seconds to wait before the restart.\<close>

definition restart_backoff :: "u32 \<Rightarrow> nat" where
  "restart_backoff restart_count = min (2 ^ min (unat restart_count) 63) 30"

text \<open>The state a restart starts from; none when the workload is gone or has not exited.\<close>

definition restart_begin :: "string \<Rightarrow> 'x runtime \<Rightarrow> workload_state option" where
  "restart_begin i st =
    (case map_of (rt_workloads st) i of
       None \<Rightarrow> None
     | Some s \<Rightarrow> if ws_status s \<noteq> ''exited'' then None else Some s)"

definition restart_mode :: "workload_state \<Rightarrow> string" where
  "restart_mode s =
    (if ws_network_mode s \<noteq> [] then ws_network_mode s
     else if ws_internal_ip s \<noteq> None then ''bridge'' else ''isolated'')"

definition restart_spec :: "ext \<Rightarrow> string \<Rightarrow> string \<Rightarrow> workload_state \<Rightarrow> run_spec option" where
  "restart_spec E i backend s =
    (case backend_from_str backend of
       Inl _ \<Rightarrow> None
     | Inr b \<Rightarrow>
         (case from_hex E (ws_image_root s) of
            Inl _ \<Rightarrow> None
          | Inr d \<Rightarrow>
              Some \<lparr>rs_id = i, rs_image_root = d, rs_backend = b, rs_command = ws_command s, rs_env = ws_env s,
                    rs_cpu_millicores = ws_cpu_millicores s, rs_memory_bytes = ws_memory_bytes s,
                    rs_network_mode = parse_network_mode (restart_mode s) (ws_network_rules s \<noteq> []),
                    rs_network_rules = ws_network_rules s, rs_kernel_path = None, rs_bridge_name = ws_bridge_name s,
                    rs_mounts = ws_mounts s, rs_health_check = ws_health_check s, rs_restart_policy = Always,
                    rs_readonly_rootfs = ws_readonly_rootfs s, rs_no_new_privileges = ws_no_new_privileges s,
                    rs_seccomp_profile = ws_seccomp_profile s, rs_allowed_syscalls = ws_allowed_syscalls s,
                    rs_privileged = ws_privileged s, rs_dns = ws_dns s\<rparr>))"

definition restarted_state :: "int \<Rightarrow> process_handle \<Rightarrow> workload_state \<Rightarrow> workload_state" where
  "restarted_state now h s =
    s\<lparr>ws_status := ''running'', ws_start_time := now, ws_exit_time := 0, ws_exit_code := None,
      ws_pid := (case ph_pid h of None \<Rightarrow> 0 | Some p \<Rightarrow> p), ws_internal_ip := ph_internal_ip h,
      ws_restart_count := ws_restart_count s + 1\<rparr>"

text \<open>After the wait: create and start from the remembered state, and mark whatever state the
  workload has by then.\<close>

definition restart_finish ::
    "'x runtime_env \<Rightarrow> int \<Rightarrow> string \<Rightarrow> string \<Rightarrow> workload_state \<Rightarrow> 'x runtime \<Rightarrow> 'x runtime" where
  "restart_finish V now i backend s0 st =
    (case restart_spec (re_ext V) i backend s0 of
       None \<Rightarrow> st
     | Some spec \<Rightarrow>
         (case router_create (re_router V) spec (rt_exec st) of
            (Inl _, x1) \<Rightarrow> st\<lparr>rt_exec := x1\<rparr>
          | (Inr h, x1) \<Rightarrow>
              (case router_start (re_router V) h x1 of
                 (Inl _, x2) \<Rightarrow> st\<lparr>rt_exec := x2\<rparr>
               | (Inr h2, x2) \<Rightarrow>
                   (let st2 = st\<lparr>rt_exec := x2\<rparr>
                    in case map_of (rt_workloads st2) i of
                         None \<Rightarrow> st2
                       | Some s \<Rightarrow>
                           (let s' = restarted_state now h2 s
                            in emit (with_metadata ''restart_count'' (nat_to_string (unat (ws_restart_count s')))
                                       (with_metadata ''source'' ''restart_watcher'' (with_metadata ''backend'' (ph_backend h2)
                                          (event_new now i WorkloadStarted))))
                                 (write_workload_checkpoint i s' (set_workload i s' st2)))))))"

section \<open>The exit watcher\<close>

definition running_ids :: "'x runtime \<Rightarrow> (string \<times> string) list" where
  "running_ids st = map (\<lambda>(i, s). (i, ws_backend s)) (filter (\<lambda>(i, s). ws_status s = ''running'') (rt_workloads st))"

definition restart_wanted :: "u32 option \<Rightarrow> restart_policy \<Rightarrow> bool" where
  "restart_wanted ec p \<longleftrightarrow> p = Always \<or> p = UnlessStopped \<or> p = OnFailure \<and> ec \<noteq> Some 0"

definition exited_event :: "int \<Rightarrow> string \<Rightarrow> string \<Rightarrow> string \<Rightarrow> string \<Rightarrow> event" where
  "exited_event now i backend ec source =
    with_metadata ''source'' source (with_metadata ''exit_code'' ec (with_metadata ''backend'' backend
      (event_new now i WorkloadExited)))"

definition show_code :: "u32 option \<Rightarrow> string" where
  "show_code c = (case c of None \<Rightarrow> ''unknown'' | Some n \<Rightarrow> nat_to_string (unat n))"

text \<open>
  What the watcher does about one workload: \<open>None\<close> when it goes on to the next one,
  otherwise whether a restart is to be attempted.
\<close>

definition exit_seen ::
    "int \<Rightarrow> string \<Rightarrow> string \<Rightarrow> u32 option \<Rightarrow> string \<Rightarrow> (restart_policy \<Rightarrow> bool) \<Rightarrow> string \<Rightarrow> 'x runtime \<Rightarrow>
     bool option \<times> 'x runtime" where
  "exit_seen now i backend ec gone_code wanted source st =
    (case map_of (rt_workloads st) i of
       None \<Rightarrow> (Some False, emit (exited_event now i backend gone_code source) st)
     | Some s \<Rightarrow>
         if ws_status s \<noteq> ''running'' then (None, st)
         else (let s' = s\<lparr>ws_status := ''exited'', ws_exit_time := now, ws_exit_code := ec\<rparr>
               in (Some (wanted (ws_restart_policy s)),
                   emit (exited_event now i backend (show_code ec) source)
                     (write_workload_checkpoint i s' (set_workload i s' st)))))"

definition watch_one ::
    "'x runtime_env \<Rightarrow> int \<Rightarrow> string list \<Rightarrow> string \<Rightarrow> string \<Rightarrow> 'x runtime \<Rightarrow> bool option \<times> 'x runtime" where
  "watch_one V now announced i backend st =
    (if i \<in> set announced then (None, st)
     else case router_status (re_router V) i (rt_exec st) of
            (Inr t, x1) \<Rightarrow>
              if t \<noteq> ''running'' \<and> t \<noteq> []
              then exit_seen now i backend (parse_exit_code t) ''unknown'' (restart_wanted (parse_exit_code t)) ''watcher''
                     (st\<lparr>rt_exec := x1\<rparr>)
              else (None, st\<lparr>rt_exec := x1\<rparr>)
          | (Inl _, x1) \<Rightarrow>
              if backend = ''vm'' then (None, st\<lparr>rt_exec := x1\<rparr>)
              else exit_seen now i backend (Some 137) ''137'' (\<lambda>p. p \<noteq> RestartNo) ''watcher_best_effort'' (st\<lparr>rt_exec := x1\<rparr>))"

definition retain_live :: "'x runtime \<Rightarrow> string list \<Rightarrow> string list" where
  "retain_live st announced = filter (\<lambda>i. map_of (rt_workloads st) i \<noteq> None) announced"

section \<open>Health checks\<close>

record health_probe =
  hp_id :: string
  hp_test :: "string list"
  hp_timeout :: u32
  hp_retries :: u32
  hp_grace_end :: int

text \<open>Whether a workload is probed in this tick; \<open>jitter\<close> is the hash of its id.\<close>

definition probe_due :: "(string \<Rightarrow> u64) \<Rightarrow> int \<Rightarrow> string \<Rightarrow> health_check \<Rightarrow> workload_state \<Rightarrow> bool" where
  "probe_due jitter now i hc s \<longleftrightarrow>
    (nat now + unat (jitter i)) mod 2 ^ 64 mod unat (max (interval_seconds hc) 1) = 0 \<or>
    now \<ge> (ws_start_time s + int (unat (start_period_seconds hc))) mod 2 ^ 64"

definition probes :: "(string \<Rightarrow> u64) \<Rightarrow> int \<Rightarrow> 'x runtime \<Rightarrow> health_probe list" where
  "probes jitter now st =
    concat (map (\<lambda>(i, s).
      if ws_status s \<noteq> ''running'' then []
      else case ws_health_check s of
             None \<Rightarrow> []
           | Some hc \<Rightarrow>
               if probe_due jitter now i hc s
               then [\<lparr>hp_id = i, hp_test = hc_test hc, hp_timeout = max (timeout_seconds hc) 1, hp_retries = max (retries hc) 1,
                      hp_grace_end = ws_start_time s + int (unat (start_period_seconds hc))\<rparr>]
               else []) (rt_workloads st))"

definition health_of :: "bool \<Rightarrow> int \<Rightarrow> u32 \<Rightarrow> workload_state \<Rightarrow> workload_state" where
  "health_of healthy now limit s =
    (if healthy then s\<lparr>ws_health := ''healthy'', ws_health_failures := 0, ws_health_last_success := now\<rparr>
     else let n = ws_health_failures s + 1
          in if n \<ge> limit then s\<lparr>ws_health_failures := n, ws_health := ''unhealthy''\<rparr>
             else if ws_health s \<noteq> ''unhealthy'' then s\<lparr>ws_health_failures := n, ws_health := ''starting''\<rparr>
             else s\<lparr>ws_health_failures := n\<rparr>)"

definition run_probe :: "'x runtime_env \<Rightarrow> int \<Rightarrow> health_probe \<Rightarrow> 'x runtime \<Rightarrow> 'x runtime" where
  "run_probe V now p st =
    (if now < hp_grace_end p then st
     else case router_exec (re_router V) (hp_id p) (hp_test p) (ucast (hp_timeout p)) (rt_exec st) of (r, x1) \<Rightarrow>
            (let healthy = (case r of Inl _ \<Rightarrow> False | Inr out \<Rightarrow> eo_exit_code out = 0);
                 st1 = st\<lparr>rt_exec := x1\<rparr>
             in (case map_of (rt_workloads st1) (hp_id p) of
                   None \<Rightarrow> st1
                 | Some s \<Rightarrow> set_workload (hp_id p) (health_of healthy now (hp_retries p) s) st1)))"

definition health_tick :: "'x runtime_env \<Rightarrow> (string \<Rightarrow> u64) \<Rightarrow> int \<Rightarrow> 'x runtime \<Rightarrow> 'x runtime" where
  "health_tick V jitter now st = fold (run_probe V now) (probes jitter now st) st"

section \<open>Interleaving\<close>

text \<open>
  Requests and background tasks run concurrently.  A step of the system is one
  critical section with the checkpoint it writes: a run, the check of a stop, the
  end of a stop, one workload looked at by the watcher, the end of its wait, a round
  of health checks, a pruning, or a change of the executors' own state (a process
  exits).  The watcher handles one workload after the other and sleeps inside a
  restart; a stop waits for the executor between its check and its end.
\<close>

datatype watcher_pc =
    Sleeping
  | Watching "(string \<times> string) list"
  | Backoff string string workload_state "(string \<times> string) list"

record 'x system =
  sys_rt :: "'x runtime"
  sys_announced :: "string list"
  sys_pc :: watcher_pc
  sys_stops :: "string list"

datatype action =
    ARun run_request | AStop string | AStopDone string | ATick | AWatch | AWake | AHealth | APrune | AWorld

definition after_watch ::
    "string \<Rightarrow> string \<Rightarrow> (string \<times> string) list \<Rightarrow> bool option \<Rightarrow> 'x runtime \<Rightarrow> 'x system \<Rightarrow> 'x system" where
  "after_watch i b todo seen rt s =
    (case seen of
       None \<Rightarrow> s\<lparr>sys_rt := rt, sys_pc := Watching todo\<rparr>
     | Some restart \<Rightarrow>
         if restart
         then (case restart_begin i rt of
                 None \<Rightarrow> s\<lparr>sys_rt := rt, sys_pc := Watching todo\<rparr>
               | Some w \<Rightarrow> s\<lparr>sys_rt := rt, sys_pc := Backoff i b w todo\<rparr>)
         else s\<lparr>sys_rt := rt, sys_pc := Watching todo, sys_announced := List.insert i (sys_announced s)\<rparr>)"

inductive sys_step ::
    "'x runtime_env \<Rightarrow> service_config \<Rightarrow> (string \<Rightarrow> u64) \<Rightarrow> 'x system \<Rightarrow> action \<Rightarrow> 'x system \<Rightarrow> bool"
  for V cf jitter where
  run: "sys_step V cf jitter s (ARun req) (s\<lparr>sys_rt := snd (run_workload V cf now req (sys_rt s))\<rparr>)"
| stop: "stop_check i (sys_rt s) = Inr True \<Longrightarrow> sys_step V cf jitter s (AStop i) (s\<lparr>sys_stops := i # sys_stops s\<rparr>)"
| stop_nothing: "stop_check i (sys_rt s) \<noteq> Inr True \<Longrightarrow> sys_step V cf jitter s (AStop i) s"
| stop_done: "i \<in> set (sys_stops s) \<Longrightarrow>
    sys_step V cf jitter s (AStopDone i)
      (s\<lparr>sys_stops := remove1 i (sys_stops s), sys_rt := snd (stop_task V cf now i (sys_rt s))\<rparr>)"
| tick: "sys_pc s = Sleeping \<Longrightarrow> sys_step V cf jitter s ATick (s\<lparr>sys_pc := Watching (running_ids (sys_rt s))\<rparr>)"
| watch: "sys_pc s = Watching ((i, b) # todo) \<Longrightarrow> watch_one V now (sys_announced s) i b (sys_rt s) = (seen, rt) \<Longrightarrow>
    sys_step V cf jitter s AWatch (after_watch i b todo seen rt s)"
| watched: "sys_pc s = Watching [] \<Longrightarrow>
    sys_step V cf jitter s AWatch (s\<lparr>sys_pc := Sleeping, sys_announced := retain_live (sys_rt s) (sys_announced s)\<rparr>)"
| wake: "sys_pc s = Backoff i b w todo \<Longrightarrow>
    sys_step V cf jitter s AWake (s\<lparr>sys_pc := Watching todo, sys_rt := restart_finish V now i b w (sys_rt s)\<rparr>)"
| health: "sys_step V cf jitter s AHealth (s\<lparr>sys_rt := health_tick V jitter now (sys_rt s)\<rparr>)"
| prune: "sys_step V cf jitter s APrune (s\<lparr>sys_rt := snd (prune cf (sys_rt s))\<rparr>)"
| world: "sys_step V cf jitter s AWorld (s\<lparr>sys_rt := (sys_rt s)\<lparr>rt_exec := x\<rparr>\<rparr>)"

definition started :: "'x runtime \<Rightarrow> 'x system" where
  "started rt = \<lparr>sys_rt = rt, sys_announced = [], sys_pc = Sleeping, sys_stops = []\<rparr>"

text \<open>
  Any steps, and any number of crashes (\<open>None\<close>) with a new start: the executors may
  have changed meanwhile, and \<open>alive\<close> is what \<^verbatim>\<open>runc\<close> reports then.  A crash comes
  between two steps, so a checkpoint is written with the change it records.
\<close>

inductive history ::
    "'x runtime_env \<Rightarrow> service_config \<Rightarrow> (string \<Rightarrow> u64) \<Rightarrow> 'x system \<Rightarrow> action option list \<Rightarrow> 'x system \<Rightarrow> bool"
  for V cf jitter s where
  none: "history V cf jitter s [] s"
| step: "history V cf jitter s as s' \<Longrightarrow> sys_step V cf jitter s' a s'' \<Longrightarrow> history V cf jitter s (as @ [Some a]) s''"
| crash: "history V cf jitter s as s' \<Longrightarrow>
    history V cf jitter s (as @ [None]) (started (start_service (re_ext V) now nanos alive ((sys_rt s')\<lparr>rt_exec := x\<rparr>)))"

inductive_cases stop_stepE: "sys_step V cf jitter s (AStop i) s'"

inductive_cases wake_stepE: "sys_step V cf jitter s AWake s'"

end
