(* ===== verification/Workload_Tables.thy ===== *)
theory Workload_Tables
  imports Workload_Service
begin

text \<open>
  The tables of workloads and checkpoints: what each request and each background
  task changes in them, and that they stay consistent through every interleaving and
  every crash.
\<close>

declare map_of_eq_Some_iff [simp del]

section \<open>Effects on the tables\<close>

definition tables :: "'x runtime \<Rightarrow> (string \<times> workload_state) list \<times> (string \<times> workload_state) list" where
  "tables st = (rt_workloads st, rt_checkpoints st)"

lemma tables_simps [simp]:
  "tables (st\<lparr>rt_store := a\<rparr>) = tables st" "tables (st\<lparr>rt_exec := b\<rparr>) = tables st" "tables (st\<lparr>rt_fs := c\<rparr>) = tables st"
  "tables (st\<lparr>rt_secrets := d\<rparr>) = tables st" "tables (st\<lparr>rt_kernel_cache := k\<rparr>) = tables st" "tables (emit e st) = tables st"
  "tables (st\<lparr>rt_rootfs_cache := r\<rparr>) = tables st"
  by (simp_all add: tables_def)

text \<open>A chain of steps that keep \<open>Q\<close> ends with \<open>P\<close> if \<open>Q\<close> is enough for it and the last step gives it.\<close>

lemma and_then_chain:
  assumes "Q (snd r)" "\<And>s. Q s \<Longrightarrow> P s" "\<And>a s. Q s \<Longrightarrow> P (snd (f a s))"
  shows "P (snd (and_then r f))"
  using assms by (auto simp: and_then_def split: prod.splits sum.splits)

lemma stage_kernel_tables: "tables (snd (stage_vm_kernel V cf now req b st)) = tables st"
  by (simp add: stage_vm_kernel_def split: prod.splits sum.splits)

lemma policy_verdict_tables: "tables (snd (policy_verdict V eng denied ref h st)) = tables st"
  by (simp add: policy_verdict_def split: prod.splits sum.splits policy_decision.splits)

lemma evaluate_for_run_tables: "tables (snd (evaluate_for_run V cf h st)) = tables st"
  by (simp add: evaluate_for_run_def policy_verdict_tables Let_def split: option.splits)

lemma check_architecture_tables: "tables (snd (check_architecture V req b st)) = tables st"
  by (simp add: check_architecture_def split: prod.splits sum.splits)

lemma prepare_stage_tables: "tables (snd (prepare_stage cf req st)) = tables st"
  by (simp add: prepare_stage_def split: prod.splits sum.splits)

lemma stage_secrets_tables: "tables (snd (stage_secrets V dir rs st)) = tables st"
proof (induction rs arbitrary: st)
  case (Cons r rs)
  then show ?case by (auto simp: and_then_def split: prod.splits sum.splits) (metis snd_conv tables_simps(3,4))+
qed simp

lemma stage_configs_tables: "tables (snd (stage_configs dir rs st)) = tables st"
proof (induction rs arbitrary: st)
  case (Cons r rs)
  then show ?case by (auto simp: and_then_def split: prod.splits sum.splits) (metis snd_conv tables_simps(3))+
qed simp

text \<open>Both tables get the same new entry, or stay.\<close>

definition tables_put :: "string \<Rightarrow> workload_state \<Rightarrow> 'x runtime \<Rightarrow> 'x runtime \<Rightarrow> bool" where
  "tables_put i w st st' \<longleftrightarrow>
    tables st' = (AList.update i w (rt_workloads st), AList.update i w (rt_checkpoints st))"

lemma tables_put_cong: "tables st = tables st0 \<Longrightarrow> tables_put i w st st' \<longleftrightarrow> tables_put i w st0 st'"
  by (simp add: tables_put_def tables_def)

lemma launch_tables:
  "tables (snd (launch V cf now req b spec (st :: 'x runtime))) = tables st \<or>
   (\<exists>h (st2 :: 'x runtime). tables_put (rq_id req) (running_state cf now req spec h st2) st (snd (launch V cf now req b spec st)))"
proof -
  obtain r1 x1 where create: "router_create (re_router V) spec (rt_exec st) = (r1, x1)" by fastforce
  show ?thesis
  proof (cases r1)
    case (Inr h)
    obtain r2 x2 where start: "router_start (re_router V) h x1 = (r2, x2)" by fastforce
    show ?thesis
    proof (cases r2)
      case h2: (Inr h2)
      then have "\<exists>(st2 :: 'x runtime). tables_put (rq_id req) (running_state cf now req spec h2 st2) st (snd (launch V cf now req b spec st))"
        using create start Inr by (simp add: launch_def Let_def tables_put_def tables_def) blast
      then show ?thesis by blast
    qed (use create start Inr in \<open>simp add: launch_def Let_def\<close>)
  qed (use create in \<open>simp add: launch_def Let_def\<close>)
qed

lemma run_workload_tables:
  "tables (snd (run_workload V cf now req (st :: 'x runtime))) = tables st \<or>
   (\<exists>req' spec h (st2 :: 'x runtime). tables_put (rq_id req) (running_state cf now req' spec h st2) st (snd (run_workload V cf now req st)))"
proof -
  define req' where "req' = req\<lparr>rq_root_digest := strip_sha256 (rq_root_digest req)\<rparr>"
  have rq_id: "rq_id req' = rq_id req" by (simp add: req'_def)
  define Q where "Q s \<longleftrightarrow> tables s = tables st" for s :: "'x runtime"
  define P where "P s \<longleftrightarrow> Q s \<or> (\<exists>req' spec h (st2 :: 'x runtime). tables_put (rq_id req) (running_state cf now req' spec h st2) st s)" for s
  have QP: "P s" if "Q s" for s using that by (simp add: P_def)
  have steps: "Q (snd (stage_vm_kernel V cf now r b s))" "Q (snd (evaluate_for_run V cf h s))"
    "Q (snd (check_architecture V r b s))" "Q (snd (prepare_stage cf r s))" "Q (snd (stage_secrets V dir rs s))"
    "Q (snd (stage_configs dir rs s))" if "Q s" for s r b h dir rs
    using that by (simp_all add: Q_def stage_kernel_tables evaluate_for_run_tables check_architecture_tables
        prepare_stage_tables stage_secrets_tables stage_configs_tables)
  have launched: "P (snd (launch V cf now req' b spec s))" if "Q s" for b spec s
    using launch_tables [of V cf now req' b spec s] that tables_put_cong [of s st] rq_id by (metis P_def Q_def)
  have "Q st" by (simp add: Q_def)
  then have "P (snd (run_workload V cf now req st))"
    unfolding run_workload_def Let_def req'_def [symmetric]
    by (auto split: sum.splits simp: QP intro!: and_then_chain [of Q _ P] launched steps)
  then show ?thesis by (simp add: P_def Q_def)
qed

section \<open>The tables stay consistent\<close>

definition wf_workload :: "workload_state \<Rightarrow> bool" where
  "wf_workload w \<longleftrightarrow> ws_status w \<in> {''running'', ''stopped'', ''exited''} \<and>
    (ws_status w = ''running'' \<longrightarrow> ws_exit_time w = 0 \<and> ws_exit_code w = None)"

text \<open>What a checkpoint must agree on with the workload: everything but the health and the outcome.\<close>

definition core :: "workload_state \<Rightarrow> workload_state" where
  "core w = w\<lparr>ws_status := [], ws_exit_time := 0, ws_exit_code := None, ws_health := [], ws_health_failures := 0,
             ws_health_last_success := 0\<rparr>"

definition checkpoint_ok :: "workload_state \<Rightarrow> workload_state \<Rightarrow> bool" where
  "checkpoint_ok c w \<longleftrightarrow> core c = core w \<and>
    (ws_status c = ws_status w \<or> ws_status c = ''running'' \<and> ws_status w = ''exited'')"

definition tables_ok :: "'x runtime \<Rightarrow> bool" where
  "tables_ok st \<longleftrightarrow> distinct (map fst (rt_workloads st)) \<and> distinct (map fst (rt_checkpoints st)) \<and>
    (\<forall>i c. map_of (rt_checkpoints st) i = Some c \<longrightarrow> wf_workload c) \<and>
    (\<forall>i w. map_of (rt_workloads st) i = Some w \<longrightarrow>
      wf_workload w \<and> (\<exists>c. map_of (rt_checkpoints st) i = Some c \<and> checkpoint_ok c w))"

lemma tables_ok_cong: "tables st' = tables st \<Longrightarrow> tables_ok st' \<longleftrightarrow> tables_ok st"
  by (simp add: tables_ok_def tables_def)

lemma tables_ok_exec [simp]: "tables_ok (st\<lparr>rt_exec := x\<rparr>) \<longleftrightarrow> tables_ok st"
  by (rule tables_ok_cong) simp

lemma tables_put_ok:
  assumes "tables_ok st" "tables_put i w st st'" "wf_workload w"
  shows "tables_ok st'"
  using assms by (auto simp: tables_ok_def tables_put_def tables_def checkpoint_ok_def split: if_splits)

lemma wf_running_state [simp]: "wf_workload (running_state cf now req spec h st)"
  by (simp add: wf_workload_def running_state_def)

lemma run_workload_ok: "tables_ok st \<Longrightarrow> tables_ok (snd (run_workload V cf now req st))"
  using run_workload_tables [of V cf now req st] tables_put_ok tables_ok_cong wf_running_state by metis

lemma finish_stop_tables:
  "tables (finish_stop cf now i st) = tables st \<or>
   (\<exists>w. map_of (rt_workloads st) i = Some w \<and> ws_status w \<in> {''running'', ''pending''} \<and>
      tables_put i (the (stopped_state now w)) st (finish_stop cf now i st))"
  by (auto simp: finish_stop_def Let_def tables_put_def tables_def stopped_state_def split: option.splits if_splits)

lemma finish_stop_ok: "tables_ok st \<Longrightarrow> tables_ok (finish_stop cf now i st)"
proof -
  assume ok: "tables_ok st"
  have "wf_workload (the (stopped_state now w))" if "ws_status w \<in> {''running'', ''pending''}" for w
    using that by (auto simp: wf_workload_def stopped_state_def)
  then show ?thesis using finish_stop_tables [of cf now i st] ok tables_put_ok tables_ok_cong by metis
qed

lemma stop_task_ok: "tables_ok st \<Longrightarrow> tables_ok (snd (stop_task V cf now i st))"
  by (auto simp: stop_task_def intro: finish_stop_ok split: prod.splits sum.splits)

lemma restart_finish_tables:
  "tables (restart_finish V now i b w0 st) = tables st \<or>
   (\<exists>w h. map_of (rt_workloads st) i = Some w \<and> tables_put i (restarted_state now h w) st (restart_finish V now i b w0 st))"
  by (auto simp: restart_finish_def Let_def tables_put_def tables_def split: option.splits prod.splits sum.splits)

lemma restart_finish_ok: "tables_ok st \<Longrightarrow> tables_ok (restart_finish V now i b w st)"
proof -
  assume ok: "tables_ok st"
  have "wf_workload (restarted_state now h w)" for h w by (simp add: wf_workload_def restarted_state_def)
  then show ?thesis using restart_finish_tables [of V now i b w st] ok tables_put_ok tables_ok_cong by metis
qed

lemma exit_seen_tables:
  assumes "exit_seen now i b ec gone wanted source st = (seen, st')"
  shows "tables st' = tables st \<and> seen \<noteq> Some True \<or>
    (\<exists>w. map_of (rt_workloads st) i = Some w \<and> ws_status w = ''running'' \<and> seen = Some (wanted (ws_restart_policy w)) \<and>
      tables_put i (w\<lparr>ws_status := ''exited'', ws_exit_time := now, ws_exit_code := ec\<rparr>) st st')"
  using assms by (auto simp: exit_seen_def Let_def tables_put_def tables_def split: option.splits if_splits)

lemma watch_one_tables:
  assumes "watch_one V now announced i b st = (seen, st')"
  shows "tables st' = tables st \<and> seen \<noteq> Some True \<or>
    (\<exists>w ec. map_of (rt_workloads st) i = Some w \<and> ws_status w = ''running'' \<and>
      tables_put i (w\<lparr>ws_status := ''exited'', ws_exit_time := now, ws_exit_code := ec\<rparr>) st st')"
proof (cases "i \<in> set announced")
  case False
  obtain r x1 where r: "router_status (re_router V) i (rt_exec st) = (r, x1)" by fastforce
  have seen: "seen = None \<and> st' = st\<lparr>rt_exec := x1\<rparr> \<or>
    (\<exists>ec gone wanted source. exit_seen now i b ec gone wanted source (st\<lparr>rt_exec := x1\<rparr>) = (seen, st'))"
    using assms False r by (auto simp: watch_one_def split: sum.splits if_splits)
  have put: "tables_put j w (st\<lparr>rt_exec := x1\<rparr>) st' \<longleftrightarrow> tables_put j w st st'" for j w
    by (rule tables_put_cong) simp
  from seen show ?thesis
  proof
    assume "\<exists>ec gone wanted source. exit_seen now i b ec gone wanted source (st\<lparr>rt_exec := x1\<rparr>) = (seen, st')"
    then show ?thesis using exit_seen_tables put by fastforce
  qed simp
qed (use assms in \<open>simp add: watch_one_def\<close>)

lemma watch_one_ok:
  assumes "tables_ok st" "watch_one V now announced i b st = (seen, st')"
  shows "tables_ok st'"
proof -
  have "wf_workload (w\<lparr>ws_status := ''exited'', ws_exit_time := now, ws_exit_code := ec\<rparr>)" for w ec
    by (simp add: wf_workload_def)
  then show ?thesis using watch_one_tables [OF assms(2)] assms(1) tables_put_ok tables_ok_cong by metis
qed

lemma core_health_of [simp]: "core (health_of healthy now n w) = core w" "ws_status (health_of healthy now n w) = ws_status w"
  "ws_exit_time (health_of healthy now n w) = ws_exit_time w" "ws_exit_code (health_of healthy now n w) = ws_exit_code w"
  by (simp_all add: health_of_def core_def Let_def)

lemma tables_update_ok:
  assumes ok: "tables_ok st" and w: "map_of (rt_workloads st) i = Some w" "core w' = core w" "ws_status w' = ws_status w" "wf_workload w'"
    and st': "rt_workloads st' = AList.update i w' (rt_workloads st)" "rt_checkpoints st' = rt_checkpoints st"
  shows "tables_ok st'"
proof -
  obtain c where c: "map_of (rt_checkpoints st) i = Some c" "checkpoint_ok c w" using ok w(1) unfolding tables_ok_def by blast
  have "checkpoint_ok c w'" using c(2) w(2,3) by (simp add: checkpoint_ok_def)
  then show ?thesis
    using ok w(4) c(1) unfolding tables_ok_def st' by simp
qed

lemma run_probe_ok: "tables_ok st \<Longrightarrow> tables_ok (run_probe V now p st)"
proof -
  assume ok: "tables_ok st"
  obtain r x1 where r: "router_exec (re_router V) (hp_id p) (hp_test p) (ucast (hp_timeout p)) (rt_exec st) = (r, x1)"
    by fastforce
  show ?thesis
  proof (cases "now < hp_grace_end p \<or> map_of (rt_workloads st) (hp_id p) = None")
    case True
    then show ?thesis using ok r by (auto simp: run_probe_def Let_def)
  next
    case False
    then obtain w where w: "map_of (rt_workloads st) (hp_id p) = Some w" by blast
    then have "wf_workload (health_of h now n w)" for h n
      using ok unfolding tables_ok_def wf_workload_def core_health_of by blast
    then have "tables_ok (set_workload (hp_id p) (health_of h now n w) (st\<lparr>rt_exec := x1\<rparr>))" for h n
      by (intro tables_update_ok [OF ok w]) simp_all
    then show ?thesis using False w r by (simp add: run_probe_def Let_def)
  qed
qed

lemma health_tick_ok: "tables_ok st \<Longrightarrow> tables_ok (health_tick V jitter now st)"
proof -
  have "tables_ok st \<Longrightarrow> tables_ok (fold (run_probe V now) ps st)" for ps and st :: "'a runtime"
    by (induction ps arbitrary: st) (auto intro: run_probe_ok)
  then show "tables_ok st \<Longrightarrow> tables_ok (health_tick V jitter now st)" by (simp add: health_tick_def)
qed

lemma kept_lookup:
  assumes "distinct (map fst table)"
  shows "map_of (filter keep table) i = Option.bind (map_of table i) (\<lambda>w. if keep (i, w) then Some w else None)"
  using assms
proof (induction table)
  case (Cons e table)
  have "map_of (filter keep table) i = None \<and> map_of table i = None" if "i = fst e"
    using that Cons.prems by (fastforce simp: map_of_eq_None_iff)
  with Cons show ?case by (cases e) auto
qed simp

lemma prune_tables:
  "rt_workloads (snd (prune cf st)) = filter (\<lambda>(i, w). ws_status w \<noteq> ''exited'') (rt_workloads st)"
  "rt_checkpoints (snd (prune cf st)) = rt_checkpoints st"
  by (simp_all add: prune_def Let_def split: prod.splits)

lemma prune_ok: "tables_ok st \<Longrightarrow> tables_ok (snd (prune cf st))"
  by (auto simp: tables_ok_def prune_tables kept_lookup distinct_map_filter split: bind_splits if_splits)

lemma map_of_map_values: "map_of (map (\<lambda>(i, w). (i, f i w)) xs) k = map_option (f k) (map_of xs k)"
  by (induction xs) auto

lemma recover_map: "map (recover_workload now alive) xs = map (\<lambda>(i, w). (i, snd (recover_workload now alive (i, w)))) xs"
  by (auto simp: recover_workload_def)

lemma recover_ok:
  assumes "wf_workload w"
  shows "wf_workload (snd (recover_workload now alive (i, w)))" "checkpoint_ok w (snd (recover_workload now alive (i, w)))"
  using assms by (auto simp: wf_workload_def checkpoint_ok_def recover_workload_def core_def)

lemma migrate_ok:
  assumes "tables_ok st"
  shows "tables_ok (migrate_kernel_digests st)"
proof -
  define tags where "tags = rt_image_tags st"
  define wl where "wl = map (\<lambda>(i, s). (i, migrate_workload tags s)) (rt_workloads st)"
  define migrated where "migrated \<longleftrightarrow>
    (\<exists>s \<in> snd ` set (rt_workloads st). needs_kernel_digest s \<and> find_tag tags (ws_kernel_image_ref s) \<noteq> None)"
  have wf: "wf_workload (migrate_workload tags w) = wf_workload w" for w
    by (simp add: wf_workload_def migrate_workload_def split: option.splits)
  have lookup: "map_of wl i = map_option (migrate_workload tags) (map_of (rt_workloads st) i)" for i
    by (simp add: wl_def map_of_map_values)
  have keys: "map fst wl = map fst (rt_workloads st)" by (induction "rt_workloads st") (auto simp: wl_def)
  show ?thesis
  proof (cases migrated)
    case False
    then have "migrate_workload tags w = w" if "map_of (rt_workloads st) i = Some w" for i w
      using map_of_SomeD [OF that] unfolding migrated_def migrate_workload_def by (force split: option.splits)
    then have "map_of wl i = map_of (rt_workloads st) i" for i
      using lookup [of i] by (cases "map_of (rt_workloads st) i") simp_all
    then have same: "map_of wl = map_of (rt_workloads st)" by blast
    have "migrate_kernel_digests st = st\<lparr>rt_workloads := wl\<rparr>"
      unfolding migrate_kernel_digests_def Let_def tags_def [symmetric] wl_def [symmetric] migrated_def [symmetric]
      using False by simp
    then show ?thesis using assms same keys by (simp add: tables_ok_def)
  next
    case True
    define wr where "wr = (\<lambda>(i, s). write_workload_checkpoint i s :: 'a runtime \<Rightarrow> _)"
    have fold: "rt_workloads (fold wr xs r) = rt_workloads r \<and>
        map_of (rt_checkpoints (fold wr xs r)) k = (case map_of (rev xs) k of None \<Rightarrow> map_of (rt_checkpoints r) k | Some w \<Rightarrow> Some w) \<and>
        (distinct (map fst (rt_checkpoints r)) \<longrightarrow> distinct (map fst (rt_checkpoints (fold wr xs r))))" for xs r k
      by (induction xs arbitrary: r) (auto simp: wr_def map_add_def split: option.splits)
    have "distinct (map fst wl)" using assms keys by (simp add: tables_ok_def)
    then have rev: "map_of (rev wl) = map_of wl" by (simp add: map_of_inject_set rev_map [symmetric])
    have mig: "migrate_kernel_digests st = fold wr wl (st\<lparr>rt_workloads := wl\<rparr>)"
      unfolding migrate_kernel_digests_def Let_def wr_def tags_def [symmetric] wl_def [symmetric] migrated_def [symmetric]
      using True by simp
    show ?thesis
      using assms fold [of wl "st\<lparr>rt_workloads := wl\<rparr>"] lookup wf keys
      by (auto simp: tables_ok_def mig rev checkpoint_ok_def split: option.splits)
  qed
qed

lemma start_service_ok:
  assumes "distinct (map fst (rt_checkpoints st))" "\<forall>i c. map_of (rt_checkpoints st) i = Some c \<longrightarrow> wf_workload c"
  shows "tables_ok (start_service E now nanos alive st)"
proof -
  define st0 where "st0 = st\<lparr>rt_workloads := map (recover_workload now alive) (rt_checkpoints st), rt_image_tags := rt_saved_tags st,
    rt_events := [], rt_kernel_cache := [], rt_rootfs_cache := []\<rparr>"
  have keys: "map fst (map (recover_workload now alive) xs) = map fst xs" for xs
    by (induction xs) (auto simp: recover_workload_def)
  have lookup: "map_of (rt_workloads st0) i = map_option (\<lambda>w. snd (recover_workload now alive (i, w))) (map_of (rt_checkpoints st) i)" for i
  proof -
    have "rt_workloads st0 = map (recover_workload now alive) (rt_checkpoints st)" by (simp add: st0_def)
    then show ?thesis by (simp only: recover_map map_of_map_values)
  qed
  have "distinct (map fst (rt_workloads st0))" "rt_checkpoints st0 = rt_checkpoints st"
    using keys [of "rt_checkpoints st"] assms(1) by (simp_all add: st0_def del: map_map)
  then have "tables_ok st0" using assms recover_ok lookup unfolding tables_ok_def by auto
  then have ok: "tables_ok (migrate_kernel_digests st0)" by (rule migrate_ok)
  have "tables (start_service E now nanos alive st) = tables (migrate_kernel_digests st0)"
    by (simp add: start_service_def Let_def st0_def tables_def)
  then show ?thesis using ok tables_ok_cong by blast
qed

lemma start_service_lookup:
  "map_of (rt_workloads (start_service E now nanos alive st)) i =
    map_option (\<lambda>w. migrate_workload (rt_saved_tags st) (snd (recover_workload now alive (i, w)))) (map_of (rt_checkpoints st) i)"
proof -
  have fold: "rt_workloads (fold (\<lambda>(i, s). write_workload_checkpoint i s) xs st) = rt_workloads st" for xs and st :: "'a runtime"
    by (induction xs arbitrary: st) auto
  have "map_of (rt_workloads (start_service E now nanos alive st)) =
      map_of (map (\<lambda>(i, s). (i, migrate_workload (rt_saved_tags st) s)) (map (recover_workload now alive) (rt_checkpoints st)))"
    by (simp add: start_service_def migrate_kernel_digests_def Let_def fold del: map_map)
  then show ?thesis by (simp only: recover_map map_of_map_values option.map_comp comp_def)
qed

lemma sys_step_ok: "sys_step V cf jitter s a s' \<Longrightarrow> tables_ok (sys_rt s) \<Longrightarrow> tables_ok (sys_rt s')"
proof (induction rule: sys_step.induct)
  case (watch s i b todo now seen rt)
  then have "tables_ok rt" using watch_one_ok by blast
  then show ?case by (simp add: after_watch_def split: option.splits)
qed (simp_all add: run_workload_ok stop_task_ok restart_finish_ok health_tick_ok prune_ok)

lemma restart_ok: "tables_ok st \<Longrightarrow> tables_ok (start_service E now nanos alive (st\<lparr>rt_exec := x\<rparr>))"
  by (rule start_service_ok) (simp_all add: tables_ok_def)

lemma history_ok: "history V cf jitter s as s' \<Longrightarrow> tables_ok (sys_rt s) \<Longrightarrow> tables_ok (sys_rt s')"
proof (induction rule: history.induct)
  case (crash as s' now nanos alive x)
  then show ?case by (simp add: started_def restart_ok)
qed (auto intro: sys_step_ok)

end
