(* ===== verification/Workload_Properties.thy ===== *)
theory Workload_Properties
  imports Workload_Tables Reference_Codecs
begin

text \<open>
  What the workload requests and the background tasks guarantee together: the tables
  stay consistent, a run passes every gate before an executor is called, a restart
  repeats the run, and a stop is final except during a restart's wait.
\<close>

declare map_of_eq_Some_iff [simp del]

section \<open>Launching\<close>

lemma running_state_cong:
  "rt_kernel_cache st1 = rt_kernel_cache st \<Longrightarrow> rt_rootfs_cache st1 = rt_rootfs_cache st \<Longrightarrow>
    running_state cf now req spec h st1 = running_state cf now req spec h st"
  by (simp add: running_state_def)

lemma launch_ok:
  assumes "router_create (re_router V) spec (rt_exec st) = (Inr h, x1)" "router_start (re_router V) h x1 = (Inr h2, x2)"
  obtains rr st' where "launch V cf now req b spec st = (Inr rr, st')" "rr_id rr = rq_id req"
    "rt_workloads st' = AList.update (rq_id req) (running_state cf now req spec h2 st) (rt_workloads st)"
    "rt_checkpoints st' = AList.update (rq_id req) (running_state cf now req spec h2 st) (rt_checkpoints st)" "rt_exec st' = x2"
proof -
  have "running_state cf now req spec h2 ((emit e st)\<lparr>rt_exec := x2\<rparr>) = running_state cf now req spec h2 st" for e
    by (rule running_state_cong) (simp_all add: emit_def)
  then show thesis using that assms by (simp add: launch_def Let_def)
qed

lemma launch_Inr:
  assumes "launch V cf now req b spec st = (Inr rr, st')"
  obtains h x1 h2 x2 where "router_create (re_router V) spec (rt_exec st) = (Inr h, x1)"
    "router_start (re_router V) h x1 = (Inr h2, x2)"
  using assms by (auto simp: launch_def Let_def split: prod.splits sum.splits)

lemma launch_listed:
  assumes "launch V cf now req b spec st = (Inr rr, st')"
  shows "rr_id rr = rq_id req \<and> (\<exists>w. map_of (rt_workloads st') (rq_id req) = Some w \<and>
    map_of (rt_checkpoints st') (rq_id req) = Some w \<and> ws_status w = ''running'')"
proof -
  from launch_Inr [OF assms] obtain h x1 h2 x2
    where "router_create (re_router V) spec (rt_exec st) = (Inr h, x1)" "router_start (re_router V) h x1 = (Inr h2, x2)" .
  then obtain rr' st'' where "launch V cf now req b spec st = (Inr rr', st'')" "rr_id rr' = rq_id req"
    "rt_workloads st'' = AList.update (rq_id req) (running_state cf now req spec h2 st) (rt_workloads st)"
    "rt_checkpoints st'' = AList.update (rq_id req) (running_state cf now req spec h2 st) (rt_checkpoints st)"
    by (rule launch_ok)
  then show ?thesis using assms by (simp add: running_state_def)
qed

lemma launch_fs: "rt_fs (snd (launch V cf now req b spec st)) = rt_fs st"
  by (simp add: launch_def Let_def write_workload_checkpoint_def set_workload_def split: prod.splits sum.splits)

section \<open>A reference executor\<close>

text \<open>Its state is the status of each container; creating one leaves it to the start.\<close>

definition ref_handle :: "run_spec \<Rightarrow> process_handle" where
  "ref_handle spec =
    \<lparr>ph_id = rs_id spec, ph_pid = Some 42, ph_internal_ip = None, ph_gateway = None, ph_host_ports = [],
     ph_backend = backend_str (rs_backend spec), ph_bridge_name = None, ph_network_join = None\<rparr>"

definition ref_executor :: "(string \<times> string) list executor" where
  "ref_executor =
    \<lparr>ex_create = (\<lambda>spec x. (Inr (ref_handle spec), x)),
     ex_start = (\<lambda>h x. (Inr h, AList.update (ph_id h) ''running'' x)),
     ex_stop = (\<lambda>i x. (Inr (), AList.delete i x)),
     ex_wait = (\<lambda>i x. (Inr 0, x)),
     ex_status = (\<lambda>i x. (case map_of x i of None \<Rightarrow> Inl (ExecNotFound i) | Some t \<Rightarrow> Inr t, x)),
     ex_update = (\<lambda>i cpu mem x. (Inr (), x)),
     ex_exec = (\<lambda>i command timeout x. (Inr \<lparr>eo_exit_code = 0, eo_stdout = [], eo_stderr = []\<rparr>, x))\<rparr>"

definition ref_env :: "(string \<times> string) list runtime_env" where
  "ref_env =
    \<lparr>re_ext = ref_ext, re_conv = ref_conv, re_policy = sample_policy_env, re_cipher = sample_cipher,
     re_router = \<lparr>er_container = ref_executor, er_rootless = None, er_vm = Some ref_executor, er_is_root = True,
                  er_has_bundle = (\<lambda>i x. False), er_has_sidecar = (\<lambda>i x. map_of x i \<noteq> None)\<rparr>,
     re_stage_kernel = (\<lambda>ref s. (Inl [], s)), re_binfmt = (\<lambda>a. Inl []), re_host_arch = ''amd64'', re_cwd = [],
     re_fresh_key = replicate 32 0\<rparr>"

definition ref_config :: service_config where
  "ref_config =
    \<lparr>cf_store_root = [''store''], cf_bundle_root = [''store'', ''bundles''], cf_vm_root = Some [''vm''], cf_policy_engine = Some (engine_new default_policy_value),
     cf_insecure_registries = []\<rparr>"

definition fresh_runtime :: "(string \<times> string) list runtime" where
  "fresh_runtime =
    \<lparr>rt_store = new_unbounded [], rt_ops = [], rt_workloads = [], rt_checkpoints = [], rt_image_tags = [], rt_saved_tags = [],
     rt_events = [], rt_kernel_cache = [], rt_rootfs_cache = [], rt_secrets = secret_store_new [''store''],
     rt_fs = sample_root_fs, rt_exec = []\<rparr>"

definition ref_request :: run_request where
  "ref_request =
    \<lparr>rq_id = ''w1'', rq_root_digest = ''sha256:'' @ as_hex ref_ext ZERO, rq_backend = ''vm'', rq_command = [''true''],
     rq_env = [], rq_cpu_millicores = 0, rq_memory_bytes = 0, rq_network_mode = [], rq_network_rules = [], rq_kernel_image = [],
     rq_working_dir = [], rq_bridge_name = [], rq_mounts = [], rq_health_check = None, rq_restart_policy = 2, rq_secrets = [],
     rq_configs = [], rq_privileged = False, rq_readonly_rootfs = False, rq_no_new_privileges = False, rq_seccomp_profile = [],
     rq_allowed_syscalls = [], rq_dns = None\<rparr>"

lemma ref_request_simps [simp]:
  "rq_id ref_request = ''w1''" "rq_backend ref_request = ''vm''" "rq_network_mode ref_request = []" "rq_network_rules ref_request = []"
  "rq_kernel_image ref_request = []" "rq_mounts ref_request = []" "rq_secrets ref_request = []" "rq_configs ref_request = []"
  "rq_restart_policy ref_request = 2"
  by (simp_all add: ref_request_def)

lemma ref_config_simps [simp]:
  "cf_vm_root ref_config = Some [''vm'']" "cf_policy_engine ref_config = Some (engine_new default_policy_value)"
  by (simp_all add: ref_config_def)

lemma ref_env_simps [simp]:
  "re_ext ref_env = ref_ext" "re_policy ref_env = sample_policy_env"
  by (simp_all add: ref_env_def)

lemma ref_router:
  "rs_backend spec = Vm \<Longrightarrow> router_create (re_router ref_env) spec x = (Inr (ref_handle spec), x)"
  "rs_backend spec = Vm \<Longrightarrow>
    router_start (re_router ref_env) (ref_handle spec) x = (Inr (ref_handle spec), AList.update (rs_id spec) ''running'' x)"
  "router_status (re_router ref_env) i x = (case map_of x i of None \<Rightarrow> Inl (ExecNotFound i) | Some t \<Rightarrow> Inr t, x)"
  by (simp_all add: router_create_def router_start_def router_status_def executor_for_def ref_env_def ref_executor_def
      ref_handle_def)

lemma ref_id: "validate_workload_id ''w1'' = Inr ()"
  by code_simp

lemma ref_allows:
  "evaluate_for_image sample_policy_env ref_ext eng default_policy_value s ref d = (Inr Allow, s)"
  by (simp add: evaluate_for_image_def sbom_phase_def needs_sbom_def seccomp_denies_def default_policy_value_def)

lemma ref_hex: "from_hex ref_ext (as_hex ref_ext ZERO) = Inr ZERO"
  by (rule from_hex_as_hex [OF ref_hex_ok]) (simp add: wf_digest_def ZERO_def)

lemma ref_strip [simp]: "strip_sha256 (rq_root_digest ref_request) = as_hex ref_ext ZERO"
  by (simp add: strip_sha256_def ref_request_def)

lemma ref_backend: "backend_from_str ''vm'' = Inr Vm"
  by code_simp

lemma ref_run:
  obtains rr w st' where "run_workload ref_env ref_config now ref_request st = (Inr rr, st')"
    "rt_workloads st' = AList.update ''w1'' w (rt_workloads st)" "rt_exec st' = AList.update ''w1'' ''running'' (rt_exec st)"
    "ws_status w = ''running''" "ws_backend w = ''vm''" "ws_restart_policy w = OnFailure" "ws_image_root w = as_hex ref_ext ZERO"
proof -
  define spec where "spec = run_spec_of ref_config (ref_request\<lparr>rq_root_digest := as_hex ref_ext ZERO\<rparr>) Vm ZERO None []"
  define req where "req = ref_request\<lparr>rq_root_digest := as_hex ref_ext ZERO\<rparr>"
  have spec: "rs_backend spec = Vm" "rs_id spec = ''w1''" "rs_restart_policy spec = OnFailure"
    by (simp_all add: spec_def run_spec_of_def parse_restart_policy_def split: prod.splits)
  have "run_workload ref_env ref_config now ref_request st = launch ref_env ref_config now req Vm spec (st\<lparr>rt_store := rt_store st\<rparr>)"
    by (simp add: run_workload_def Let_def ref_id ref_backend check_network_join_def requested_mode_def
        parse_network_mode_def stage_vm_kernel_def evaluate_for_run_def policy_verdict_def check_architecture_def prepare_stage_def
        ref_allows engine_new_def spec_def req_def ref_hex)
  moreover obtain rr st' where "launch ref_env ref_config now req Vm spec st = (Inr rr, st')"
    "rt_workloads st' = AList.update (rq_id req) (running_state ref_config now req spec (ref_handle spec) st) (rt_workloads st)"
    "rt_exec st' = AList.update (rs_id spec) ''running'' (rt_exec st)"
    by (rule launch_ok [OF ref_router(1) ref_router(2), OF spec(1) spec(1)])
  moreover have "rq_id req = ''w1''" by (simp add: req_def)
  ultimately show thesis using that spec by (simp add: running_state_def ref_handle_def req_def)
qed

section \<open>A run passes every gate\<close>

text \<open>What the steps before the launch leave alone.\<close>

definition untouched :: "'x runtime \<Rightarrow> 'x runtime \<Rightarrow> bool" where
  "untouched st st' \<longleftrightarrow> tables st' = tables st \<and> rt_exec st' = rt_exec st \<and> rt_image_tags st' = rt_image_tags st"

lemma untouched_refl [simp]: "untouched st st"
  by (simp add: untouched_def)

lemma untouched_trans: "untouched st st1 \<Longrightarrow> untouched st1 st2 \<Longrightarrow> untouched st st2"
  by (simp add: untouched_def)

lemma untouched_update [simp]:
  "untouched st (st\<lparr>rt_store := s\<rparr>)" "untouched st (st\<lparr>rt_fs := fs\<rparr>)" "untouched st (st\<lparr>rt_secrets := ss, rt_fs := fs\<rparr>)"
  "untouched st (emit e st') \<longleftrightarrow> untouched st st'" "untouched st (st'\<lparr>rt_kernel_cache := k\<rparr>) \<longleftrightarrow> untouched st st'"
  by (simp_all add: untouched_def tables_def)

lemma stage_kernel_untouched: "untouched st (snd (stage_vm_kernel V cf now req b st))"
  by (simp add: stage_vm_kernel_def split: prod.splits sum.splits)

lemma evaluate_for_run_untouched: "untouched st (snd (evaluate_for_run V cf h st))"
  by (simp add: evaluate_for_run_def policy_verdict_def Let_def
      split: prod.splits sum.splits option.splits policy_decision.splits)

lemma check_architecture_untouched: "untouched st (snd (check_architecture V req b st))"
  by (simp add: check_architecture_def split: prod.splits sum.splits)

lemma prepare_stage_untouched: "untouched st (snd (prepare_stage cf req st))"
  by (simp add: prepare_stage_def split: prod.splits sum.splits)

lemma stage_secrets_untouched: "untouched st (snd (stage_secrets V dir rs st))"
proof (induction rs arbitrary: st)
  case (Cons r rs)
  have "untouched st (snd (stage_secrets V dir rs (st\<lparr>rt_secrets := ss1, rt_fs := fs2\<rparr>)))" for ss1 fs2
    using Cons untouched_trans untouched_update(3) by blast
  then show ?case by (auto simp: and_then_def split: prod.splits sum.splits) (metis snd_conv)+
qed simp

lemma stage_configs_untouched: "untouched st (snd (stage_configs dir rs st))"
proof (induction rs arbitrary: st)
  case (Cons r rs)
  have "untouched st (snd (stage_configs dir rs (st\<lparr>rt_fs := fs2\<rparr>)))" for fs2
    using Cons untouched_trans untouched_update(2) by blast
  then show ?case by (auto simp: and_then_def split: prod.splits sum.splits) (metis snd_conv)+
qed simp

lemma untouched_step:
  assumes "untouched st s0" "untouched s0 (snd m)" "\<And>e s. untouched st s \<Longrightarrow> G (Inl e, s)"
    and "\<And>a s. m = (Inr a, s) \<Longrightarrow> untouched st s \<Longrightarrow> G (f a s)"
  shows "G (and_then m f)"
  using assms untouched_trans [OF assms(1,2)] by (auto simp: and_then_def split: prod.splits sum.splits)

definition policy_allows :: "'x runtime_env \<Rightarrow> service_config \<Rightarrow> string \<Rightarrow> 'x runtime \<Rightarrow> bool" where
  "policy_allows V cf digest st \<longleftrightarrow>
    (\<forall>eng. cf_policy_engine cf = Some eng \<longrightarrow>
      (\<exists>s. fst (evaluate_for_image (re_policy V) (re_ext V) eng (default_policy eng) s
              (case map_of (rt_image_tags st) digest of None \<Rightarrow> digest | Some t \<Rightarrow> t) digest) = Inr Allow))"

lemma evaluate_for_run_allows:
  assumes "evaluate_for_run V cf digest s = (Inr u, s')" "untouched st s"
  shows "policy_allows V cf digest st"
  using assms policy_verdict_Inr [of V _ "[]" _ digest s u s']
  by (auto simp: policy_allows_def evaluate_for_run_def untouched_def) blast



section \<open>The tables\<close>


lemma one_step: "sys_step V cf jitter s a s' \<Longrightarrow> history V cf jitter s [Some a] s'"
  using history.step [OF history.none] by fastforce


section \<open>Stops\<close>

text \<open>That workload \<open>i\<close> is stopped and no restart of it is waiting.\<close>

definition stays_stopped :: "string \<Rightarrow> 'x system \<Rightarrow> bool" where
  "stays_stopped i s \<longleftrightarrow> tables_ok (sys_rt s) \<and>
    (\<exists>w. map_of (rt_workloads (sys_rt s)) i = Some w \<and> ws_status w = ''stopped'') \<and>
    (\<forall>b v todo. sys_pc s \<noteq> Backoff i b v todo)"

lemma tables_put_lookup:
  "tables_put j v st st' \<Longrightarrow> map_of (rt_workloads st') i = (if i = j then Some v else map_of (rt_workloads st) i)"
  by (simp add: tables_put_def tables_def update_conv')

lemma tables_lookup: "tables st' = tables st \<Longrightarrow> map_of (rt_workloads st') i = map_of (rt_workloads st) i"
  by (simp add: tables_def)

lemma run_other: "rq_id req \<noteq> i \<Longrightarrow>
    map_of (rt_workloads (snd (run_workload V cf now req st))) i = map_of (rt_workloads st) i"
  using run_workload_tables [of V cf now req st] tables_lookup [of _ st i] tables_put_lookup [of _ _ st _ i] by metis

lemma stop_stopped:
  fixes st :: "'x runtime"
  assumes "map_of (rt_workloads st) i = Some w" "ws_status w = ''stopped''"
  shows "map_of (rt_workloads (snd (stop_task V cf now j st))) i = Some w"
proof -
  have "map_of (rt_workloads (finish_stop cf now j s)) i = Some w" if "rt_workloads s = rt_workloads st" for s :: "'x runtime"
    using finish_stop_tables [of cf now j s] that assms tables_lookup [of _ s i] tables_put_lookup [of _ _ s _ i] by force
  then show ?thesis using assms by (simp add: stop_task_def split: prod.splits sum.splits)
qed

lemma health_status:
  "map_option ws_status (map_of (rt_workloads (health_tick V jitter now st)) i) = map_option ws_status (map_of (rt_workloads st) i)"
proof -
  have "map_option ws_status (map_of (rt_workloads (run_probe V now p st)) i) = map_option ws_status (map_of (rt_workloads st) i)" for p st
    by (simp add: run_probe_def Let_def update_conv' split: prod.splits option.splits)
  then have "map_option ws_status (map_of (rt_workloads (fold (run_probe V now) ps st)) i) =
      map_option ws_status (map_of (rt_workloads st) i)" for ps
    by (induction ps arbitrary: st) simp_all
  then show ?thesis by (simp add: health_tick_def)
qed

lemma prune_keeps:
  assumes "distinct (map fst (rt_workloads st))" "map_of (rt_workloads st) i = Some w" "ws_status w \<noteq> ''exited''"
  shows "map_of (rt_workloads (snd (prune cf st))) i = Some w"
  using assms by (simp add: prune_def Let_def kept_lookup split: prod.splits)

lemma stays_stopped_step:
  assumes "sys_step V cf jitter s a s'" "stays_stopped i s" "\<And>req. a = ARun req \<Longrightarrow> rq_id req \<noteq> i"
  shows "stays_stopped i s'"
proof -
  obtain w where w: "map_of (rt_workloads (sys_rt s)) i = Some w" "ws_status w = ''stopped''"
    and ok: "tables_ok (sys_rt s)" and pc: "\<And>b v todo. sys_pc s \<noteq> Backoff i b v todo"
    using assms(2) by (auto simp: stays_stopped_def)
  have "(\<exists>w. map_of (rt_workloads (sys_rt s')) i = Some w \<and> ws_status w = ''stopped'') \<and>
      (\<forall>b v todo. sys_pc s' \<noteq> Backoff i b v todo)"
    using assms(1)
  proof cases
    case (run req now)
    then show ?thesis using w pc run_other [of req i V cf now "sys_rt s"] assms(3) by simp
  next
    case (stop_done j now)
    then show ?thesis using w pc stop_stopped [OF w, of V cf now j] by simp
  next
    case (watch j b todo now seen rt)
    note seen = watch_one_tables [OF watch(4)]
    have "map_of (rt_workloads rt) i = Some w"
      using seen w tables_lookup [of rt "sys_rt s" i] tables_put_lookup [of _ _ "sys_rt s" rt i] by force
    moreover have "restart_begin i rt = None" using calculation w(2) by (simp add: restart_begin_def)
    ultimately show ?thesis using watch w by (auto simp: after_watch_def split: option.splits if_splits)
  next
    case (wake j b v todo now)
    then have "j \<noteq> i" using pc by blast
    then have "map_of (rt_workloads (restart_finish V now j b v (sys_rt s))) i = Some w"
      using restart_finish_tables [of V now j b v "sys_rt s"] w tables_lookup [of _ "sys_rt s" i]
        tables_put_lookup [of _ _ "sys_rt s" _ i] by metis
    then show ?thesis using wake w by simp
  next
    case (health now)
    then show ?thesis using w pc health_status [of V jitter now "sys_rt s" i] by auto
  next
    case prune
    then show ?thesis using w pc prune_keeps [of "sys_rt s" i w cf] ok by (simp add: tables_ok_def)
  qed (use w pc in simp_all)
  then show ?thesis using sys_step_ok [OF assms(1) ok] by (simp add: stays_stopped_def)
qed

lemma stays_stopped_crash:
  assumes "stays_stopped i s"
  shows "stays_stopped i (started (start_service E now nanos alive ((sys_rt s)\<lparr>rt_exec := x\<rparr>)))"
proof -
  obtain w where w: "map_of (rt_workloads (sys_rt s)) i = Some w" "ws_status w = ''stopped''" and ok: "tables_ok (sys_rt s)"
    using assms by (auto simp: stays_stopped_def)
  then obtain c where c: "map_of (rt_checkpoints (sys_rt s)) i = Some c" "checkpoint_ok c w"
    unfolding tables_ok_def by blast
  then have "ws_status c = ''stopped''" using w(2) by (auto simp: checkpoint_ok_def)
  then have "ws_status (migrate_workload tags (snd (recover_workload now alive (i, c)))) = ''stopped''" for tags
    by (simp add: migrate_workload_def recover_workload_def split: option.splits)
  then show ?thesis
    using restart_ok [OF ok] c(1) by (simp add: stays_stopped_def started_def start_service_lookup)
qed


lemma finish_stop_running:
  assumes "map_of (rt_workloads st) i = Some w" "ws_status w = ''running''"
  shows "\<exists>w'. map_of (rt_workloads (finish_stop cf now i st)) i = Some w' \<and> ws_status w' = ''stopped''"
  using assms by (simp add: finish_stop_def Let_def stopped_state_def update_conv')

lemma ref_stop: "router_stop (re_router ref_env) i x = (Inr (), AList.delete i x)"
  by (simp add: router_stop_def executor_for_def ref_env_def ref_executor_def)

text \<open>A system in which \<open>w1\<close> has run once, is listed as running, and was stopped.\<close>

definition ref_started :: "(string \<times> string) list system" where
  "ref_started = started (start_service ref_ext 0 0 (\<lambda>_. False) fresh_runtime)"

definition ref_ran :: "(string \<times> string) list system" where
  "ref_ran = ref_started\<lparr>sys_rt := snd (run_workload ref_env ref_config 0 ref_request (sys_rt ref_started))\<rparr>"

definition ref_stopped :: "(string \<times> string) list system" where
  "ref_stopped = ref_ran\<lparr>sys_rt := snd (stop_task ref_env ref_config 1 ''w1'' (sys_rt ref_ran))\<rparr>"

lemma ref_started_simps:
  "tables_ok (sys_rt ref_started)" "rt_workloads (sys_rt ref_started) = []" "sys_pc ref_started = Sleeping"
  "sys_announced ref_started = []" "sys_stops ref_started = []"
  by (simp_all add: ref_started_def started_def start_service_ok fresh_runtime_def)
    (simp add: start_service_def migrate_kernel_digests_def Let_def fresh_runtime_def)

lemma ref_ran_simps:
  "\<exists>w. map_of (rt_workloads (sys_rt ref_ran)) ''w1'' = Some w \<and> ws_status w = ''running'' \<and> ws_backend w = ''vm'' \<and>
     ws_restart_policy w = OnFailure \<and> ws_image_root w = as_hex ref_ext ZERO \<and> rt_workloads (sys_rt ref_ran) = [(''w1'', w)]"
  "map_of (rt_exec (sys_rt ref_ran)) ''w1'' = Some ''running''" "tables_ok (sys_rt ref_ran)"
proof -
  obtain rr w st' where "run_workload ref_env ref_config 0 ref_request (sys_rt ref_started) = (Inr rr, st')"
    "rt_workloads st' = AList.update ''w1'' w (rt_workloads (sys_rt ref_started))"
    "rt_exec st' = AList.update ''w1'' ''running'' (rt_exec (sys_rt ref_started))"
    "ws_status w = ''running''" "ws_backend w = ''vm''" "ws_restart_policy w = OnFailure" "ws_image_root w = as_hex ref_ext ZERO"
    by (rule ref_run)
  then show "\<exists>w. map_of (rt_workloads (sys_rt ref_ran)) ''w1'' = Some w \<and> ws_status w = ''running'' \<and> ws_backend w = ''vm'' \<and>
     ws_restart_policy w = OnFailure \<and> ws_image_root w = as_hex ref_ext ZERO \<and> rt_workloads (sys_rt ref_ran) = [(''w1'', w)]"
    "map_of (rt_exec (sys_rt ref_ran)) ''w1'' = Some ''running''"
    by (simp_all add: ref_ran_def ref_started_simps update_conv')
  show "tables_ok (sys_rt ref_ran)" by (simp add: ref_ran_def run_workload_ok ref_started_simps)
qed


section \<open>Stops during the wait of a restart\<close>

text \<open>
  C46: while the watcher waits before it restarts a workload, the workload counts as
  exited, so a stop is answered with success and changes nothing, neither the tables
  nor what the watcher is about to do; when the wait ends the workload is started
  and listed as running.
\<close>

theorem stop_during_wait_ignored:
  assumes "sys_pc s = Backoff i b v todo" "validate_workload_id i = Inr ()"
    and "map_of (rt_workloads (sys_rt s)) i = Some w" "ws_status w = ''exited''"
    and "restart_spec (re_ext V) i b v = Some spec" "router_create (re_router V) spec (rt_exec (sys_rt s)) = (Inr h, x1)"
    and "router_start (re_router V) h x1 = (Inr h2, x2)"
  shows "stop_workload V cf now i (sys_rt s) = (Inr (), sys_rt s) \<and>
    (\<forall>s'. sys_step V cf jitter s (AStop i) s' \<longrightarrow> s' = s) \<and>
    (\<forall>s'. sys_step V cf jitter s AWake s' \<longrightarrow>
      (\<exists>w'. map_of (rt_workloads (sys_rt s')) i = Some w' \<and> ws_status w' = ''running''))"
proof (intro conjI allI impI)
  have check: "stop_check i (sys_rt s) = Inr False"
    using assms(2-4) by (simp add: stop_check_def known_workload_def)
  then show "stop_workload V cf now i (sys_rt s) = (Inr (), sys_rt s)" by (simp add: stop_workload_def)
  show "s' = s" if "sys_step V cf jitter s (AStop i) s'" for s'
    using that check by (auto elim: stop_stepE)
  show "\<exists>w'. map_of (rt_workloads (sys_rt s')) i = Some w' \<and> ws_status w' = ''running''"
    if "sys_step V cf jitter s AWake s'" for s'
    using that assms
    by (auto elim!: wake_stepE simp: restart_finish_def Let_def restarted_state_def update_conv')
qed

lemma ref_exit_codes: "parse_exit_code ''exited(0)'' = Some 0" "parse_exit_code ''exited(3)'' = Some 3"
  by (simp_all add: parse_exit_code_def parse_u32_def parse_radix_def dec_digit_def is_ascii_digit_def code_def Let_def)

lemma ref_exit:
  assumes "map_of (rt_exec st) i = Some t" "t \<noteq> ''running''" "t \<noteq> []" "i \<notin> set announced"
    and "map_of (rt_workloads st) i = Some w" "ws_status w = ''running''"
  obtains st' where
    "watch_one ref_env now announced i b st = (Some (restart_wanted (parse_exit_code t) (ws_restart_policy w)), st')"
    "rt_workloads st' =
      AList.update i (w\<lparr>ws_status := ''exited'', ws_exit_time := now, ws_exit_code := parse_exit_code t\<rparr>) (rt_workloads st)"
  using assms that by (simp add: watch_one_def ref_router exit_seen_def Let_def update_conv')

text \<open>The same system after the process exited, up to the watcher looking at it.\<close>

definition ref_exited :: "string \<Rightarrow> (string \<times> string) list system" where
  "ref_exited t = ref_ran\<lparr>sys_rt := (sys_rt ref_ran)\<lparr>rt_exec := [(''w1'', t)]\<rparr>, sys_pc := Watching [(''w1'', ''vm'')]\<rparr>"

lemma ref_exited_history:
  "history ref_env ref_config (\<lambda>_. 0) ref_started [Some (ARun ref_request), Some AWorld, Some ATick] (ref_exited t)"
proof -
  let ?H = "history ref_env ref_config (\<lambda>_. 0) ref_started"
  have "?H [Some (ARun ref_request)] ref_ran" unfolding ref_ran_def by (intro one_step sys_step.run)
  from history.step [OF this sys_step.world]
  have s2: "?H [Some (ARun ref_request), Some AWorld] (ref_ran\<lparr>sys_rt := (sys_rt ref_ran)\<lparr>rt_exec := [(''w1'', t)]\<rparr>\<rparr>)" by simp
  have "running_ids (sys_rt ref_ran) = [(''w1'', ''vm'')]" "sys_pc ref_ran = Sleeping"
    using ref_ran_simps(1) by (auto simp: running_ids_def ref_ran_def ref_started_simps)
  with history.step [OF s2 sys_step.tick] show ?thesis by (simp add: ref_exited_def running_ids_def)
qed

lemma ref_backoff:
  obtains s w where "history ref_env ref_config (\<lambda>_. 0) ref_started
      [Some (ARun ref_request), Some AWorld, Some ATick, Some AWatch] s"
    "sys_pc s = Backoff ''w1'' ''vm'' w []" "map_of (rt_workloads (sys_rt s)) ''w1'' = Some w"
    "ws_status w = ''exited''" "ws_image_root w = as_hex ref_ext ZERO" "ws_backend w = ''vm''"
proof -
  obtain w where w: "map_of (rt_workloads (sys_rt (ref_exited ''exited(3)''))) ''w1'' = Some w" "ws_status w = ''running''" "ws_backend w = ''vm''"
    "ws_restart_policy w = OnFailure" "ws_image_root w = as_hex ref_ext ZERO"
    using ref_ran_simps(1) by (auto simp: ref_exited_def)
  have pc: "sys_pc (ref_exited t) = Watching [(''w1'', ''vm'')]" "sys_announced (ref_exited t) = []"
    "map_of (rt_exec (sys_rt (ref_exited t))) ''w1'' = Some t" for t
    by (simp_all add: ref_exited_def ref_ran_def ref_started_simps)
  obtain st' where one: "watch_one ref_env 2 (sys_announced (ref_exited ''exited(3)'')) ''w1'' ''vm'' (sys_rt (ref_exited ''exited(3)'')) = (Some True, st')"
    and st': "rt_workloads st' = AList.update ''w1'' (w\<lparr>ws_status := ''exited'', ws_exit_time := 2, ws_exit_code := Some 3\<rparr>)
      (rt_workloads (sys_rt (ref_exited ''exited(3)'')))"
    by (rule ref_exit [OF pc(3) _ _ _ w(1,2), of "sys_announced (ref_exited ''exited(3)'')" 2 "''vm''"])
      (simp_all add: ref_exit_codes w restart_wanted_def pc)
  from history.step [OF ref_exited_history sys_step.watch [OF pc(1) one]] st' w that
  show thesis by (simp add: after_watch_def restart_begin_def update_conv')
qed

theorem stop_during_wait_ignored_witness:
  "\<exists>s w. history ref_env ref_config (\<lambda>_. 0) ref_started [Some (ARun ref_request), Some AWorld, Some ATick, Some AWatch] s \<and>
     stop_workload ref_env ref_config 3 ''w1'' (sys_rt s) = (Inr (), sys_rt s) \<and>
     (\<exists>s'. sys_step ref_env ref_config (\<lambda>_. 0) s AWake s' \<and> map_of (rt_workloads (sys_rt s')) ''w1'' = Some w \<and> ws_status w = ''running'')"
proof -
  obtain s w where s: "history ref_env ref_config (\<lambda>_. 0) ref_started
      [Some (ARun ref_request), Some AWorld, Some ATick, Some AWatch] s"
    "sys_pc s = Backoff ''w1'' ''vm'' w []" "map_of (rt_workloads (sys_rt s)) ''w1'' = Some w"
    "ws_status w = ''exited''" "ws_image_root w = as_hex ref_ext ZERO" "ws_backend w = ''vm''" by (rule ref_backoff)
  obtain spec where spec: "restart_spec (re_ext ref_env) ''w1'' ''vm'' w = Some spec" "rs_backend spec = Vm"
    using s(5) by (simp add: restart_spec_def ref_backend ref_hex)
  from stop_during_wait_ignored [OF s(2) ref_id s(3,4) spec(1) ref_router(1) [OF spec(2)] ref_router(2) [OF spec(2)], of ref_config 3 "\<lambda>_. 0"]
  show ?thesis using s(1) sys_step.wake [OF s(2), of ref_env ref_config "\<lambda>_. 0" 9] by blast
qed

section \<open>Exits the watcher does not see\<close>

lemma stop_other:
  assumes "j \<noteq> i"
  shows "map_of (rt_workloads (snd (stop_task V cf now j st))) i = map_of (rt_workloads st) i"
proof -
  have "map_of (rt_workloads (finish_stop cf now j (st\<lparr>rt_exec := x\<rparr>))) i = map_of (rt_workloads st) i" for x
    using assms by (simp add: finish_stop_def Let_def update_conv' split: option.splits)
  then show ?thesis by (simp add: stop_task_def split: prod.splits sum.splits)
qed

lemma announced_step:
  assumes "sys_step V cf jitter s a s'" "tables_ok (sys_rt s)" "i \<in> set (sys_announced s)" "a \<noteq> AStopDone i"
    and "map_of (rt_workloads (sys_rt s)) i = Some w" "ws_status w = ''running''"
  shows "i \<in> set (sys_announced s') \<and> (\<exists>w. map_of (rt_workloads (sys_rt s')) i = Some w \<and> ws_status w = ''running'')"
  using assms(1)
proof cases
  case (run req now)
  then show ?thesis
    using assms(3,5,6) run_workload_tables [of V cf now req "sys_rt s"] tables_lookup [of _ "sys_rt s" i]
      tables_put_lookup [of _ _ "sys_rt s" _ i] by (auto simp: running_state_def)
next
  case (stop_done j now)
  then have "j \<noteq> i" using assms(4) by blast
  then show ?thesis using stop_done assms(3,5,6) stop_other [of j i V cf now "sys_rt s"] by simp
next
  case (watch j b todo now seen rt)
  show ?thesis
  proof (cases "j = i")
    case True
    then show ?thesis using watch assms by (simp add: watch_one_def after_watch_def)
  next
    case False
    then have "map_of (rt_workloads rt) i = Some w"
      using watch_one_tables [OF watch(4)] assms(5) tables_lookup [of rt "sys_rt s" i]
        tables_put_lookup [of _ _ "sys_rt s" rt i] by auto
    then show ?thesis using watch assms by (auto simp: after_watch_def split: option.splits)
  qed
next
  case (wake j b v todo now)
  then show ?thesis
    using assms(3,5,6) restart_finish_tables [of V now j b v "sys_rt s"] tables_lookup [of _ "sys_rt s" i]
      tables_put_lookup [of j _ "sys_rt s" _ i] by (auto simp: restarted_state_def)
next
  case (health now)
  then show ?thesis using assms(3,5,6) health_status [of V jitter now "sys_rt s" i] by auto
next
  case prune
  then show ?thesis using assms prune_keeps [of "sys_rt s" i w cf] by (simp add: tables_ok_def)
qed (use assms in \<open>auto simp: retain_live_def\<close>)

text \<open>
  C47: once the watcher has reported the exit of a workload it did not restart, it
  ignores that id for as long as the workload is listed: when the id is run again,
  the new process stays listed as running through any steps, whatever the executor reports
  of it, until it is stopped.
\<close>

theorem rerun_exit_missed:
  assumes "history V cf jitter s as s'" "tables_ok (sys_rt s)" "i \<in> set (sys_announced s)"
    and "map_of (rt_workloads (sys_rt s)) i = Some w" "ws_status w = ''running''"
    and "None \<notin> set as" "Some (AStopDone i) \<notin> set as"
  shows "i \<in> set (sys_announced s') \<and> (\<exists>w. map_of (rt_workloads (sys_rt s')) i = Some w \<and> ws_status w = ''running'')"
  using assms
proof (induction rule: history.induct)
  case (step as s' a s'')
  then obtain v where "i \<in> set (sys_announced s')" "map_of (rt_workloads (sys_rt s')) i = Some v" "ws_status v = ''running''"
    by auto
  moreover have "tables_ok (sys_rt s')" using history_ok [OF step.hyps(1)] step.prems(1) .
  ultimately show ?case using announced_step [OF step.hyps(2)] step.prems(6) by auto
qed auto

theorem rerun_exit_missed_witness:
  "\<exists>s s' w. history ref_env ref_config (\<lambda>_. 0) ref_started
       [Some (ARun ref_request), Some AWorld, Some ATick, Some AWatch, Some (ARun ref_request)] s \<and>
     history ref_env ref_config (\<lambda>_. 0) s [Some AWorld, Some AWatch, Some ATick, Some AWatch] s' \<and>
     router_status (re_router ref_env) ''w1'' (rt_exec (sys_rt s')) = (Inr ''exited(3)'', rt_exec (sys_rt s')) \<and>
     map_of (rt_workloads (sys_rt s')) ''w1'' = Some w \<and> ws_status w = ''running''"
proof -
  let ?H = "history ref_env ref_config (\<lambda>_. 0)"
  let ?e = "ref_exited ''exited(0)''"
  obtain w where w: "map_of (rt_workloads (sys_rt ?e)) ''w1'' = Some w" "ws_status w = ''running''" "ws_restart_policy w = OnFailure"
    and only: "rt_workloads (sys_rt ?e) = [(''w1'', w)]"
    using ref_ran_simps(1) by (auto simp: ref_exited_def)
  have e: "sys_pc ?e = Watching [(''w1'', ''vm'')]" "sys_announced ?e = []" "map_of (rt_exec (sys_rt ?e)) ''w1'' = Some ''exited(0)''"
    by (simp_all add: ref_exited_def ref_ran_def ref_started_simps)
  obtain st1 where one: "watch_one ref_env 2 (sys_announced ?e) ''w1'' ''vm'' (sys_rt ?e) = (Some False, st1)"
    and st1: "rt_workloads st1 = AList.update ''w1'' (w\<lparr>ws_status := ''exited'', ws_exit_time := 2, ws_exit_code := Some 0\<rparr>)
      (rt_workloads (sys_rt ?e))"
    by (rule ref_exit [OF e(3) _ _ _ w(1,2), of "sys_announced ?e" 2 "''vm''"])
      (simp_all add: ref_exit_codes w restart_wanted_def e)
  define s1 where "s1 = after_watch ''w1'' ''vm'' [] (Some False) st1 ?e"
  have s1: "?H ref_started [Some (ARun ref_request), Some AWorld, Some ATick, Some AWatch] s1"
    using history.step [OF ref_exited_history sys_step.watch [OF e(1) one]] by (simp add: s1_def)
  have pc1: "sys_pc s1 = Watching []" "sys_announced s1 = [''w1'']" by (simp_all add: s1_def after_watch_def e)
  obtain rr v st2 where run: "run_workload ref_env ref_config 3 ref_request (sys_rt s1) = (Inr rr, st2)"
    "rt_workloads st2 = AList.update ''w1'' v (rt_workloads (sys_rt s1))" "ws_status v = ''running''"
    by (rule ref_run [of 3 "sys_rt s1"])
  let ?s2 = "s1\<lparr>sys_rt := snd (run_workload ref_env ref_config 3 ref_request (sys_rt s1))\<rparr>"
  have s2: "?H ref_started [Some (ARun ref_request), Some AWorld, Some ATick, Some AWatch, Some (ARun ref_request)] ?s2"
    using history.step [OF s1 sys_step.run] by simp
  have v: "map_of (rt_workloads (sys_rt ?s2)) ''w1'' = Some v" using run by (simp add: update_conv')
  let ?s3 = "?s2\<lparr>sys_rt := (sys_rt ?s2)\<lparr>rt_exec := [(''w1'', ''exited(3)'')]\<rparr>\<rparr>"
  let ?s4 = "?s3\<lparr>sys_pc := Sleeping, sys_announced := retain_live (sys_rt ?s3) (sys_announced ?s3)\<rparr>"
  let ?s5 = "?s4\<lparr>sys_pc := Watching (running_ids (sys_rt ?s4))\<rparr>"
  have s3: "?H ?s2 [Some AWorld] ?s3" by (intro one_step sys_step.world)
  have "?H ?s2 ([Some AWorld] @ [Some AWatch]) ?s4" by (rule history.step [OF s3 sys_step.watched]) (simp add: pc1)
  then have s5: "?H ?s2 (([Some AWorld] @ [Some AWatch]) @ [Some ATick]) ?s5" by (rule history.step) (rule sys_step.tick, simp)
  have "rt_workloads (sys_rt s1) = rt_workloads st1" by (simp add: s1_def after_watch_def)
  then have "rt_workloads (sys_rt ?s2) = [(''w1'', v)]" using run(1,2) only st1 by simp
  then have pc5: "sys_pc ?s5 = Watching [(''w1'', ws_backend v)]" using run(3) by (simp add: running_ids_def)
  have ann: "''w1'' \<in> set (sys_announced ?s5)" using v by (simp add: retain_live_def pc1)
  then have none: "watch_one ref_env 4 (sys_announced ?s5) ''w1'' (ws_backend v) (sys_rt ?s5) = (None, sys_rt ?s5)"
    by (simp add: watch_one_def)
  let ?s6 = "after_watch ''w1'' (ws_backend v) [] None (sys_rt ?s5) ?s5"
  from history.step [OF s5 sys_step.watch [OF pc5 none]]
  have s6: "?H ?s2 [Some AWorld, Some AWatch, Some ATick, Some AWatch] ?s6" by simp
  have "tables_ok (sys_rt ?s2)" using history_ok [OF s2] ref_started_simps(1) by simp
  from rerun_exit_missed [OF s6 this _ v run(3)] pc1
  obtain w' where "map_of (rt_workloads (sys_rt ?s6)) ''w1'' = Some w' \<and> ws_status w' = ''running''" by auto
  moreover have "router_status (re_router ref_env) ''w1'' (rt_exec (sys_rt ?s6)) = (Inr ''exited(3)'', rt_exec (sys_rt ?s6))"
    by (simp add: ref_router after_watch_def)
  ultimately show ?thesis using s2 s6 by blast
qed

section \<open>Restarts\<close>



end
