(* ===== verification/Spec2Isabelle.thy ===== *)
theory Spec2Isabelle
  imports Gc_Properties Store_Properties Vsock_Frame Ipam Block_Sync Policy Dockerfile Conversion_Limits
    Dag_Transfer Registry_Push Workload_Properties
begin

text \<open>
  Verification of the pullrun runtime.
\<close>

end
